(* ===== verification/Prelude.thy ===== *)
theory Prelude
  imports Main "HOL-Library.Word"
begin

unbundle bit_operations_syntax

text \<open>
  Shared vocabulary of the development: fixed-width integers, byte buffers with the loads and
  stores a C program does on them, faults as values, and the few libc functions every component
  of the router uses.

  The modelled host is little endian (the \<^verbatim>\<open>_LINUX_\<close> branch of \<^verbatim>\<open>sr_protocol.h\<close>): a
  multi-byte field of a packed struct is read least significant byte first, and
  \<^verbatim>\<open>htons\<close>/\<^verbatim>\<open>ntohs\<close>/\<^verbatim>\<open>htonl\<close>/\<^verbatim>\<open>ntohl\<close> swap bytes.

  A pointer into a buffer is the list of the bytes from it to the end of its allocation; an access
  that leaves the list is the fault \<open>OutOfBounds\<close>.  Allocation always succeeds.
\<close>

section \<open>Types\<close>

type_synonym u8 = "8 word"
type_synonym u16 = "16 word"
type_synonym u32 = "32 word"
type_synonym bytes = "8 word list"

text \<open>
  What ends an execution other than a return: undefined behaviour (an access outside an
  allocation, through a null pointer, or to freed memory), a failed \<^verbatim>\<open>assert\<close>, recursion
  deeper than the stack allows, and a loop of the model that ran out of its fuel.
\<close>

datatype fault = OutOfBounds | NullDeref | UseAfterFree | AssertFailed | StackOverflow | NoFuel | Blocked

type_synonym 'a res = "fault + 'a"

definition bindE :: "'e + 'a \<Rightarrow> ('a \<Rightarrow> 'e + 'b) \<Rightarrow> 'e + 'b" where
  "bindE m f = (case m of Inl e \<Rightarrow> Inl e | Inr x \<Rightarrow> f x)"

lemma bindE_Inl [simp]: "bindE (Inl e) f = Inl e"
  by (simp add: bindE_def)

lemma bindE_Inr [simp]: "bindE (Inr x) f = f x"
  by (simp add: bindE_def)

lemma bindE_eq_Inr: "bindE m f = Inr y \<longleftrightarrow> (\<exists>x. m = Inr x \<and> f x = Inr y)"
  by (cases m) auto

lemma bindE_eq_Inl: "bindE m f = Inl e \<longleftrightarrow> m = Inl e \<or> (\<exists>x. m = Inr x \<and> f x = Inl e)"
  by (cases m) auto

lemma bindE_assoc: "bindE (bindE m f) g = bindE m (\<lambda>x. bindE (f x) g)"
  by (cases m) auto

text \<open>
  \<open>ensures m P\<close>: if the computation \<open>m\<close> returns, its result satisfies \<open>P\<close>.  The rules of \<open>ensures\<close>
  follow the constructs of a handler, so that \<open>(intro ensures)\<close> leaves its primitive steps.
\<close>

definition ensures :: "'a res \<Rightarrow> ('a \<Rightarrow> bool) \<Rightarrow> bool" where
  "ensures m P \<longleftrightarrow> (\<forall>x. m = Inr x \<longrightarrow> P x)"

named_theorems ensures "rules that decompose \<open>ensures\<close> along the constructs of a handler"

lemma ensuresI: "(\<And>x. m = Inr x \<Longrightarrow> P x) \<Longrightarrow> ensures m P"
  by (simp add: ensures_def)

lemma ensuresD: "ensures m P \<Longrightarrow> m = Inr x \<Longrightarrow> P x"
  by (simp add: ensures_def)

lemma ensures_weaken: "ensures m P \<Longrightarrow> (\<And>x. P x \<Longrightarrow> Q x) \<Longrightarrow> ensures m Q"
  by (simp add: ensures_def)

lemma ensures_Inr [ensures]: "P x \<Longrightarrow> ensures (Inr x) P"
  by (simp add: ensures_def)

lemma ensures_Inl [ensures]: "ensures (Inl e) P"
  by (simp add: ensures_def)

lemma ensures_bind [ensures]: "(\<And>x. m = Inr x \<Longrightarrow> ensures (f x) P) \<Longrightarrow> ensures (bindE m f) P"
  by (auto simp: ensures_def bindE_eq_Inr)

lemma ensures_if [ensures]:
  "(c \<Longrightarrow> ensures a P) \<Longrightarrow> (\<not> c \<Longrightarrow> ensures b P) \<Longrightarrow> ensures (if c then a else b) P"
  by simp

lemma ensures_let [ensures]: "ensures (f a) P \<Longrightarrow> ensures (let x = a in f x) P"
  by simp

lemma ensures_option [ensures]:
  "(x = None \<Longrightarrow> ensures a P) \<Longrightarrow> (\<And>y. x = Some y \<Longrightarrow> ensures (f y) P) \<Longrightarrow>
   ensures (case x of None \<Rightarrow> a | Some y \<Rightarrow> f y) P"
  by (cases x) simp_all

lemma ensures_list [ensures]:
  "(x = [] \<Longrightarrow> ensures a P) \<Longrightarrow> (\<And>y ys. x = y # ys \<Longrightarrow> ensures (f y ys) P) \<Longrightarrow>
   ensures (case x of [] \<Rightarrow> a | y # ys \<Rightarrow> f y ys) P"
  by (cases x) simp_all

lemma ensures_prod [ensures]:
  "(\<And>y z. x = (y, z) \<Longrightarrow> ensures (f y z) P) \<Longrightarrow> ensures (case x of (y, z) \<Rightarrow> f y z) P"
  by (cases x) simp

named_theorems byte_simps
  "rewriting of byte swaps, field encodings and patched buffers"

named_theorems length_simps
  "lengths of encodings and patched buffers"

lemma unat_u8_less: "unat (a :: u8) < 256"
  using unsigned_less [of a] by simp

lemma unat_u16_less: "unat (a :: u16) < 65536"
  using unsigned_less [of a] by simp

lemma unat_u32_less: "unat (a :: u32) < 4294967296"
  using unsigned_less [of a] by simp

lemma complement_unique:
  fixes a b :: nat
  assumes "(a + b) mod m = m - 1" "a < m" "b < m"
  shows "b = m - 1 - a"
proof (cases "a + b < m")
  case True
  with assms(1) show ?thesis
    by simp
next
  case False
  then have "(a + b) mod m = a + b - m"
    using assms(2,3) by (simp add: le_mod_geq)
  with assms False show ?thesis
    by linarith
qed

lemma unat_not_u32: "unat (NOT (f :: u32)) = 4294967296 - 1 - unat f"
proof -
  have "f + NOT f = - 1"
    by (simp add: not_eq_complement)
  then have "unat (f + NOT f) = unat (- 1 :: u32)"
    by (rule arg_cong)
  then have "(unat f + unat (NOT f)) mod 4294967296 = 4294967296 - 1"
    by (simp only: unat_word_ariths(1)) (simp add: unsigned_minus_1_eq_mask mask_eq_exp_minus_1)
  then show ?thesis
    using unat_u32_less [of f] unat_u32_less [of "NOT f"] by (rule complement_unique)
qed

section \<open>Byte order\<close>

text \<open>Native (little endian) integers and the bytes they occupy.\<close>

definition le16 :: "u8 \<Rightarrow> u8 \<Rightarrow> u16" where
  "le16 a b = push_bit 8 (ucast b) OR ucast a"

definition bytes16 :: "u16 \<Rightarrow> bytes" where
  "bytes16 w = [ucast w, ucast (drop_bit 8 w)]"

definition le32 :: "u8 \<Rightarrow> u8 \<Rightarrow> u8 \<Rightarrow> u8 \<Rightarrow> u32" where
  "le32 a b c d = push_bit 24 (ucast d) OR push_bit 16 (ucast c) OR push_bit 8 (ucast b) OR ucast a"

definition bytes32 :: "u32 \<Rightarrow> bytes" where
  "bytes32 w = [ucast w, ucast (drop_bit 8 w), ucast (drop_bit 16 w), ucast (drop_bit 24 w)]"

lemma le16_byte [byte_simps]:
  "ucast (le16 a b) = a" "ucast (drop_bit 8 (le16 a b)) = b"
  unfolding le16_def by (rule bit_word_eqI; auto simp: bit_simps dest: bit_imp_le_length)+

lemma le32_byte [byte_simps]:
  "ucast (le32 a b c d) = a" "ucast (drop_bit 8 (le32 a b c d)) = b"
  "ucast (drop_bit 16 (le32 a b c d)) = c" "ucast (drop_bit 24 (le32 a b c d)) = d"
  unfolding le32_def by (rule bit_word_eqI; auto simp: bit_simps dest: bit_imp_le_length)+

lemma le16_bytes16 [byte_simps]: "le16 (ucast w) (ucast (drop_bit 8 w)) = w"
  unfolding le16_def by (rule bit_word_eqI) (auto simp: bit_simps)

lemma le32_bytes32 [byte_simps]:
  "le32 (ucast w) (ucast (drop_bit 8 w)) (ucast (drop_bit 16 w)) (ucast (drop_bit 24 w)) = w"
proof (rule bit_word_eqI)
  fix n :: nat
  assume "n < LENGTH(32)"
  then show "bit (le32 (ucast w) (ucast (drop_bit 8 w)) (ucast (drop_bit 16 w))
      (ucast (drop_bit 24 w))) n = bit w n"
    by (cases "n < 8"; cases "n < 16"; cases "n < 24") (auto simp: le32_def bit_simps)
qed

lemma bytes16_le16 [byte_simps]: "bytes16 (le16 a b) = [a, b]"
  by (simp add: bytes16_def byte_simps)

lemma bytes32_le32 [byte_simps]: "bytes32 (le32 a b c d) = [a, b, c, d]"
  by (simp add: bytes32_def byte_simps)

lemma length_bytes16 [simp]: "length (bytes16 w) = 2"
  by (simp add: bytes16_def)

lemma length_bytes32 [simp]: "length (bytes32 w) = 4"
  by (simp add: bytes32_def)

lemma le16_inject: "le16 a b = le16 c d \<longleftrightarrow> a = c \<and> b = d"
  by (metis le16_byte)

lemma le32_inject: "le32 a b c d = le32 a' b' c' d' \<longleftrightarrow> a = a' \<and> b = b' \<and> c = c' \<and> d = d'"
  by (metis le32_byte)

text \<open>
  \<^verbatim>\<open>htons\<close> and \<^verbatim>\<open>htonl\<close> read the bytes of their argument in the opposite order; on a little
  endian host they are their own inverses, so the \<^verbatim>\<open>ntoh\<close> variants are the same functions.
\<close>

definition htons :: "u16 \<Rightarrow> u16" where
  "htons w = le16 (ucast (drop_bit 8 w)) (ucast w)"

abbreviation ntohs :: "u16 \<Rightarrow> u16" where
  "ntohs \<equiv> htons"

definition htonl :: "u32 \<Rightarrow> u32" where
  "htonl w = le32 (ucast (drop_bit 24 w)) (ucast (drop_bit 16 w)) (ucast (drop_bit 8 w)) (ucast w)"

abbreviation ntohl :: "u32 \<Rightarrow> u32" where
  "ntohl \<equiv> htonl"

lemma htons_htons [simp]: "htons (htons w) = w"
  by (simp add: htons_def byte_simps)

lemma htonl_htonl [simp]: "htonl (htonl w) = w"
  by (simp add: htonl_def byte_simps)

lemma htons_inject [simp]: "htons a = htons b \<longleftrightarrow> a = b"
  by (metis htons_htons)

lemma htonl_inject [simp]: "htonl a = htonl b \<longleftrightarrow> a = b"
  by (metis htonl_htonl)

text \<open>A value in network byte order lies in memory most significant byte first.\<close>

lemma bytes16_htons [byte_simps]: "bytes16 (htons w) = [ucast (drop_bit 8 w), ucast w]"
  by (simp add: htons_def byte_simps)

lemma bytes32_htonl [byte_simps]:
  "bytes32 (htonl w) = [ucast (drop_bit 24 w), ucast (drop_bit 16 w), ucast (drop_bit 8 w), ucast w]"
  by (simp add: htonl_def byte_simps)

section \<open>Buffers\<close>

text \<open>\<open>slice i n b\<close>: the \<open>n\<close> bytes of \<open>b\<close> from offset \<open>i\<close>;
  \<open>patch i v b\<close>: \<open>b\<close> with the bytes from offset \<open>i\<close> overwritten by \<open>v\<close>.\<close>

definition slice :: "nat \<Rightarrow> nat \<Rightarrow> 'a list \<Rightarrow> 'a list" where
  "slice i n b = take n (drop i b)"

definition patch :: "nat \<Rightarrow> 'a list \<Rightarrow> 'a list \<Rightarrow> 'a list" where
  "patch i v b = take i b @ v @ drop (i + length v) b"

lemma length_slice [length_simps]: "i + n \<le> length b \<Longrightarrow> length (slice i n b) = n"
  by (simp add: slice_def)

lemma length_patch [length_simps]: "i + length v \<le> length b \<Longrightarrow> length (patch i v b) = length b"
  by (simp add: patch_def)

lemma slice_patch_same [byte_simps]:
  "i + length v \<le> length b \<Longrightarrow> n = length v \<Longrightarrow> slice i n (patch i v b) = v"
  by (simp add: slice_def patch_def)

lemma slice_patch_before [byte_simps]:
  "j + n \<le> i \<Longrightarrow> i + length v \<le> length b \<Longrightarrow> slice j n (patch i v b) = slice j n b"
  by (simp add: slice_def patch_def take_drop min_def)

lemma slice_patch_after [byte_simps]:
  assumes "i + length v \<le> j" "i + length v \<le> length b"
  shows "slice j n (patch i v b) = slice j n b"
proof -
  have "drop j (patch i v b) = drop (j - (i + length v)) (drop (i + length v) b)"
    using assms by (simp add: patch_def)
  then show ?thesis
    using assms(1) by (simp add: slice_def)
qed

lemma patch_slice_same: "i + n \<le> length b \<Longrightarrow> patch i (slice i n b) b = b"
  by (simp add: patch_def slice_def)
     (metis append_take_drop_id drop_drop add.commute)

lemma patch_patch_same [byte_simps]:
  "length v = length w \<Longrightarrow> i + length v \<le> length b \<Longrightarrow> patch i v (patch i w b) = patch i v b"
  by (simp add: patch_def)

text \<open>Two writes in a row are one write, and a write up to the end leaves the part before it.\<close>

lemma patch_append:
  "i + length v + length w \<le> length b \<Longrightarrow> j = i + length v \<Longrightarrow> patch j w (patch i v b) = patch i (v @ w) b"
  by (simp add: patch_def ac_simps)

lemma patch_to_end: "i + length v = length b \<Longrightarrow> patch i v b = take i b @ v"
  by (simp add: patch_def)

lemma patch_0 [byte_simps]: "patch 0 v b = v @ drop (length v) b"
  by (simp add: patch_def)

lemma patch_Nil [simp]: "patch i [] b = b"
  by (simp add: patch_def)

text \<open>
  \<open>memcpy\<close> between buffers: reading \<open>n\<close> bytes at offset \<open>i\<close>, and writing bytes at
  offset \<open>i\<close>, with the bounds of the allocation checked.
\<close>

definition load :: "bytes \<Rightarrow> nat \<Rightarrow> nat \<Rightarrow> bytes res" where
  "load b i n = (if i + n \<le> length b then Inr (slice i n b) else Inl OutOfBounds)"

definition store :: "bytes \<Rightarrow> nat \<Rightarrow> bytes \<Rightarrow> bytes res" where
  "store b i v = (if i + length v \<le> length b then Inr (patch i v b) else Inl OutOfBounds)"

lemma load_Inr [simp]: "i + n \<le> length b \<Longrightarrow> load b i n = Inr (slice i n b)"
  by (simp add: load_def)

lemma store_Inr [simp]: "i + length v \<le> length b \<Longrightarrow> store b i v = Inr (patch i v b)"
  by (simp add: store_def)

lemma load_Inl: "\<not> i + n \<le> length b \<Longrightarrow> load b i n = Inl OutOfBounds"
  by (simp add: load_def)

lemma store_eq_Inr: "store b i v = Inr b' \<longleftrightarrow> i + length v \<le> length b \<and> b' = patch i v b"
  by (auto simp: store_def)

lemma load_eq_Inr: "load b i n = Inr v \<longleftrightarrow> i + n \<le> length b \<and> v = slice i n b"
  by (auto simp: load_def)

section \<open>C strings\<close>

text \<open>
  A \<^verbatim>\<open>char*\<close> is the list of the bytes from it; the end of the list stands for the terminating NUL
  of a literal.  \<^verbatim>\<open>strncpy\<close> fills exactly \<open>n\<close> bytes: the string up to its NUL, then zeros.
\<close>

definition cstr :: "bytes \<Rightarrow> bytes" where
  "cstr s = takeWhile (\<lambda>c. c \<noteq> 0) s"

definition strncpy :: "nat \<Rightarrow> bytes \<Rightarrow> bytes" where
  "strncpy n s = take n (cstr s) @ replicate (n - length (cstr s)) 0"

text \<open>\<open>strncmp_eq n s t\<close>: \<^verbatim>\<open>strncmp(s, t, n) == 0\<close>.\<close>

fun strncmp_eq :: "nat \<Rightarrow> bytes \<Rightarrow> bytes \<Rightarrow> bool" where
  "strncmp_eq 0 s t = True"
| "strncmp_eq (Suc n) [] [] = True"
| "strncmp_eq (Suc n) [] (d # t) = (d = 0)"
| "strncmp_eq (Suc n) (c # s) [] = (c = 0)"
| "strncmp_eq (Suc n) (c # s) (d # t) = (c = d \<and> (c = 0 \<or> strncmp_eq n s t))"

lemma cstr_Nil [simp]: "cstr [] = []"
  by (simp add: cstr_def)

lemma cstr_Cons [simp]: "cstr (c # s) = (if c = 0 then [] else c # cstr s)"
  by (simp add: cstr_def)

lemma length_strncpy [simp]: "length (strncpy n s) = n"
  by (simp add: strncpy_def)

lemma cstr_no_nul: "0 \<notin> set (cstr s)"
  by (auto simp: cstr_def dest: set_takeWhileD)

lemma cstr_idem [simp]: "0 \<notin> set s \<Longrightarrow> cstr s = s"
  by (induction s) auto

lemma cstr_append_replicate: "0 \<notin> set s \<Longrightarrow> cstr (s @ replicate k 0) = s"
  by (induction s) (auto simp: cstr_def takeWhile_replicate)

lemma cstr_strncpy: "cstr (strncpy n s) = take n (cstr s)"
  unfolding strncpy_def
  by (rule cstr_append_replicate) (use cstr_no_nul in_set_takeD in fast)

text \<open>\<^verbatim>\<open>strncmp\<close> decides equality of the strings cut to \<open>n\<close> characters.\<close>

lemma strncpy_idem: "strncpy n (strncpy n s) = strncpy n s"
  unfolding strncpy_def [of n "strncpy n s"] cstr_strncpy by (simp add: strncpy_def min_def)

lemma strncmp_eq_iff: "strncmp_eq n s t \<longleftrightarrow> take n (cstr s) = take n (cstr t)"
  by (induction n s t rule: strncmp_eq.induct) auto

lemma strncmp_eq_refl [simp]: "strncmp_eq n s s"
  by (simp add: strncmp_eq_iff)

lemma strncmp_eq_strncpy [simp]: "strncmp_eq n (strncpy n s) t = strncmp_eq n s t"
  by (simp add: strncmp_eq_iff cstr_strncpy)

lemma strncmp_eq_strncpy2 [simp]: "strncmp_eq n s (strncpy n t) = strncmp_eq n s t"
  by (simp add: strncmp_eq_iff cstr_strncpy)

end
