(* ===== verification/Packed_Struct.thy ===== *)
theory Packed_Struct
  imports Prelude
begin

text \<open>
  Casting a pointer into a byte buffer to a packed struct: \<open>read_struct\<close> decodes the bytes at an
  offset, \<open>write_struct\<close> encodes a struct there; both fault when the struct does not lie inside the
  allocation.  The locale \<open>packed_struct\<close> is the interface a struct layout offers to the code that
  reads and writes its fields: decoding inverts encoding on well-formed values (arrays of the
  declared length), encoding inverts decoding, and the size is fixed.  Every header of
  \<^verbatim>\<open>sr_protocol.h\<close> and \<^verbatim>\<open>vnscommand.h\<close> interprets it.
\<close>

definition read_struct :: "(bytes \<Rightarrow> 'a) \<Rightarrow> nat \<Rightarrow> bytes \<Rightarrow> nat \<Rightarrow> 'a res" where
  "read_struct dec sz b off =
     (if off + sz \<le> length b then Inr (dec (slice off sz b)) else Inl OutOfBounds)"

definition write_struct :: "('a \<Rightarrow> bytes) \<Rightarrow> bytes \<Rightarrow> nat \<Rightarrow> 'a \<Rightarrow> bytes res" where
  "write_struct enc b off h = store b off (enc h)"

lemma read_struct_Inr:
  "off + sz \<le> length b \<Longrightarrow> read_struct dec sz b off = Inr (dec (slice off sz b))"
  by (simp add: read_struct_def)

lemma read_struct_Inl: "length b < off + sz \<Longrightarrow> read_struct dec sz b off = Inl OutOfBounds"
  by (simp add: read_struct_def)

lemma read_struct_eq_Inr:
  "read_struct dec sz b off = Inr h \<longleftrightarrow> off + sz \<le> length b \<and> h = dec (slice off sz b)"
  by (auto simp: read_struct_def)

text \<open>A buffer of known length is the list of its bytes; every decoder reads off that list.\<close>

lemma bytes_upto: "length b = n \<Longrightarrow> \<exists>f. b = map f [0..<n]"
  by (metis map_nth)

locale packed_struct =
  fixes enc :: "'a \<Rightarrow> bytes"
    and dec :: "bytes \<Rightarrow> 'a"
    and wf :: "'a \<Rightarrow> bool"
    and sz :: nat
  assumes length_enc: "wf h \<Longrightarrow> length (enc h) = sz"
    and dec_enc: "wf h \<Longrightarrow> dec (enc h) = h"
    and enc_dec: "length b = sz \<Longrightarrow> enc (dec b) = b"
    and wf_dec: "length b = sz \<Longrightarrow> wf (dec b)"
begin

lemma enc_inject: "wf h \<Longrightarrow> wf h' \<Longrightarrow> enc h = enc h' \<longleftrightarrow> h = h'"
  by (metis dec_enc)

lemma dec_inject: "length b = sz \<Longrightarrow> length c = sz \<Longrightarrow> dec b = dec c \<longleftrightarrow> b = c"
  by (metis enc_dec)

lemma write_Inr:
  "wf h \<Longrightarrow> off + sz \<le> length b \<Longrightarrow> write_struct enc b off h = Inr (patch off (enc h) b)"
  by (simp add: write_struct_def length_enc)

lemma write_Inl: "wf h \<Longrightarrow> length b < off + sz \<Longrightarrow> write_struct enc b off h = Inl OutOfBounds"
  by (simp add: write_struct_def store_def length_enc)

lemma write_length:
  "wf h \<Longrightarrow> write_struct enc b off h = Inr b' \<Longrightarrow> length b' = length b"
  by (auto simp: write_struct_def store_eq_Inr length_enc length_simps)

lemma read_wf: "read_struct dec sz b off = Inr h \<Longrightarrow> wf h"
  by (auto simp: read_struct_eq_Inr length_simps intro: wf_dec)

lemma read_after_write:
  "wf h \<Longrightarrow> write_struct enc b off h = Inr b' \<Longrightarrow> read_struct dec sz b' off = Inr h"
  by (auto simp: write_struct_def store_eq_Inr read_struct_eq_Inr length_enc length_simps
      byte_simps dec_enc)

lemma dec_patch:
  "wf h \<Longrightarrow> off + sz \<le> length b \<Longrightarrow> dec (slice off sz (patch off (enc h) b)) = h"
  by (simp add: slice_patch_same length_enc dec_enc)

lemma write_after_read:
  "read_struct dec sz b off = Inr h \<Longrightarrow> write_struct enc b off h = Inr b"
  by (auto simp: write_struct_def store_eq_Inr read_struct_eq_Inr length_simps enc_dec
      patch_slice_same)

text \<open>A buffer laid out as a prefix, the struct, and the rest.\<close>

lemma read_at: "wf h \<Longrightarrow> length pre = off \<Longrightarrow> read_struct dec sz (pre @ enc h @ post) off = Inr h"
  by (simp add: read_struct_def slice_def length_enc dec_enc)

lemma write_at:
  "wf h \<Longrightarrow> length pre = off \<Longrightarrow> length mid = sz \<Longrightarrow>
   write_struct enc (pre @ mid @ post) off h = Inr (pre @ enc h @ post)"
  by (simp add: write_struct_def patch_def length_enc)

lemma write_over:
  "wf h \<Longrightarrow> wf h' \<Longrightarrow> length pre = off \<Longrightarrow>
   write_struct enc (pre @ enc h @ post) off h' = Inr (pre @ enc h' @ post)"
  by (rule write_at) (simp_all add: length_enc)

lemma split_at:
  assumes "sz \<le> length b"
  shows "\<exists>h. wf h \<and> b = enc h @ drop sz b"
  by (rule exI [of _ "dec (take sz b)"]) (use assms in \<open>simp add: enc_dec wf_dec\<close>)

end

end
