(* ===== verification/Protocol.thy ===== *)
theory Protocol
  imports Packed_Struct
begin

text \<open>
  The packed headers of \<^verbatim>\<open>sr_protocol.h\<close> and its constants.  A record has one field per member
  of the C struct, in the order of the struct; \<open>dec_\<dots>\<close> is the value seen through a pointer cast
  to the struct type, \<open>enc_\<dots>\<close> the bytes the struct occupies.  Integer members are native, as the
  C code sees them before \<^verbatim>\<open>ntohs\<close>/\<^verbatim>\<open>ntohl\<close>.
\<close>

section \<open>Constants\<close>

definition ETHER_ADDR_LEN :: nat where "ETHER_ADDR_LEN = 6"
definition ICMP_DATA_SIZE :: nat where "ICMP_DATA_SIZE = 28"
definition sr_IFACE_NAMELEN :: nat where "sr_IFACE_NAMELEN = 32"
definition IP_DF :: u16 where "IP_DF = 0x4000"

definition icmp_type_echo_reply :: u8 where "icmp_type_echo_reply = 0"
definition icmp_type_dest_unreachable :: u8 where "icmp_type_dest_unreachable = 3"
definition icmp_type_echo_request :: u8 where "icmp_type_echo_request = 8"
definition icmp_type_time_exceeded :: u8 where "icmp_type_time_exceeded = 11"

definition icmp_dest_unreachable_net :: u8 where "icmp_dest_unreachable_net = 0"
definition icmp_dest_unreachable_host :: u8 where "icmp_dest_unreachable_host = 1"
definition icmp_dest_unreachable_port :: u8 where "icmp_dest_unreachable_port = 3"

definition ip_protocol_icmp :: u8 where "ip_protocol_icmp = 0x01"
definition ip_protocol_tcp :: u8 where "ip_protocol_tcp = 0x06"
definition ip_protocol_udp :: u8 where "ip_protocol_udp = 0x11"

definition ethertype_arp :: u16 where "ethertype_arp = 0x0806"
definition ethertype_ip :: u16 where "ethertype_ip = 0x0800"

definition arp_op_request :: u16 where "arp_op_request = 1"
definition arp_op_reply :: u16 where "arp_op_reply = 2"
definition arp_hrd_ethernet :: u16 where "arp_hrd_ethernet = 1"

lemmas icmp_consts = icmp_type_echo_reply_def icmp_type_dest_unreachable_def
  icmp_type_echo_request_def icmp_type_time_exceeded_def icmp_dest_unreachable_net_def
  icmp_dest_unreachable_host_def icmp_dest_unreachable_port_def

lemmas proto_consts = ETHER_ADDR_LEN_def ICMP_DATA_SIZE_def sr_IFACE_NAMELEN_def IP_DF_def
  ip_protocol_icmp_def ip_protocol_tcp_def ip_protocol_udp_def ethertype_arp_def ethertype_ip_def
  arp_op_request_def arp_op_reply_def arp_hrd_ethernet_def

section \<open>Ethernet\<close>

record sr_ethernet_hdr =
  ether_dhost :: bytes
  ether_shost :: bytes
  ether_type :: u16

definition dec_eth :: "bytes \<Rightarrow> sr_ethernet_hdr" where
  "dec_eth b = \<lparr>ether_dhost = slice 0 6 b, ether_shost = slice 6 6 b,
     ether_type = le16 (b ! 12) (b ! 13)\<rparr>"

definition enc_eth :: "sr_ethernet_hdr \<Rightarrow> bytes" where
  "enc_eth h = ether_dhost h @ ether_shost h @ bytes16 (ether_type h)"

definition wf_eth :: "sr_ethernet_hdr \<Rightarrow> bool" where
  "wf_eth h \<longleftrightarrow> length (ether_dhost h) = 6 \<and> length (ether_shost h) = 6"

interpretation eth: packed_struct enc_eth dec_eth wf_eth 14
proof unfold_locales
  fix b :: bytes
  assume "length b = 14"
  then obtain xs where "b = map xs [0..<14]"
    using bytes_upto by blast
  then show "enc_eth (dec_eth b) = b"
    by (simp add: upt_rec [of _ 14] enc_eth_def dec_eth_def slice_def byte_simps)
qed (simp_all add: enc_eth_def dec_eth_def wf_eth_def slice_def nth_append bytes16_def byte_simps)

section \<open>IP\<close>

record sr_ip_hdr =
  ip_hl :: "4 word"
  ip_v :: "4 word"
  ip_tos :: u8
  ip_len :: u16
  ip_id :: u16
  ip_off :: u16
  ip_ttl :: u8
  ip_p :: u8
  ip_sum :: u16
  ip_src :: u32
  ip_dst :: u32

definition dec_ip :: "bytes \<Rightarrow> sr_ip_hdr" where
  "dec_ip b = \<lparr>ip_hl = ucast (b ! 0), ip_v = ucast (drop_bit 4 (b ! 0)), ip_tos = b ! 1,
     ip_len = le16 (b ! 2) (b ! 3), ip_id = le16 (b ! 4) (b ! 5), ip_off = le16 (b ! 6) (b ! 7),
     ip_ttl = b ! 8, ip_p = b ! 9, ip_sum = le16 (b ! 10) (b ! 11),
     ip_src = le32 (b ! 12) (b ! 13) (b ! 14) (b ! 15),
     ip_dst = le32 (b ! 16) (b ! 17) (b ! 18) (b ! 19)\<rparr>"

definition enc_ip :: "sr_ip_hdr \<Rightarrow> bytes" where
  "enc_ip h = [push_bit 4 (ucast (ip_v h)) OR ucast (ip_hl h), ip_tos h] @ bytes16 (ip_len h)
     @ bytes16 (ip_id h) @ bytes16 (ip_off h) @ [ip_ttl h, ip_p h] @ bytes16 (ip_sum h)
     @ bytes32 (ip_src h) @ bytes32 (ip_dst h)"

lemma nibbles_join [byte_simps]:
  "push_bit 4 (ucast (ucast (drop_bit 4 (b :: u8)) :: 4 word)) OR ucast (ucast b :: 4 word) = b"
  by (rule bit_word_eqI) (auto simp: bit_simps)

lemma nibbles_split [byte_simps]:
  "ucast (push_bit 4 (ucast (v :: 4 word)) OR (ucast (l :: 4 word)) :: u8) = l"
  "ucast (drop_bit 4 (push_bit 4 (ucast (v :: 4 word))) OR
     (drop_bit 4 (ucast (l :: 4 word)) :: u8)) = v"
  by (rule bit_word_eqI; auto simp: bit_simps dest: bit_imp_le_length)+

interpretation ip: packed_struct enc_ip dec_ip "\<lambda>_. True" 20
proof unfold_locales
  fix b :: bytes
  assume "length b = 20"
  then obtain xs where "b = map xs [0..<20]"
    using bytes_upto by blast
  then show "enc_ip (dec_ip b) = b"
    by (simp add: upt_rec [of _ 20] enc_ip_def dec_ip_def byte_simps)
qed (simp_all add: enc_ip_def dec_ip_def bytes16_def bytes32_def byte_simps)

text \<open>The header length in bytes, \<^verbatim>\<open>ip_hl * 4\<close>.\<close>

definition ip_hdr_bytes :: "sr_ip_hdr \<Rightarrow> nat" where
  "ip_hdr_bytes h = unat (ip_hl h) * 4"

lemma ip_hdr_bytes_le: "ip_hdr_bytes h \<le> 60"
proof -
  have "unat (ip_hl h) < 2 ^ LENGTH(4)"
    by (rule unsigned_less)
  then show ?thesis
    by (simp add: ip_hdr_bytes_def)
qed

section \<open>ICMP\<close>

record sr_icmp_hdr =
  icmp_type :: u8
  icmp_code :: u8
  icmp_sum :: u16

definition dec_icmp :: "bytes \<Rightarrow> sr_icmp_hdr" where
  "dec_icmp b = \<lparr>icmp_type = b ! 0, icmp_code = b ! 1, icmp_sum = le16 (b ! 2) (b ! 3)\<rparr>"

definition enc_icmp :: "sr_icmp_hdr \<Rightarrow> bytes" where
  "enc_icmp h = [icmp_type h, icmp_code h] @ bytes16 (icmp_sum h)"

interpretation icmp: packed_struct enc_icmp dec_icmp "\<lambda>_. True" 4
proof unfold_locales
  fix b :: bytes
  assume "length b = 4"
  then obtain xs where "b = map xs [0..<4]"
    using bytes_upto by blast
  then show "enc_icmp (dec_icmp b) = b"
    by (simp add: upt_rec [of _ 4] enc_icmp_def dec_icmp_def byte_simps)
qed (simp_all add: enc_icmp_def dec_icmp_def bytes16_def byte_simps)

record sr_icmp_t3_hdr = sr_icmp_hdr +
  unused :: u16
  next_mtu :: u16
  icmp_data :: bytes

definition dec_icmp_t3 :: "bytes \<Rightarrow> sr_icmp_t3_hdr" where
  "dec_icmp_t3 b = \<lparr>icmp_type = b ! 0, icmp_code = b ! 1, icmp_sum = le16 (b ! 2) (b ! 3),
     unused = le16 (b ! 4) (b ! 5), next_mtu = le16 (b ! 6) (b ! 7), icmp_data = slice 8 28 b\<rparr>"

definition enc_icmp_t3 :: "sr_icmp_t3_hdr \<Rightarrow> bytes" where
  "enc_icmp_t3 h = [icmp_type h, icmp_code h] @ bytes16 (icmp_sum h) @ bytes16 (unused h)
     @ bytes16 (next_mtu h) @ icmp_data h"

definition wf_icmp_t3 :: "sr_icmp_t3_hdr \<Rightarrow> bool" where
  "wf_icmp_t3 h \<longleftrightarrow> length (icmp_data h) = ICMP_DATA_SIZE"

interpretation icmp_t3: packed_struct enc_icmp_t3 dec_icmp_t3 wf_icmp_t3 36
proof unfold_locales
  fix b :: bytes
  assume "length b = 36"
  then obtain xs where "b = map xs [0..<36]"
    using bytes_upto by blast
  then show "enc_icmp_t3 (dec_icmp_t3 b) = b"
    by (simp add: upt_rec [of _ 36] enc_icmp_t3_def dec_icmp_t3_def slice_def byte_simps)
qed (simp_all add: enc_icmp_t3_def dec_icmp_t3_def wf_icmp_t3_def ICMP_DATA_SIZE_def slice_def
    bytes16_def byte_simps)

section \<open>ARP\<close>

record sr_arp_hdr =
  ar_hrd :: u16
  ar_pro :: u16
  ar_hln :: u8
  ar_pln :: u8
  ar_op :: u16
  ar_sha :: bytes
  ar_sip :: u32
  ar_tha :: bytes
  ar_tip :: u32

definition dec_arp :: "bytes \<Rightarrow> sr_arp_hdr" where
  "dec_arp b = \<lparr>ar_hrd = le16 (b ! 0) (b ! 1), ar_pro = le16 (b ! 2) (b ! 3), ar_hln = b ! 4,
     ar_pln = b ! 5, ar_op = le16 (b ! 6) (b ! 7), ar_sha = slice 8 6 b,
     ar_sip = le32 (b ! 14) (b ! 15) (b ! 16) (b ! 17), ar_tha = slice 18 6 b,
     ar_tip = le32 (b ! 24) (b ! 25) (b ! 26) (b ! 27)\<rparr>"

definition enc_arp :: "sr_arp_hdr \<Rightarrow> bytes" where
  "enc_arp h = bytes16 (ar_hrd h) @ bytes16 (ar_pro h) @ [ar_hln h, ar_pln h] @ bytes16 (ar_op h)
     @ ar_sha h @ bytes32 (ar_sip h) @ ar_tha h @ bytes32 (ar_tip h)"

definition wf_arp :: "sr_arp_hdr \<Rightarrow> bool" where
  "wf_arp h \<longleftrightarrow> length (ar_sha h) = 6 \<and> length (ar_tha h) = 6"

interpretation arp: packed_struct enc_arp dec_arp wf_arp 28
proof unfold_locales
  fix b :: bytes
  assume "length b = 28"
  then obtain xs where "b = map xs [0..<28]"
    using bytes_upto by blast
  then show "enc_arp (dec_arp b) = b"
    by (simp add: upt_rec [of _ 28] enc_arp_def dec_arp_def slice_def byte_simps)
qed (simp_all add: enc_arp_def dec_arp_def wf_arp_def slice_def nth_append bytes16_def bytes32_def
    byte_simps)

text \<open>Reading and writing the headers at their offsets in a frame.\<close>

definition sizeof_eth :: nat where "sizeof_eth = 14"
definition sizeof_ip :: nat where "sizeof_ip = 20"
definition sizeof_icmp :: nat where "sizeof_icmp = 4"
definition sizeof_icmp_t3 :: nat where "sizeof_icmp_t3 = 36"
definition sizeof_arp :: nat where "sizeof_arp = 28"

lemmas sizeof_defs = sizeof_eth_def sizeof_ip_def sizeof_icmp_def sizeof_icmp_t3_def sizeof_arp_def

definition read_eth :: "bytes \<Rightarrow> sr_ethernet_hdr res" where
  "read_eth b = read_struct dec_eth sizeof_eth b 0"

definition write_eth :: "bytes \<Rightarrow> sr_ethernet_hdr \<Rightarrow> bytes res" where
  "write_eth b h = write_struct enc_eth b 0 h"

definition read_ip :: "bytes \<Rightarrow> sr_ip_hdr res" where
  "read_ip b = read_struct dec_ip sizeof_ip b sizeof_eth"

definition write_ip :: "bytes \<Rightarrow> sr_ip_hdr \<Rightarrow> bytes res" where
  "write_ip b h = write_struct enc_ip b sizeof_eth h"

definition read_arp :: "bytes \<Rightarrow> sr_arp_hdr res" where
  "read_arp b = read_struct dec_arp sizeof_arp b sizeof_eth"

definition write_arp :: "bytes \<Rightarrow> sr_arp_hdr \<Rightarrow> bytes res" where
  "write_arp b h = write_struct enc_arp b sizeof_eth h"

lemmas hdr_io_defs = read_eth_def write_eth_def read_ip_def write_ip_def read_arp_def write_arp_def

end
