(* ===== verification/List_Walk.thy ===== *)
theory List_Walk
  imports Prelude
begin

text \<open>
  The router keeps its interfaces, routes and pending ARP requests in singly linked lists and looks
  them up by walking from the head and returning the first node that passes a test.  The locale
  \<open>first_match\<close> is the interface of such a walk: the two equations every walk of the code satisfies.
  What the clients need (a hit is a node of the list, a miss means no node passes, the effect of
  pushing, appending and removing nodes) is proved once here.
\<close>

locale first_match =
  fixes lookup :: "'e list \<Rightarrow> 'k \<Rightarrow> 'e option"
    and hit :: "'k \<Rightarrow> 'e \<Rightarrow> bool"
  assumes lookup_Nil: "lookup [] k = None"
    and lookup_Cons: "lookup (e # es) k = (if hit k e then Some e else lookup es k)"
begin

lemma lookup_Some: "lookup es k = Some e \<Longrightarrow> e \<in> set es \<and> hit k e"
  by (induction es) (auto simp: lookup_Nil lookup_Cons split: if_splits)

lemma lookup_in_set: "lookup es k = Some e \<Longrightarrow> e \<in> set es"
  by (simp add: lookup_Some)

lemma lookup_hit: "lookup es k = Some e \<Longrightarrow> hit k e"
  by (simp add: lookup_Some)

lemma lookup_None_iff: "lookup es k = None \<longleftrightarrow> (\<forall>e \<in> set es. \<not> hit k e)"
  by (induction es) (auto simp: lookup_Nil lookup_Cons)

lemma lookup_Some_iff:
  "lookup es k = Some e \<longleftrightarrow> (\<exists>pre post. es = pre @ e # post \<and> hit k e \<and> (\<forall>x \<in> set pre. \<not> hit k x))"
proof (induction es)
  case Nil
  then show ?case
    by (simp add: lookup_Nil)
next
  case (Cons x es)
  show ?case
  proof (cases "hit k x")
    case True
    then show ?thesis
      by (auto simp: lookup_Cons Cons_eq_append_conv intro: exI [of _ "[]"])
  next
    case False
    then show ?thesis
      by (auto simp: lookup_Cons Cons.IH Cons_eq_append_conv) (metis set_ConsD)
  qed
qed

lemma lookup_append:
  "lookup (es @ fs) k = (case lookup es k of Some e \<Rightarrow> Some e | None \<Rightarrow> lookup fs k)"
  by (induction es) (auto simp: lookup_Nil lookup_Cons)

lemma lookup_filter:
  "(\<And>e. hit k e \<Longrightarrow> P e) \<Longrightarrow> lookup (filter P es) k = lookup es k"
  by (induction es) (auto simp: lookup_Nil lookup_Cons)

lemma lookup_map:
  "(\<And>e. hit k (f e) = hit k e) \<Longrightarrow> lookup (map f es) k = map_option f (lookup es k)"
  by (induction es) (auto simp: lookup_Nil lookup_Cons)

lemma lookup_cong:
  "(\<And>e. e \<in> set es \<Longrightarrow> hit k e = hit j e) \<Longrightarrow> lookup es k = lookup es j"
  by (induction es) (auto simp: lookup_Nil lookup_Cons)

end

text \<open>
  A walk whose test compares a key of the node; when the keys are distinct the hit is the only node
  with that key.
\<close>

locale keyed_match = first_match lookup "\<lambda>k e. key e = k"
  for lookup :: "'e list \<Rightarrow> 'k \<Rightarrow> 'e option" and key :: "'e \<Rightarrow> 'k"
begin

lemma lookup_distinct:
  assumes "distinct (map key es)" "e \<in> set es"
  shows "lookup es (key e) = Some e"
  using assms by (induction es) (auto simp: lookup_Nil lookup_Cons image_iff)

lemma lookup_eq_Some_iff:
  "distinct (map key es) \<Longrightarrow> lookup es k = Some e \<longleftrightarrow> e \<in> set es \<and> key e = k"
  using lookup_distinct lookup_Some by fastforce

lemma lookup_None_keys: "lookup es k = None \<longleftrightarrow> k \<notin> key ` set es"
  by (auto simp: lookup_None_iff)

end

end
