(* ===== verification/Interface.thy ===== *)
theory Interface
  imports Protocol List_Walk
begin

text \<open>
  The interface list of \<^verbatim>\<open>sr_if.c\<close>: nodes are appended as the server announces hardware, filled in
  on the last node, and looked up by name, address or MAC.  The list \<^verbatim>\<open>sr->if_list\<close> is the argument
  and result of each operation.
\<close>

record sr_if =
  if_name :: bytes
  if_addr :: bytes
  if_ip :: u32
  if_speed :: u32

definition wf_if :: "sr_if \<Rightarrow> bool" where
  "wf_if i \<longleftrightarrow> length (if_name i) = sr_IFACE_NAMELEN \<and> length (if_addr i) = ETHER_ADDR_LEN"

section \<open>Lookups\<close>

fun sr_get_interface :: "sr_if list \<Rightarrow> bytes \<Rightarrow> sr_if option" where
  "sr_get_interface [] name = None"
| "sr_get_interface (i # is) name =
     (if strncmp_eq sr_IFACE_NAMELEN (if_name i) name then Some i else sr_get_interface is name)"

text \<open>The walk of \<^verbatim>\<open>sr_get_interface_by_ip\<close>, and the function with its \<^verbatim>\<open>assert(ip)\<close>.\<close>

fun if_by_ip :: "sr_if list \<Rightarrow> u32 \<Rightarrow> sr_if option" where
  "if_by_ip [] ip = None"
| "if_by_ip (i # is) ip = (if if_ip i = ip then Some i else if_by_ip is ip)"

definition sr_get_interface_by_ip :: "sr_if list \<Rightarrow> u32 \<Rightarrow> sr_if option res" where
  "sr_get_interface_by_ip is ip = (if ip = 0 then Inl AssertFailed else Inr (if_by_ip is ip))"

fun sr_get_interface_by_mac :: "sr_if list \<Rightarrow> bytes \<Rightarrow> sr_if option" where
  "sr_get_interface_by_mac [] addr = None"
| "sr_get_interface_by_mac (i # is) addr =
     (if take ETHER_ADDR_LEN (if_addr i) = take ETHER_ADDR_LEN addr then Some i
      else sr_get_interface_by_mac is addr)"

interpretation if_name: first_match sr_get_interface
    "\<lambda>name i. strncmp_eq sr_IFACE_NAMELEN (if_name i) name"
  by unfold_locales simp_all

interpretation if_ip: keyed_match if_by_ip if_ip
  by unfold_locales simp_all

interpretation if_mac: first_match sr_get_interface_by_mac
    "\<lambda>addr i. take ETHER_ADDR_LEN (if_addr i) = take ETHER_ADDR_LEN addr"
  by unfold_locales simp_all

lemma sr_get_interface_by_ip_eq_Inr:
  "sr_get_interface_by_ip is ip = Inr r \<longleftrightarrow> ip \<noteq> 0 \<and> r = if_by_ip is ip"
  by (auto simp: sr_get_interface_by_ip_def)

section \<open>Updates\<close>

text \<open>
  \<^verbatim>\<open>sr_add_interface\<close> appends a node.  Only the name (and \<^verbatim>\<open>next\<close>) of the freshly allocated node is
  written; \<open>junk\<close> is what \<^verbatim>\<open>malloc\<close> returned, so the other fields keep its contents.
\<close>

definition sr_add_interface :: "sr_if \<Rightarrow> sr_if list \<Rightarrow> bytes \<Rightarrow> sr_if list" where
  "sr_add_interface junk is name = is @ [junk\<lparr>if_name := strncpy sr_IFACE_NAMELEN name\<rparr>]"

text \<open>The setters write the \<^emph>\<open>last\<close> node and assert that there is one.\<close>

definition sr_set_ether_addr :: "sr_if list \<Rightarrow> bytes \<Rightarrow> sr_if list res" where
  "sr_set_ether_addr is addr =
     (if is = [] then Inl AssertFailed
      else bindE (load addr 0 6) (\<lambda>a. Inr (butlast is @ [(last is)\<lparr>if_addr := a\<rparr>])))"

definition sr_set_ether_ip :: "sr_if list \<Rightarrow> u32 \<Rightarrow> sr_if list res" where
  "sr_set_ether_ip is ip_nbo =
     (if is = [] then Inl AssertFailed
      else Inr (butlast is @ [(last is)\<lparr>if_ip := ip_nbo\<rparr>]))"

lemma sr_set_ether_addr_snoc:
  "6 \<le> length addr \<Longrightarrow> sr_set_ether_addr (is @ [i]) addr = Inr (is @ [i\<lparr>if_addr := take 6 addr\<rparr>])"
  by (simp add: sr_set_ether_addr_def slice_def)

lemma sr_set_ether_ip_snoc: "sr_set_ether_ip (is @ [i]) ip = Inr (is @ [i\<lparr>if_ip := ip\<rparr>])"
  by (simp add: sr_set_ether_ip_def)

text \<open>No operation disturbs the interfaces announced before the last one.\<close>

lemma add_interface_lookup_old:
  "sr_get_interface is n = Some i \<Longrightarrow> sr_get_interface (sr_add_interface junk is name) n = Some i"
  by (simp add: sr_add_interface_def if_name.lookup_append)

lemma wf_add_interface:
  "wf_if junk \<Longrightarrow> \<forall>i \<in> set is. wf_if i \<Longrightarrow> \<forall>i \<in> set (sr_add_interface junk is name). wf_if i"
  by (auto simp: sr_add_interface_def wf_if_def)

lemma wf_set_ether_addr:
  "\<forall>i \<in> set is. wf_if i \<Longrightarrow> sr_set_ether_addr is addr = Inr is' \<Longrightarrow> \<forall>i \<in> set is'. wf_if i"
  by (cases "is" rule: rev_cases)
     (auto simp: sr_set_ether_addr_def bindE_eq_Inr load_eq_Inr wf_if_def ETHER_ADDR_LEN_def
       length_simps)

lemma wf_set_ether_ip:
  "\<forall>i \<in> set is. wf_if i \<Longrightarrow> sr_set_ether_ip is ip = Inr is' \<Longrightarrow> \<forall>i \<in> set is'. wf_if i"
  by (cases "is" rule: rev_cases) (auto simp: sr_set_ether_ip_def wf_if_def)

end
