(* ===== verification/Routing.thy ===== *)
theory Routing
  imports Interface
begin

text \<open>
  The routing table of \<^verbatim>\<open>sr_rt.c\<close> and the check of \<^verbatim>\<open>sr_main.c\<close> that its interfaces exist.
  \<open>longest_prefix_matching\<close> is characterised completely (which entry it returns, and when it
  returns none), first in terms of the mask values the code compares, then, for tables of
  contiguous masks, in terms of prefix lengths.
\<close>

record sr_rt =
  dest :: u32
  gw :: u32
  mask_addr :: u32
  rt_interface :: bytes

section \<open>The code\<close>

text \<open>The loop, with \<^verbatim>\<open>longest_prefix_match\<close> and \<^verbatim>\<open>longest_mask\<close> (kept in network order).\<close>

fun lpm_loop :: "u32 \<Rightarrow> sr_rt list \<Rightarrow> sr_rt option \<Rightarrow> u32 \<Rightarrow> sr_rt option" where
  "lpm_loop ip [] best longest_mask = best"
| "lpm_loop ip (e # es) best longest_mask =
     (let dest_ip = ntohl (dest e);
          m = ntohl (mask_addr e);
          host_ip = ntohl ip
      in if host_ip AND m = dest_ip AND m \<and> m > ntohl longest_mask
         then lpm_loop ip es (Some e) (mask_addr e)
         else lpm_loop ip es best longest_mask)"

definition longest_prefix_matching :: "sr_rt list \<Rightarrow> u32 \<Rightarrow> sr_rt option" where
  "longest_prefix_matching rt ip = lpm_loop ip rt None 0"

text \<open>\<^verbatim>\<open>sr_add_rt_entry\<close> appends at the end in both of its branches.\<close>

definition sr_add_rt_entry :: "sr_rt list \<Rightarrow> u32 \<Rightarrow> u32 \<Rightarrow> u32 \<Rightarrow> bytes \<Rightarrow> sr_rt list" where
  "sr_add_rt_entry rt d g m iface =
     rt @ [\<lparr>dest = d, gw = g, mask_addr = m, rt_interface = strncpy sr_IFACE_NAMELEN iface\<rparr>]"

text \<open>
  \<^verbatim>\<open>sr_verify_routing_table\<close>: 999 when a list is empty, otherwise the number of routes through an
  interface that does not exist.
\<close>

fun rt_missing :: "sr_if list \<Rightarrow> sr_rt list \<Rightarrow> int \<Rightarrow> int" where
  "rt_missing is [] ret = ret"
| "rt_missing is (e # es) ret =
     rt_missing is es
       (if sr_get_interface is (rt_interface e) = None then ret + 1 else ret)"

definition sr_verify_routing_table :: "sr_if list \<Rightarrow> sr_rt list \<Rightarrow> int" where
  "sr_verify_routing_table is rt = (if is = [] \<or> rt = [] then 999 else rt_missing is rt 0)"

section \<open>What the lookup returns\<close>

definition rt_mask :: "sr_rt \<Rightarrow> u32" where
  "rt_mask e = ntohl (mask_addr e)"

definition rt_matches :: "u32 \<Rightarrow> sr_rt \<Rightarrow> bool" where
  "rt_matches ip e \<longleftrightarrow> ntohl ip AND rt_mask e = ntohl (dest e) AND rt_mask e"

text \<open>
  \<open>lpm_best\<close>: \<open>e\<close> is the first of the matching entries with the greatest mask, and that mask is
  not zero.
\<close>

definition lpm_best :: "sr_rt list \<Rightarrow> u32 \<Rightarrow> sr_rt \<Rightarrow> bool" where
  "lpm_best rt ip e \<longleftrightarrow> (\<exists>pre post. rt = pre @ e # post \<and> rt_matches ip e \<and> 0 < rt_mask e
     \<and> (\<forall>x \<in> set pre. rt_matches ip x \<longrightarrow> rt_mask x < rt_mask e)
     \<and> (\<forall>x \<in> set post. rt_matches ip x \<longrightarrow> rt_mask x \<le> rt_mask e))"

lemma lpm_loop_Cons:
  "lpm_loop ip (e # es) best m =
     (if rt_matches ip e \<and> rt_mask e > ntohl m then lpm_loop ip es (Some e) (mask_addr e)
      else lpm_loop ip es best m)"
  by (simp add: rt_matches_def rt_mask_def Let_def)

declare lpm_loop.simps(2) [simp del]

text \<open>The loop keeps its best entry unless a later one beats it.\<close>

lemma lpm_loop_keep:
  "(\<forall>x \<in> set es. rt_matches ip x \<longrightarrow> rt_mask x \<le> ntohl m) \<Longrightarrow> lpm_loop ip es best m = best"
  by (induction es) (auto simp: lpm_loop_Cons)

lemma lpm_loop_improves:
  assumes "\<exists>x \<in> set es. rt_matches ip x \<and> ntohl m < rt_mask x"
  shows "\<exists>e pre post. lpm_loop ip es best m = Some e \<and> es = pre @ e # post \<and> rt_matches ip e
     \<and> ntohl m < rt_mask e \<and> (\<forall>x \<in> set pre. rt_matches ip x \<longrightarrow> rt_mask x < rt_mask e)
     \<and> (\<forall>x \<in> set post. rt_matches ip x \<longrightarrow> rt_mask x \<le> rt_mask e)"
  using assms
proof (induction es arbitrary: best m)
  case Nil
  then show ?case
    by simp
next
  case (Cons a es)
  show ?case
  proof (cases "rt_matches ip a \<and> ntohl m < rt_mask a")
    case better: True
    show ?thesis
    proof (cases "\<exists>x \<in> set es. rt_matches ip x \<and> ntohl (mask_addr a) < rt_mask x")
      case True
      from Cons.IH [OF True, of "Some a"] obtain e pre post where
        e: "lpm_loop ip es (Some a) (mask_addr a) = Some e" "es = pre @ e # post"
          "rt_matches ip e" "ntohl (mask_addr a) < rt_mask e"
          "\<forall>x \<in> set pre. rt_matches ip x \<longrightarrow> rt_mask x < rt_mask e"
          "\<forall>x \<in> set post. rt_matches ip x \<longrightarrow> rt_mask x \<le> rt_mask e"
        by blast
      then have "ntohl m < rt_mask e" "rt_mask a < rt_mask e"
        using better by (auto simp: rt_mask_def)
      with e better show ?thesis
        by (intro exI [of _ e] exI [of _ "a # pre"] exI [of _ post]) (auto simp: lpm_loop_Cons)
    next
      case False
      then have "\<forall>x \<in> set es. rt_matches ip x \<longrightarrow> rt_mask x \<le> rt_mask a"
        by (auto simp: rt_mask_def not_less)
      moreover from this have "lpm_loop ip es (Some a) (mask_addr a) = Some a"
        by (intro lpm_loop_keep) (simp add: rt_mask_def)
      ultimately show ?thesis
        using better by (intro exI [of _ a] exI [of _ "[]"] exI [of _ es]) (simp add: lpm_loop_Cons)
    qed
  next
    case False
    with Cons.prems have ex: "\<exists>x \<in> set es. rt_matches ip x \<and> ntohl m < rt_mask x"
      by auto
    from Cons.IH [OF ex, of best] obtain e pre post where
      e: "lpm_loop ip es best m = Some e" "es = pre @ e # post" "rt_matches ip e" "ntohl m < rt_mask e"
        "\<forall>x \<in> set pre. rt_matches ip x \<longrightarrow> rt_mask x < rt_mask e"
        "\<forall>x \<in> set post. rt_matches ip x \<longrightarrow> rt_mask x \<le> rt_mask e"
      by blast
    with False show ?thesis
      by (intro exI [of _ e] exI [of _ "a # pre"] exI [of _ post]) (auto simp: lpm_loop_Cons)
  qed
qed

lemma ntohl_0 [simp]: "ntohl 0 = 0"
  by (simp add: htonl_def le32_def)

lemma lpm_None_iff:
  "longest_prefix_matching rt ip = None \<longleftrightarrow> (\<forall>e \<in> set rt. rt_matches ip e \<longrightarrow> rt_mask e = 0)"
proof
  assume none: "longest_prefix_matching rt ip = None"
  show "\<forall>e \<in> set rt. rt_matches ip e \<longrightarrow> rt_mask e = 0"
  proof (rule ccontr)
    assume "\<not> ?thesis"
    then have "\<exists>x \<in> set rt. rt_matches ip x \<and> ntohl 0 < rt_mask x"
      by (auto simp: word_neq_0_conv)
    from lpm_loop_improves [OF this, of None] none show False
      by (auto simp: longest_prefix_matching_def)
  qed
next
  assume "\<forall>e \<in> set rt. rt_matches ip e \<longrightarrow> rt_mask e = 0"
  then show "longest_prefix_matching rt ip = None"
    unfolding longest_prefix_matching_def by (intro lpm_loop_keep) simp
qed

lemma lpm_best_unique: "lpm_best rt ip e \<Longrightarrow> lpm_best rt ip e' \<Longrightarrow> e = e'"
  unfolding lpm_best_def
  by (elim exE conjE) (auto simp: append_eq_append_conv2 Cons_eq_append_conv append_eq_Cons_conv)

lemma lpm_Some_iff: "longest_prefix_matching rt ip = Some e \<longleftrightarrow> lpm_best rt ip e"
proof -
  have found: "\<exists>e. longest_prefix_matching rt ip = Some e \<and> lpm_best rt ip e"
    if ex: "\<exists>x \<in> set rt. rt_matches ip x \<and> ntohl 0 < rt_mask x"
    using lpm_loop_improves [OF ex, of None]
    unfolding longest_prefix_matching_def lpm_best_def by auto
  show ?thesis
  proof
    assume some: "longest_prefix_matching rt ip = Some e"
    then have "\<exists>x \<in> set rt. rt_matches ip x \<and> ntohl 0 < rt_mask x"
      using lpm_None_iff [of rt ip] by (auto simp: word_neq_0_conv)
    from found [OF this] some show "lpm_best rt ip e"
      by auto
  next
    assume best: "lpm_best rt ip e"
    then have "\<exists>x \<in> set rt. rt_matches ip x \<and> ntohl 0 < rt_mask x"
      unfolding lpm_best_def by auto
    from found [OF this] best show "longest_prefix_matching rt ip = Some e"
      using lpm_best_unique by blast
  qed
qed

lemma lpm_in_set: "longest_prefix_matching rt ip = Some e \<Longrightarrow> e \<in> set rt"
  by (auto simp: lpm_Some_iff lpm_best_def)

lemma lpm_matches: "longest_prefix_matching rt ip = Some e \<Longrightarrow> rt_matches ip e"
  by (auto simp: lpm_Some_iff lpm_best_def)

section \<open>Tables of contiguous masks\<close>

text \<open>The mask of a prefix length, and a table whose masks all are such masks.\<close>

definition prefix_mask :: "nat \<Rightarrow> u32" where
  "prefix_mask n = NOT (mask (32 - n))"

definition contiguous :: "sr_rt list \<Rightarrow> (sr_rt \<Rightarrow> nat) \<Rightarrow> bool" where
  "contiguous rt plen \<longleftrightarrow> (\<forall>e \<in> set rt. plen e \<le> 32 \<and> rt_mask e = prefix_mask (plen e))"

lemma unat_word_of_nat_u32: "k < 2 ^ 32 \<Longrightarrow> unat (word_of_nat k :: u32) = k"
  by (simp add: unat_of_nat take_bit_nat_eq_self)

lemma unat_prefix_mask:
  assumes "n \<le> 32"
  shows "unat (prefix_mask n) = 2 ^ 32 - 2 ^ (32 - n)"
proof -
  have "(mask (32 - n) :: u32) = word_of_nat (2 ^ (32 - n) - 1)"
    by (simp add: mask_eq_exp_minus_1 of_nat_diff)
  moreover have "(2 :: nat) ^ (32 - n) \<le> 2 ^ 32"
    by (rule power_increasing) simp_all
  then have "(2 :: nat) ^ (32 - n) - 1 < 2 ^ 32"
    using zero_less_power [of "2 :: nat" "32 - n"] by linarith
  then have "unat (word_of_nat (2 ^ (32 - n) - 1) :: u32) = 2 ^ (32 - n) - 1"
    by (rule unat_word_of_nat_u32)
  ultimately have "unat (mask (32 - n) :: u32) = 2 ^ (32 - n) - 1"
    by simp
  then show ?thesis
    by (simp add: prefix_mask_def unat_not_u32)
qed

lemma prefix_mask_mono:
  assumes "m \<le> 32" "n \<le> 32"
  shows "prefix_mask m \<le> prefix_mask n \<longleftrightarrow> m \<le> n"
proof -
  have "(2 :: nat) ^ (32 - m) \<le> 2 ^ 32" "(2 :: nat) ^ (32 - n) \<le> 2 ^ 32"
    by (rule power_increasing; simp)+
  then have "prefix_mask m \<le> prefix_mask n \<longleftrightarrow> (2 :: nat) ^ (32 - n) \<le> 2 ^ (32 - m)"
    unfolding word_le_nat_alt unat_prefix_mask [OF assms(1)] unat_prefix_mask [OF assms(2)]
    by (rule le_diff_iff')
  also have "\<dots> \<longleftrightarrow> m \<le> n"
    using assms by auto
  finally show ?thesis .
qed

lemma prefix_mask_0 [simp]: "prefix_mask 0 = 0"
  by (simp add: prefix_mask_def not_eq_complement mask_eq_exp_minus_1)

lemma prefix_mask_pos: "n \<le> 32 \<Longrightarrow> 0 < prefix_mask n \<longleftrightarrow> 0 < n"
  by (metis prefix_mask_0 prefix_mask_mono gr_zeroI leD le0 le_zero_eq not_le word_zero_le)

text \<open>Comparing under a prefix mask is comparing the first \<open>n\<close> bits.\<close>

lemma and_prefix_mask_eq:
  assumes "n \<le> 32"
  shows "a AND prefix_mask n = b AND prefix_mask n \<longleftrightarrow> drop_bit (32 - n) a = drop_bit (32 - n) b"
proof
  assume eq: "a AND prefix_mask n = b AND prefix_mask n"
  show "drop_bit (32 - n) a = drop_bit (32 - n) b"
  proof (rule bit_word_eqI)
    fix k :: nat
    assume "k < LENGTH(32)"
    have "bit (a AND prefix_mask n) (32 - n + k) = bit (b AND prefix_mask n) (32 - n + k)"
      by (simp add: eq)
    then show "bit (drop_bit (32 - n) a) k = bit (drop_bit (32 - n) b) k"
      by (auto simp: bit_simps prefix_mask_def dest: bit_imp_le_length)
  qed
next
  assume eq: "drop_bit (32 - n) a = drop_bit (32 - n) b"
  show "a AND prefix_mask n = b AND prefix_mask n"
  proof (rule bit_word_eqI)
    fix k :: nat
    assume "k < LENGTH(32)"
    have "bit (drop_bit (32 - n) a) (k - (32 - n)) = bit (drop_bit (32 - n) b) (k - (32 - n))"
      by (simp add: eq)
    then show "bit (a AND prefix_mask n) k = bit (b AND prefix_mask n) k"
      by (auto simp: bit_simps prefix_mask_def)
  qed
qed

lemma rt_matches_prefix:
  "contiguous rt plen \<Longrightarrow> e \<in> set rt \<Longrightarrow>
   rt_matches ip e \<longleftrightarrow> drop_bit (32 - plen e) (ntohl ip) = drop_bit (32 - plen e) (ntohl (dest e))"
  by (simp add: contiguous_def rt_matches_def and_prefix_mask_eq)

lemma rt_mask_plen:
  "contiguous rt plen \<Longrightarrow> e \<in> set rt \<Longrightarrow> x \<in> set rt \<Longrightarrow> rt_mask x \<le> rt_mask e \<longleftrightarrow> plen x \<le> plen e"
  by (simp add: contiguous_def prefix_mask_mono)

lemma lpm_longest:
  assumes "contiguous rt plen" "longest_prefix_matching rt ip = Some e" "x \<in> set rt" "rt_matches ip x"
  shows "plen x \<le> plen e"
proof -
  obtain pre post where "rt = pre @ e # post"
    "\<forall>y \<in> set pre. rt_matches ip y \<longrightarrow> rt_mask y < rt_mask e"
    "\<forall>y \<in> set post. rt_matches ip y \<longrightarrow> rt_mask y \<le> rt_mask e"
    using assms(2) unfolding lpm_Some_iff lpm_best_def by blast
  with assms(3,4) have "rt_mask x \<le> rt_mask e"
    by (metis Un_iff less_imp_le order_refl set_ConsD set_append)
  then show ?thesis
    using rt_mask_plen [OF assms(1) lpm_in_set [OF assms(2)] assms(3)] by simp
qed

lemma prefix_match_rt:
  "contiguous rt plen \<Longrightarrow> e \<in> set rt \<Longrightarrow>
   drop_bit (32 - plen e) (ntohl ip) = drop_bit (32 - plen e) (ntohl (dest e)) \<Longrightarrow> rt_matches ip e"
  using rt_matches_prefix by blast

lemma contiguous_mask_0:
  assumes "contiguous rt plen" "e \<in> set rt"
  shows "rt_mask e = 0 \<longleftrightarrow> plen e = 0"
proof -
  have "rt_mask e = prefix_mask (plen e)" "plen e \<le> 32"
    using assms unfolding contiguous_def by blast+
  then show ?thesis
    using prefix_mask_pos [of "plen e"] by (metis neq0_conv word_gt_0)
qed

lemma lpm_None_prefix:
  assumes "contiguous rt plen" "longest_prefix_matching rt ip = None" "x \<in> set rt" "rt_matches ip x"
  shows "plen x = 0"
  using assms contiguous_mask_0 lpm_None_iff by blast

lemma lpm_Some_prefix:
  assumes "contiguous rt plen" "longest_prefix_matching rt ip = Some e"
  shows "e \<in> set rt" "0 < plen e"
    "drop_bit (32 - plen e) (ntohl ip) = drop_bit (32 - plen e) (ntohl (dest e))"
proof -
  show e: "e \<in> set rt"
    using assms(2) by (rule lpm_in_set)
  have "lpm_best rt ip e"
    using assms(2) by (simp only: lpm_Some_iff)
  then have "rt_mask e \<noteq> 0"
    unfolding lpm_best_def by (metis word_gt_0)
  then show "0 < plen e"
    using contiguous_mask_0 [OF assms(1) e] by blast
  show "drop_bit (32 - plen e) (ntohl ip) = drop_bit (32 - plen e) (ntohl (dest e))"
    using rt_matches_prefix [OF assms(1) e] lpm_matches [OF assms(2)] by blast
qed

section \<open>Verification against the interface list\<close>

lemma rt_missing_acc: "rt_missing is es ret = ret + rt_missing is es 0"
proof (induction es arbitrary: ret)
  case (Cons e es)
  show ?case
    using Cons.IH [of "ret + 1"] Cons.IH [of 1] Cons.IH [of ret] by simp
qed simp

lemma rt_missing_nonneg: "0 \<le> rt_missing is es 0"
proof (induction es)
  case (Cons e es)
  then show ?case
    using rt_missing_acc [of "is" es 1] by simp
qed simp

lemma rt_missing_0: "rt_missing is es 0 = 0 \<longleftrightarrow> (\<forall>e \<in> set es. sr_get_interface is (rt_interface e) \<noteq> None)"
proof (induction es)
  case (Cons e es)
  then show ?case
    using rt_missing_acc [of "is" es 1] rt_missing_nonneg [of "is" es] by auto
qed simp

lemma rt_missing_count:
  "rt_missing is es 0 = int (length (filter (\<lambda>e. sr_get_interface is (rt_interface e) = None) es))"
proof (induction es)
  case (Cons e es)
  then show ?case
    using rt_missing_acc [of "is" es 1] by simp
qed simp

text \<open>After a successful check, every route the lookup can return has its interface.\<close>

definition routes_ok :: "sr_if list \<Rightarrow> sr_rt list \<Rightarrow> bool" where
  "routes_ok is rt \<longleftrightarrow> (\<forall>e \<in> set rt. sr_get_interface is (rt_interface e) \<noteq> None)"

lemma verify_0_iff:
  "sr_verify_routing_table is rt = 0 \<longleftrightarrow> is \<noteq> [] \<and> rt \<noteq> [] \<and> routes_ok is rt"
  by (simp add: sr_verify_routing_table_def rt_missing_0 routes_ok_def)

lemma routes_ok_interface:
  "routes_ok is rt \<Longrightarrow> longest_prefix_matching rt ip = Some e \<Longrightarrow>
   \<exists>i. sr_get_interface is (rt_interface e) = Some i \<and> i \<in> set is"
  by (metis lpm_in_set if_name.lookup_in_set not_None_eq routes_ok_def)

end
