(* ===== verification/Arp_Cache.thy ===== *)
theory Arp_Cache
  imports Protocol List_Walk
begin

text \<open>
  The ARP cache and its request queue, \<^verbatim>\<open>sr_arpcache.c\<close>.  The entries are the fixed array of
  \<^verbatim>\<open>SR_ARPCACHE_SZ\<close> slots; the requests are the linked list from \<^verbatim>\<open>cache->requests\<close>.  A request node
  carries the address \<open>rq_ptr\<close> it was allocated at, so that the code's comparisons and updates
  through a \<^verbatim>\<open>struct sr_arpreq *\<close> are comparisons and updates by that address; \<open>next_ptr\<close> is the
  address the next \<^verbatim>\<open>calloc\<close> returns.  The mutex is not part of the state: each operation runs as
  one step, as the lock makes it.

  The locale \<open>arp_table\<close> is what the router relies on: a map from addresses to MACs and a map from
  addresses to waiting packets, with the effect of each operation on both.  The cache of the code
  interprets it.
\<close>

definition SR_ARPCACHE_SZ :: nat where "SR_ARPCACHE_SZ = 100"
definition SR_ARPCACHE_TO :: int where "SR_ARPCACHE_TO = 15"

record sr_packet =
  pk_buf :: bytes
  pk_len :: nat
  pk_iface :: bytes

record sr_arpentry =
  en_mac :: bytes
  en_ip :: u32
  en_added :: int
  en_valid :: int

record sr_arpreq =
  rq_ptr :: nat
  rq_ip :: u32
  rq_sent :: int
  rq_times_sent :: u32
  rq_packets :: "sr_packet list"

record sr_arpcache =
  entries :: "sr_arpentry list"
  requests :: "sr_arpreq list"
  next_ptr :: nat

section \<open>The operations\<close>

text \<open>\<^verbatim>\<open>memset\<close> to zero invalidates every slot.\<close>

definition zero_entry :: sr_arpentry where
  "zero_entry = \<lparr>en_mac = replicate 6 0, en_ip = 0, en_added = 0, en_valid = 0\<rparr>"

definition sr_arpcache_init :: "sr_arpcache \<Rightarrow> sr_arpcache" where
  "sr_arpcache_init c = c\<lparr>entries := replicate SR_ARPCACHE_SZ zero_entry, requests := []\<rparr>"

text \<open>The loop of \<^verbatim>\<open>sr_arpcache_lookup\<close> has no \<^verbatim>\<open>break\<close>: the last match is returned.\<close>

fun lookup_loop :: "sr_arpentry list \<Rightarrow> u32 \<Rightarrow> sr_arpentry option \<Rightarrow> sr_arpentry option" where
  "lookup_loop [] ip entry = entry"
| "lookup_loop (e # es) ip entry =
     lookup_loop es ip (if en_valid e \<noteq> 0 \<and> en_ip e = ip then Some e else entry)"

definition sr_arpcache_lookup :: "sr_arpcache \<Rightarrow> u32 \<Rightarrow> sr_arpentry option" where
  "sr_arpcache_lookup c ip = lookup_loop (entries c) ip None"

text \<open>Walks over the request list, by IP address and by node address.\<close>

fun find_req :: "sr_arpreq list \<Rightarrow> u32 \<Rightarrow> sr_arpreq option" where
  "find_req [] ip = None"
| "find_req (r # rs) ip = (if rq_ip r = ip then Some r else find_req rs ip)"

fun deref_req :: "sr_arpreq list \<Rightarrow> nat \<Rightarrow> sr_arpreq option" where
  "deref_req [] p = None"
| "deref_req (r # rs) p = (if rq_ptr r = p then Some r else deref_req rs p)"

interpretation req_ip: keyed_match find_req rq_ip
  by unfold_locales simp_all

interpretation req_ptr: keyed_match deref_req rq_ptr
  by unfold_locales simp_all

text \<open>A write through a request pointer, and the unlinking of the first node that passes a test.\<close>

definition update_req :: "nat \<Rightarrow> (sr_arpreq \<Rightarrow> sr_arpreq) \<Rightarrow> sr_arpcache \<Rightarrow> sr_arpcache" where
  "update_req p f c = c\<lparr>requests := map (\<lambda>r. if rq_ptr r = p then f r else r) (requests c)\<rparr>"

fun unlink_req :: "(sr_arpreq \<Rightarrow> bool) \<Rightarrow> sr_arpreq list \<Rightarrow> sr_arpreq list" where
  "unlink_req test [] = []"
| "unlink_req test (r # rs) = (if test r then rs else r # unlink_req test rs)"

text \<open>
  \<^verbatim>\<open>sr_arpcache_queuereq\<close>: find the request or push a new one at the head, then push a copy of the
  packet (when its length is not zero) at the head of its packets; the result is the request's
  address.
\<close>

definition new_req :: "nat \<Rightarrow> u32 \<Rightarrow> sr_arpreq" where
  "new_req p ip = \<lparr>rq_ptr = p, rq_ip = ip, rq_sent = 0, rq_times_sent = 0, rq_packets = []\<rparr>"

definition find_or_add_req :: "sr_arpcache \<Rightarrow> u32 \<Rightarrow> sr_arpcache \<times> nat" where
  "find_or_add_req c ip =
     (case find_req (requests c) ip of
        Some r \<Rightarrow> (c, rq_ptr r)
      | None \<Rightarrow> (c\<lparr>requests := new_req (next_ptr c) ip # requests c,
                   next_ptr := Suc (next_ptr c)\<rparr>, next_ptr c))"

definition push_packet :: "sr_packet \<Rightarrow> sr_arpreq \<Rightarrow> sr_arpreq" where
  "push_packet pkt r = r\<lparr>rq_packets := pkt # rq_packets r\<rparr>"

definition sr_arpcache_queuereq ::
    "sr_arpcache \<Rightarrow> u32 \<Rightarrow> bytes \<Rightarrow> nat \<Rightarrow> bytes \<Rightarrow> (sr_arpcache \<times> nat) res" where
  "sr_arpcache_queuereq c ip packet packet_len iface =
     (case find_or_add_req c ip of (c', req) \<Rightarrow>
        if packet_len \<noteq> 0
        then bindE (load packet 0 packet_len) (\<lambda>b.
          Inr (update_req req (push_packet
                 \<lparr>pk_buf = b, pk_len = packet_len, pk_iface = strncpy sr_IFACE_NAMELEN iface\<rparr>) c',
               req))
        else Inr (c', req))"

text \<open>
  \<^verbatim>\<open>sr_arpcache_insert\<close>: unlink the request for the address and return it, and store the mapping in
  the first invalid slot, if there is one.
\<close>

fun fill_slot :: "sr_arpentry \<Rightarrow> sr_arpentry list \<Rightarrow> sr_arpentry list" where
  "fill_slot new [] = []"
| "fill_slot new (e # es) = (if en_valid e = 0 then new # es else e # fill_slot new es)"

definition sr_arpcache_insert ::
    "sr_arpcache \<Rightarrow> bytes \<Rightarrow> u32 \<Rightarrow> int \<Rightarrow> sr_arpcache \<times> sr_arpreq option" where
  "sr_arpcache_insert c mac ip now =
     (c\<lparr>requests := unlink_req (\<lambda>r. rq_ip r = ip) (requests c),
        entries := fill_slot \<lparr>en_mac = take 6 mac, en_ip = ip, en_added = now, en_valid = 1\<rparr>
                     (entries c)\<rparr>,
      find_req (requests c) ip)"

text \<open>\<^verbatim>\<open>sr_arpreq_destroy\<close>: unlink the node if it is on the queue, then free it.\<close>

definition sr_arpreq_destroy :: "sr_arpcache \<Rightarrow> nat \<Rightarrow> sr_arpcache" where
  "sr_arpreq_destroy c p = c\<lparr>requests := unlink_req (\<lambda>r. rq_ptr r = p) (requests c)\<rparr>"

text \<open>The part of \<^verbatim>\<open>sr_arpcache_timeout\<close>'s loop body that ages the entries.\<close>

definition expire_entry :: "int \<Rightarrow> sr_arpentry \<Rightarrow> sr_arpentry" where
  "expire_entry curtime e =
     (if en_valid e \<noteq> 0 \<and> curtime - en_added e > SR_ARPCACHE_TO then e\<lparr>en_valid := 0\<rparr> else e)"

definition expire_entries :: "sr_arpcache \<Rightarrow> int \<Rightarrow> sr_arpcache" where
  "expire_entries c curtime = c\<lparr>entries := map (expire_entry curtime) (entries c)\<rparr>"

section \<open>The invariant\<close>

text \<open>
  The lengths of frames that are queued: an Ethernet header fits, and the length is the same as an
  \<^verbatim>\<open>int\<close>.
\<close>

definition frame_len :: "nat \<Rightarrow> bool" where
  "frame_len n \<longleftrightarrow> sizeof_eth \<le> n \<and> n < 2 ^ 31"

lemma frame_len_pos [simp]: "frame_len n \<Longrightarrow> 0 < n"
  by (simp add: frame_len_def sizeof_eth_def)

definition wf_packet :: "sr_packet \<Rightarrow> bool" where
  "wf_packet p \<longleftrightarrow> pk_len p = length (pk_buf p) \<and> frame_len (pk_len p)
     \<and> length (pk_iface p) = sr_IFACE_NAMELEN"

definition wf_req :: "nat \<Rightarrow> sr_arpreq \<Rightarrow> bool" where
  "wf_req np r \<longleftrightarrow> rq_ptr r < np \<and> rq_packets r \<noteq> [] \<and> (\<forall>p \<in> set (rq_packets r). wf_packet p)"

definition arp_inv :: "sr_arpcache \<Rightarrow> bool" where
  "arp_inv c \<longleftrightarrow> length (entries c) = SR_ARPCACHE_SZ
     \<and> (\<forall>e \<in> set (entries c). length (en_mac e) = 6)
     \<and> distinct (map rq_ip (requests c)) \<and> distinct (map rq_ptr (requests c))
     \<and> (\<forall>r \<in> set (requests c). wf_req (next_ptr c) r)"

text \<open>How often requests have been sent, which the operations other than a retry leave alone.\<close>

definition tries_upto :: "u32 \<Rightarrow> sr_arpcache \<Rightarrow> bool" where
  "tries_upto k c \<longleftrightarrow> (\<forall>r \<in> set (requests c). rq_times_sent r \<le> k)"

lemma arp_invD:
  assumes "arp_inv c"
  shows "length (entries c) = SR_ARPCACHE_SZ" "\<forall>e \<in> set (entries c). length (en_mac e) = 6"
    "distinct (map rq_ip (requests c))" "distinct (map rq_ptr (requests c))"
    "\<And>r. r \<in> set (requests c) \<Longrightarrow> wf_req (next_ptr c) r"
  using assms by (auto simp: arp_inv_def)

lemma fresh_ptr: "arp_inv c \<Longrightarrow> r \<in> set (requests c) \<Longrightarrow> rq_ptr r \<noteq> next_ptr c"
  using arp_invD(5) by (fastforce simp: wf_req_def)

subsection \<open>Lists of requests\<close>

lemma set_unlink_req: "set (unlink_req t rs) \<subseteq> set rs"
  by (induction rs) auto

lemma tries_unlink [simp]: "tries_upto k c \<Longrightarrow> tries_upto k (c\<lparr>requests := unlink_req t (requests c)\<rparr>)"
  using set_unlink_req by (fastforce simp: tries_upto_def)

lemma tries_destroy: "tries_upto k c \<Longrightarrow> tries_upto k (sr_arpreq_destroy c p)"
  by (simp add: sr_arpreq_destroy_def)

lemma tries_insert: "sr_arpcache_insert c mac ip now = (c', r) \<Longrightarrow> tries_upto k c \<Longrightarrow> tries_upto k c'"
  using set_unlink_req by (fastforce simp: sr_arpcache_insert_def tries_upto_def)

lemma tries_expire: "tries_upto k (expire_entries c t) = tries_upto k c"
  by (simp add: expire_entries_def tries_upto_def)

lemma tries_update:
  "tries_upto k c \<Longrightarrow> (\<And>r. r \<in> set (requests c) \<Longrightarrow> rq_ptr r = p \<Longrightarrow> rq_times_sent (f r) \<le> k) \<Longrightarrow>
   tries_upto k (update_req p f c)"
  by (auto simp: tries_upto_def update_req_def)

lemma tries_init: "tries_upto k (sr_arpcache_init c)"
  by (simp add: tries_upto_def sr_arpcache_init_def)

lemma tries_queue:
  assumes "sr_arpcache_queuereq c ip packet len iface = Inr (c', p)" "tries_upto k c"
  shows "tries_upto k c'"
proof -
  obtain c1 q where c1: "find_or_add_req c ip = (c1, q)"
    by fastforce
  then have "tries_upto k c1"
    using assms(2) by (auto simp: find_or_add_req_def tries_upto_def new_req_def split: option.splits)
  then have "tries_upto k (update_req q (push_packet pkt) c1)" for pkt
    by (intro tries_update) (simp_all add: tries_upto_def push_packet_def)
  with \<open>tries_upto k c1\<close> c1 assms(1) show ?thesis
    by (auto simp: sr_arpcache_queuereq_def bindE_eq_Inr split: if_splits)
qed

lemma distinct_unlink_req: "distinct (map f rs) \<Longrightarrow> distinct (map f (unlink_req t rs))"
proof (induction rs)
  case (Cons r rs)
  then show ?case
    using set_unlink_req [of t rs] by auto
qed simp

lemma unlink_req_key:
  "distinct (map f rs) \<Longrightarrow> unlink_req (\<lambda>r. f r = k) rs = filter (\<lambda>r. f r \<noteq> k) rs"
  by (induction rs) (auto intro!: filter_True [symmetric] simp: image_iff)

lemma unlink_req_absent: "\<forall>r \<in> set rs. \<not> t r \<Longrightarrow> unlink_req t rs = rs"
  by (induction rs) auto

lemma length_fill_slot [simp]: "length (fill_slot n es) = length es"
  by (induction es) auto

lemma set_fill_slot: "set (fill_slot n es) \<subseteq> insert n (set es)"
  by (induction es) auto

lemma fill_slot_full: "\<forall>e \<in> set es. en_valid e \<noteq> 0 \<Longrightarrow> fill_slot n es = es"
  by (induction es) auto

lemma update_req_simps [simp]:
  "entries (update_req p f c) = entries c" "next_ptr (update_req p f c) = next_ptr c"
  by (simp_all add: update_req_def)

lemma find_or_add_simps [simp]:
  "entries (fst (find_or_add_req c ip)) = entries c"
  by (simp add: find_or_add_req_def split: option.split)

subsection \<open>Preservation\<close>

lemma init_inv: "arp_inv (sr_arpcache_init c)"
  by (auto simp: arp_inv_def sr_arpcache_init_def zero_entry_def)

lemma expire_inv: "arp_inv c \<Longrightarrow> arp_inv (expire_entries c t)"
  by (auto simp: arp_inv_def expire_entries_def expire_entry_def)

lemma destroy_inv: "arp_inv c \<Longrightarrow> arp_inv (sr_arpreq_destroy c p)"
  using set_unlink_req
  by (fastforce simp: arp_inv_def sr_arpreq_destroy_def distinct_unlink_req)

lemma insert_inv:
  assumes "arp_inv c" "length mac = 6" "sr_arpcache_insert c mac ip now = (c', r)"
  shows "arp_inv c'"
proof -
  have "\<forall>e \<in> set (entries c'). length (en_mac e) = 6"
    using assms set_fill_slot by (fastforce simp: sr_arpcache_insert_def arp_inv_def)
  moreover have "\<forall>r \<in> set (requests c'). wf_req (next_ptr c') r"
    using assms set_unlink_req by (fastforce simp: sr_arpcache_insert_def arp_inv_def)
  ultimately show ?thesis
    using assms by (auto simp: sr_arpcache_insert_def arp_inv_def distinct_unlink_req)
qed

text \<open>
  Writing a field of a request keeps the invariant when the write keeps the node well formed and
  leaves its keys alone.
\<close>

lemma update_req_inv:
  assumes "arp_inv c" "\<And>r. rq_ip (f r) = rq_ip r" "\<And>r. rq_ptr (f r) = rq_ptr r"
    and "\<And>r. r \<in> set (requests c) \<Longrightarrow> rq_ptr r = p \<Longrightarrow> wf_req (next_ptr c) (f r)"
  shows "arp_inv (update_req p f c)"
proof -
  have keys: "map rq_ip (requests (update_req p f c)) = map rq_ip (requests c)"
    "map rq_ptr (requests (update_req p f c)) = map rq_ptr (requests c)"
    using assms(2,3) by (auto simp: update_req_def)
  show ?thesis
    using assms(1,4) unfolding arp_inv_def keys by (auto simp: update_req_def)
qed

lemma deref_map_update:
  "(\<And>r. rq_ptr (f r) = rq_ptr r) \<Longrightarrow>
   deref_req (map (\<lambda>r. if rq_ptr r = p then f r else r) rs) p = map_option f (deref_req rs p)"
  by (induction rs) auto

lemma deref_update_req:
  "(\<And>r. rq_ptr (f r) = rq_ptr r) \<Longrightarrow>
   deref_req (requests (update_req p f c)) p = map_option f (deref_req (requests c) p)"
  by (simp add: update_req_def deref_map_update)

lemma find_map_update:
  "(\<And>r. rq_ptr (f r) = rq_ptr r) \<Longrightarrow> (\<And>r. rq_ip (f r) = rq_ip r) \<Longrightarrow>
   find_req (map (\<lambda>r. if rq_ptr r = p then f r else r) rs) ip
   = map_option (\<lambda>r. if rq_ptr r = p then f r else r) (find_req rs ip)"
  by (induction rs) auto

text \<open>With distinct keys, the two walks meet at the same node.\<close>

lemma find_deref:
  "distinct (map rq_ptr rs) \<Longrightarrow> find_req rs ip = Some r \<Longrightarrow> deref_req rs (rq_ptr r) = Some r"
  by (metis req_ip.lookup_in_set req_ptr.lookup_distinct)

text \<open>The request \<open>queuereq\<close> works on, before the packet is pushed.\<close>

definition queue_target :: "sr_arpcache \<Rightarrow> u32 \<Rightarrow> sr_arpreq" where
  "queue_target c ip =
     (case find_req (requests c) ip of Some r \<Rightarrow> r | None \<Rightarrow> new_req (next_ptr c) ip)"

definition queued :: "bytes \<Rightarrow> nat \<Rightarrow> bytes \<Rightarrow> sr_packet" where
  "queued packet len iface =
     \<lparr>pk_buf = take len packet, pk_len = len, pk_iface = strncpy sr_IFACE_NAMELEN iface\<rparr>"

lemma wf_queued: "frame_len len \<Longrightarrow> len \<le> length packet \<Longrightarrow> wf_packet (queued packet len iface)"
  by (simp add: wf_packet_def queued_def)

text \<open>The requests after \<open>queuereq\<close>, as an explicit list.\<close>

lemma queuereq_requests:
  assumes "arp_inv c" "frame_len len" "len \<le> length packet"
    and "sr_arpcache_queuereq c ip packet len iface = Inr (c', p)"
  shows "p = rq_ptr (queue_target c ip)"
    and "requests c' = (case find_req (requests c) ip of
           Some r0 \<Rightarrow> map (\<lambda>r. if rq_ptr r = rq_ptr r0 then push_packet (queued packet len iface) r
                             else r) (requests c)
         | None \<Rightarrow> push_packet (queued packet len iface) (new_req (next_ptr c) ip) # requests c)"
    and "entries c' = entries c" and "next_ptr c \<le> next_ptr c'"
    and "find_req (requests c) ip = None \<Longrightarrow> next_ptr c' = Suc (next_ptr c)"
proof -
  have fresh: "map (\<lambda>r. if rq_ptr r = next_ptr c then f r else r) (requests c) = requests c" for f
    by (rule map_idI) (simp add: fresh_ptr [OF assms(1)])
  note defs = sr_arpcache_queuereq_def find_or_add_req_def queue_target_def update_req_def
    new_req_def queued_def slice_def
  show "p = rq_ptr (queue_target c ip)" "entries c' = entries c" "next_ptr c \<le> next_ptr c'"
    "find_req (requests c) ip = None \<Longrightarrow> next_ptr c' = Suc (next_ptr c)"
    using assms(2-4) by (auto simp: defs split: option.splits)
  show "requests c' = (case find_req (requests c) ip of
           Some r0 \<Rightarrow> map (\<lambda>r. if rq_ptr r = rq_ptr r0 then push_packet (queued packet len iface) r
                             else r) (requests c)
         | None \<Rightarrow> push_packet (queued packet len iface) (new_req (next_ptr c) ip) # requests c)"
    using assms(2-4) by (auto simp: defs fresh split: option.splits)
qed

lemma queuereq_total:
  "frame_len len \<Longrightarrow> len \<le> length packet \<Longrightarrow>
   \<exists>c' p. sr_arpcache_queuereq c ip packet len iface = Inr (c', p)"
  by (auto simp: sr_arpcache_queuereq_def split: prod.split)

lemma wf_push: "wf_req np r \<Longrightarrow> wf_packet q \<Longrightarrow> wf_req np (push_packet q r)"
  by (auto simp: wf_req_def push_packet_def)

lemma queuereq_inv:
  assumes "arp_inv c" "frame_len len" "len \<le> length packet"
    and q: "sr_arpcache_queuereq c ip packet len iface = Inr (c', p)"
  shows "arp_inv c'"
proof (cases "find_req (requests c) ip")
  case (Some r0)
  have "c' = update_req (rq_ptr r0) (push_packet (queued packet len iface)) c"
    using q Some assms(2,3)
    by (auto simp: sr_arpcache_queuereq_def find_or_add_req_def queued_def slice_def)
  then show ?thesis
    using assms(1-3)
    by (auto intro!: update_req_inv wf_push wf_queued dest: arp_invD(5) simp: push_packet_def)
next
  case None
  note rq = queuereq_requests [OF assms]
  from None rq(2,5) have r: "requests c' = push_packet (queued packet len iface)
      (new_req (next_ptr c) ip) # requests c" and np: "next_ptr c' = Suc (next_ptr c)"
    by simp_all
  have "wf_req (Suc (next_ptr c)) r" if "r \<in> set (requests c)" for r
    using arp_invD(5) [OF assms(1) that] by (auto simp: wf_req_def)
  moreover have "next_ptr c \<notin> rq_ptr ` set (requests c)"
    by (metis fresh_ptr [OF assms(1)] imageE)
  ultimately show ?thesis
    using assms(1) None wf_queued [OF assms(2,3)] unfolding arp_inv_def r np rq(3)
    by (auto simp: req_ip.lookup_None_keys push_packet_def new_req_def wf_req_def)
qed

text \<open>The returned pointer is live, and its node holds the packet at the head.\<close>

lemma queuereq_deref:
  assumes "arp_inv c" "frame_len len" "len \<le> length packet"
    and "sr_arpcache_queuereq c ip packet len iface = Inr (c', p)"
  shows "deref_req (requests c') p = Some (push_packet (queued packet len iface) (queue_target c ip))"
proof (cases "find_req (requests c) ip")
  case (Some r0)
  have "deref_req (requests c) (rq_ptr r0) = Some r0"
    using find_deref arp_invD(4) assms(1) Some by blast
  then show ?thesis
    using Some queuereq_requests(1,2) [OF assms]
    by (simp add: queue_target_def deref_map_update push_packet_def)
next
  case None
  then show ?thesis
    using queuereq_requests(1,2) [OF assms] by (simp add: queue_target_def push_packet_def new_req_def)
qed

section \<open>The maps the cache implements\<close>

definition cache_map :: "sr_arpcache \<Rightarrow> u32 \<Rightarrow> bytes option" where
  "cache_map c ip = map_option en_mac (sr_arpcache_lookup c ip)"

definition waiting :: "sr_arpcache \<Rightarrow> u32 \<Rightarrow> sr_packet list option" where
  "waiting c ip = map_option rq_packets (find_req (requests c) ip)"

definition has_room :: "sr_arpcache \<Rightarrow> bool" where
  "has_room c \<longleftrightarrow> (\<exists>e \<in> set (entries c). en_valid e = 0)"

definition entry_hit :: "u32 \<Rightarrow> sr_arpentry \<Rightarrow> bool" where
  "entry_hit ip e \<longleftrightarrow> en_valid e \<noteq> 0 \<and> en_ip e = ip"

lemma lookup_loop_last:
  "lookup_loop es ip acc =
     (if filter (entry_hit ip) es = [] then acc else Some (last (filter (entry_hit ip) es)))"
  by (induction es arbitrary: acc) (auto simp: entry_hit_def)

lemma lookup_Some_hit:
  assumes "sr_arpcache_lookup c ip = Some e"
  shows "e \<in> set (entries c) \<and> entry_hit ip e"
proof -
  have "filter (entry_hit ip) (entries c) \<noteq> []" "e = last (filter (entry_hit ip) (entries c))"
    using assms by (auto simp: sr_arpcache_lookup_def lookup_loop_last split: if_splits)
  then have "e \<in> set (filter (entry_hit ip) (entries c))"
    by (metis last_in_set)
  then show ?thesis
    by simp
qed

lemma arp_lookup_None_iff:
  "sr_arpcache_lookup c ip = None \<longleftrightarrow> (\<forall>e \<in> set (entries c). \<not> entry_hit ip e)"
  by (auto simp: sr_arpcache_lookup_def lookup_loop_last filter_empty_conv)

lemma lookup_mac_length: "arp_inv c \<Longrightarrow> sr_arpcache_lookup c ip = Some e \<Longrightarrow> length (en_mac e) = 6"
  using lookup_Some_hit arp_invD(2) by blast

text \<open>Filling a slot: other addresses see nothing of it, a new address is found at once.\<close>

lemma filter_fill_other: "en_ip n \<noteq> ip \<Longrightarrow> filter (entry_hit ip) (fill_slot n es) = filter (entry_hit ip) es"
  by (induction es) (auto simp: entry_hit_def)

lemma filter_fill_new:
  "\<forall>e \<in> set es. \<not> entry_hit ip e \<Longrightarrow> \<exists>e \<in> set es. en_valid e = 0 \<Longrightarrow> entry_hit ip n \<Longrightarrow>
   filter (entry_hit ip) (fill_slot n es) = [n]"
  by (induction es) (auto simp: entry_hit_def filter_empty_conv)

text \<open>A valid entry for the same address behind the first free slot hides the new entry.\<close>

lemma lookup_fill_stale:
  assumes "es = pre @ e # post" "\<forall>x \<in> set pre. en_valid x \<noteq> 0" "en_valid e = 0"
    and "filter (entry_hit (en_ip n)) post \<noteq> []"
  shows "lookup_loop (fill_slot n es) (en_ip n) None = lookup_loop es (en_ip n) None"
proof -
  have "fill_slot n es = pre @ n # post"
    using assms(1-3) by (induction pre arbitrary: es) auto
  then show ?thesis
    using assms(1,4) by (simp add: lookup_loop_last)
qed

locale arp_table =
  fixes lookup :: "'c \<Rightarrow> u32 \<Rightarrow> bytes option"
    and wait :: "'c \<Rightarrow> u32 \<Rightarrow> sr_packet list option"
    and room :: "'c \<Rightarrow> bool"
    and queue :: "'c \<Rightarrow> u32 \<Rightarrow> bytes \<Rightarrow> nat \<Rightarrow> bytes \<Rightarrow> ('c \<times> nat) res"
    and learn :: "'c \<Rightarrow> bytes \<Rightarrow> u32 \<Rightarrow> int \<Rightarrow> 'c \<times> sr_arpreq option"
    and invar :: "'c \<Rightarrow> bool"
  assumes queue_returns: "frame_len n \<Longrightarrow> n \<le> length b \<Longrightarrow> \<exists>c' p. queue c ip b n i = Inr (c', p)"
    and queue_invar: "invar c \<Longrightarrow> frame_len n \<Longrightarrow> n \<le> length b \<Longrightarrow> queue c ip b n i = Inr (c', p) \<Longrightarrow> invar c'"
    and queue_lookup: "invar c \<Longrightarrow> frame_len n \<Longrightarrow> n \<le> length b \<Longrightarrow> queue c ip b n i = Inr (c', p) \<Longrightarrow>
      lookup c' = lookup c"
    and queue_wait: "invar c \<Longrightarrow> frame_len n \<Longrightarrow> n \<le> length b \<Longrightarrow> queue c ip b n i = Inr (c', p) \<Longrightarrow>
      wait c' = (wait c)(ip \<mapsto> queued b n i # (case wait c ip of None \<Rightarrow> [] | Some ps \<Rightarrow> ps))"
    and learn_invar: "invar c \<Longrightarrow> length mac = 6 \<Longrightarrow> learn c mac ip now = (c', r) \<Longrightarrow> invar c'"
    and learn_returns: "invar c \<Longrightarrow> learn c mac ip now = (c', r) \<Longrightarrow> map_option rq_packets r = wait c ip"
    and learn_wait: "invar c \<Longrightarrow> learn c mac ip now = (c', r) \<Longrightarrow> wait c' = (wait c)(ip := None)"
    and learn_other: "learn c mac ip now = (c', r) \<Longrightarrow> ip' \<noteq> ip \<Longrightarrow> lookup c' ip' = lookup c ip'"
    and learn_new: "learn c mac ip now = (c', r) \<Longrightarrow> room c \<Longrightarrow> lookup c ip = None \<Longrightarrow> length mac = 6 \<Longrightarrow>
      lookup c' ip = Some mac"
    and learn_full: "learn c mac ip now = (c', r) \<Longrightarrow> \<not> room c \<Longrightarrow> lookup c' = lookup c"
begin

lemmas queue_laws = queue_invar queue_lookup queue_wait

lemma learn_map:
  assumes "learn c mac ip now = (c', r)" "room c" "lookup c ip = None" "length mac = 6"
  shows "lookup c' = (lookup c)(ip \<mapsto> mac)"
  using learn_other [OF assms(1)] learn_new [OF assms] by (auto simp: fun_eq_iff)

lemma queue_then_learn:
  assumes "invar c" "frame_len n" "n \<le> length b" "queue c ip b n i = Inr (c1, p)"
    and "learn c1 mac ip now = (c2, r)"
  shows "map_option rq_packets r
      = Some (queued b n i # (case wait c ip of None \<Rightarrow> [] | Some ps \<Rightarrow> ps))"
    and "wait c2 ip = None"
proof -
  have "invar c1"
    using queue_invar assms(1-4) by blast
  from learn_returns [OF this assms(5)] learn_wait [OF this assms(5)] queue_wait [OF assms(1-4)]
  show "map_option rq_packets r
      = Some (queued b n i # (case wait c ip of None \<Rightarrow> [] | Some ps \<Rightarrow> ps))" "wait c2 ip = None"
    by simp_all
qed

end

interpretation cache: arp_table cache_map waiting has_room sr_arpcache_queuereq sr_arpcache_insert
  arp_inv
proof unfold_locales
  fix c c' :: sr_arpcache and ip n b i p
  assume q: "arp_inv c" "frame_len n" "n \<le> length b" "sr_arpcache_queuereq c ip b n i = Inr (c', p)"
  note rq = queuereq_requests [OF q]
  from rq(3) show "cache_map c' = cache_map c"
    by (simp add: cache_map_def sr_arpcache_lookup_def fun_eq_iff)
  have uniq: "rq_ip r = ip \<longleftrightarrow> r = r0" if "find_req (requests c) ip = Some r0" "r \<in> set (requests c)" for r r0
    using that arp_invD(3) [OF q(1)] req_ip.lookup_eq_Some_iff by (metis option.inject)
  show "waiting c' = (waiting c)(ip \<mapsto> queued b n i # (case waiting c ip of None \<Rightarrow> [] | Some ps \<Rightarrow> ps))"
  proof (cases "find_req (requests c) ip")
    case None
    then show ?thesis
      using rq(2) by (auto simp: waiting_def fun_eq_iff push_packet_def new_req_def)
  next
    case (Some r0)
    have other: "rq_ptr r \<noteq> rq_ptr r0" if "find_req (requests c) ip' = Some r" "ip' \<noteq> ip" for r ip'
      using that Some arp_invD(4) [OF q(1)] req_ip.lookup_Some
      by (metis find_deref option.inject)
    from Some rq(2) show ?thesis
      by (auto simp: waiting_def fun_eq_iff find_map_update push_packet_def option.map_comp
          map_option_case split: option.split dest: other)
  qed
next
  fix c c' :: sr_arpcache and mac ip now r
  assume inv: "arp_inv c" and l: "sr_arpcache_insert c mac ip now = (c', r)"
  then show "map_option rq_packets r = waiting c ip"
    by (auto simp: sr_arpcache_insert_def waiting_def)
  have rs: "requests c' = filter (\<lambda>r. rq_ip r \<noteq> ip) (requests c)"
    using l unlink_req_key [OF arp_invD(3) [OF inv]] by (auto simp: sr_arpcache_insert_def)
  have "find_req (requests c') ip' = find_req (requests c) ip'" if "ip' \<noteq> ip" for ip'
    unfolding rs using that by (intro req_ip.lookup_filter) auto
  moreover have "find_req (requests c') ip = None"
    unfolding rs by (simp add: req_ip.lookup_None_iff)
  ultimately show "waiting c' = (waiting c)(ip := None)"
    by (auto simp: waiting_def fun_eq_iff)
next
  fix c c' :: sr_arpcache and mac ip now r
  assume l: "sr_arpcache_insert c mac ip now = (c', r)"
  let ?n = "\<lparr>en_mac = take 6 mac, en_ip = ip, en_added = now, en_valid = 1\<rparr>"
  have es: "entries c' = fill_slot ?n (entries c)"
    using l by (auto simp: sr_arpcache_insert_def)
  show "cache_map c' ip' = cache_map c ip'" if "ip' \<noteq> ip" for ip'
    using that by (simp add: cache_map_def sr_arpcache_lookup_def es lookup_loop_last filter_fill_other)
  show "cache_map c' ip = Some mac" if "has_room c" "cache_map c ip = None" "length mac = 6"
  proof -
    have "filter (entry_hit ip) (entries c') = [?n]"
      unfolding es using that arp_lookup_None_iff [of c ip]
      by (intro filter_fill_new) (auto simp: cache_map_def has_room_def entry_hit_def)
    with that(3) show ?thesis
      by (simp add: cache_map_def sr_arpcache_lookup_def lookup_loop_last)
  qed
  show "cache_map c' = cache_map c" if "\<not> has_room c"
    using that by (auto simp: cache_map_def sr_arpcache_lookup_def es has_room_def fill_slot_full)
qed (auto simp: queuereq_total intro: queuereq_inv insert_inv)

end
