(* ===== verification/Dumper.thy ===== *)
theory Dumper
  imports Packed_Struct
begin

text \<open>
  The packet log of \<^verbatim>\<open>sr_dumper.c\<close>: a libpcap savefile, modelled as the bytes written so far.
  \<^verbatim>\<open>fwrite\<close> appends and succeeds.  A reader of the format is defined as the specification, and a
  log produced by the code is shown to read back as the packets that were dumped.
\<close>

definition TCPDUMP_MAGIC :: u32 where "TCPDUMP_MAGIC = 0xa1b2c3d4"
definition PCAP_VERSION_MAJOR :: u16 where "PCAP_VERSION_MAJOR = 2"
definition PCAP_VERSION_MINOR :: u16 where "PCAP_VERSION_MINOR = 4"
definition LINKTYPE_ETHERNET :: u32 where "LINKTYPE_ETHERNET = 1"

section \<open>The structs of the savefile\<close>

text \<open>C \<^verbatim>\<open>int\<close> members are kept as their 32-bit two's complement words.\<close>

record pcap_file_header =
  fh_magic :: u32
  fh_version_major :: u16
  fh_version_minor :: u16
  fh_thiszone :: u32
  fh_sigfigs :: u32
  fh_snaplen :: u32
  fh_linktype :: u32

definition enc_file_header :: "pcap_file_header \<Rightarrow> bytes" where
  "enc_file_header h = bytes32 (fh_magic h) @ bytes16 (fh_version_major h)
     @ bytes16 (fh_version_minor h) @ bytes32 (fh_thiszone h) @ bytes32 (fh_sigfigs h)
     @ bytes32 (fh_snaplen h) @ bytes32 (fh_linktype h)"

definition dec_file_header :: "bytes \<Rightarrow> pcap_file_header" where
  "dec_file_header b = \<lparr>fh_magic = le32 (b ! 0) (b ! 1) (b ! 2) (b ! 3),
     fh_version_major = le16 (b ! 4) (b ! 5), fh_version_minor = le16 (b ! 6) (b ! 7),
     fh_thiszone = le32 (b ! 8) (b ! 9) (b ! 10) (b ! 11),
     fh_sigfigs = le32 (b ! 12) (b ! 13) (b ! 14) (b ! 15),
     fh_snaplen = le32 (b ! 16) (b ! 17) (b ! 18) (b ! 19),
     fh_linktype = le32 (b ! 20) (b ! 21) (b ! 22) (b ! 23)\<rparr>"

record pcap_sf_pkthdr =
  sf_tv_sec :: u32
  sf_tv_usec :: u32
  sf_caplen :: u32
  sf_len :: u32

definition enc_sf_pkthdr :: "pcap_sf_pkthdr \<Rightarrow> bytes" where
  "enc_sf_pkthdr h = bytes32 (sf_tv_sec h) @ bytes32 (sf_tv_usec h) @ bytes32 (sf_caplen h)
     @ bytes32 (sf_len h)"

definition dec_sf_pkthdr :: "bytes \<Rightarrow> pcap_sf_pkthdr" where
  "dec_sf_pkthdr b = \<lparr>sf_tv_sec = le32 (b ! 0) (b ! 1) (b ! 2) (b ! 3),
     sf_tv_usec = le32 (b ! 4) (b ! 5) (b ! 6) (b ! 7),
     sf_caplen = le32 (b ! 8) (b ! 9) (b ! 10) (b ! 11),
     sf_len = le32 (b ! 12) (b ! 13) (b ! 14) (b ! 15)\<rparr>"

interpretation file_header: packed_struct enc_file_header dec_file_header "\<lambda>_. True" 24
proof unfold_locales
  fix b :: bytes
  assume "length b = 24"
  then obtain xs where "b = map xs [0..<24]"
    using bytes_upto by blast
  then show "enc_file_header (dec_file_header b) = b"
    by (simp add: upt_rec [of _ 24] enc_file_header_def dec_file_header_def byte_simps)
qed (simp_all add: enc_file_header_def dec_file_header_def bytes16_def bytes32_def byte_simps)

interpretation sf_pkthdr: packed_struct enc_sf_pkthdr dec_sf_pkthdr "\<lambda>_. True" 16
proof unfold_locales
  fix b :: bytes
  assume "length b = 16"
  then obtain xs where "b = map xs [0..<16]"
    using bytes_upto by blast
  then show "enc_sf_pkthdr (dec_sf_pkthdr b) = b"
    by (simp add: upt_rec [of _ 16] enc_sf_pkthdr_def dec_sf_pkthdr_def byte_simps)
qed (simp_all add: enc_sf_pkthdr_def dec_sf_pkthdr_def bytes32_def byte_simps)

section \<open>The code\<close>

text \<open>\<^verbatim>\<open>struct pcap_pkthdr\<close>: the time stamp is a host \<^verbatim>\<open>timeval\<close> of longs.\<close>

record pcap_pkthdr =
  ts_sec :: int
  ts_usec :: int
  caplen :: u32
  pkt_len :: u32

definition sf_write_header :: "bytes \<Rightarrow> u32 \<Rightarrow> u32 \<Rightarrow> u32 \<Rightarrow> bytes" where
  "sf_write_header fp linktype thiszone snaplen =
     fp @ enc_file_header \<lparr>fh_magic = TCPDUMP_MAGIC, fh_version_major = PCAP_VERSION_MAJOR,
       fh_version_minor = PCAP_VERSION_MINOR, fh_thiszone = thiszone, fh_sigfigs = 0,
       fh_snaplen = snaplen, fh_linktype = linktype\<rparr>"

text \<open>
  \<^verbatim>\<open>sr_dump_open\<close>: standard output for the name \<^verbatim>\<open>-\<close>, otherwise the file that \<^verbatim>\<open>fopen\<close> opened
  (\<open>opened\<close> says whether it could); the header is written first.
\<close>

definition sr_dump_open :: "bool \<Rightarrow> bytes \<Rightarrow> u32 \<Rightarrow> u32 \<Rightarrow> bytes option" where
  "sr_dump_open opened fname thiszone snaplen =
     (if cstr fname = [0x2D] \<or> opened
      then Some (sf_write_header [] LINKTYPE_ETHERNET thiszone snaplen) else None)"

text \<open>\<^verbatim>\<open>sr_dump\<close>: the record header, then \<^verbatim>\<open>caplen\<close> bytes read from \<^verbatim>\<open>sp\<close>.\<close>

definition sf_hdr_of :: "pcap_pkthdr \<Rightarrow> pcap_sf_pkthdr" where
  "sf_hdr_of h = \<lparr>sf_tv_sec = word_of_int (ts_sec h), sf_tv_usec = word_of_int (ts_usec h),
     sf_caplen = caplen h, sf_len = pkt_len h\<rparr>"

definition sr_dump :: "bytes \<Rightarrow> pcap_pkthdr \<Rightarrow> bytes \<Rightarrow> bytes res" where
  "sr_dump fp h sp =
     bindE (load sp 0 (unat (caplen h))) (\<lambda>d. Inr (fp @ enc_sf_pkthdr (sf_hdr_of h) @ d))"

section \<open>Reading a savefile back\<close>

function read_records :: "bytes \<Rightarrow> (pcap_sf_pkthdr \<times> bytes) list option" where
  "read_records b =
     (if b = [] then Some []
      else if length b < 16 then None
      else let h = dec_sf_pkthdr (take 16 b); n = unat (sf_caplen h); r = drop 16 b
        in if length r < n then None
           else map_option (Cons (h, take n r)) (read_records (drop n r)))"
  by pat_completeness auto
termination
  by (relation "measure length") auto

declare read_records.simps [simp del]

definition read_savefile :: "bytes \<Rightarrow> (pcap_sf_pkthdr \<times> bytes) list option" where
  "read_savefile b =
     (if length b < 24 then None
      else let h = dec_file_header (take 24 b)
        in if fh_magic h = TCPDUMP_MAGIC \<and> fh_version_major h = 2 \<and> fh_version_minor h = 4
           then read_records (drop 24 b) else None)"

lemma read_records_Nil [simp]: "read_records [] = Some []"
  by (simp add: read_records.simps)

lemma read_records_Cons:
  "unat (sf_caplen h) = length d \<Longrightarrow>
   read_records (enc_sf_pkthdr h @ d @ b) = map_option (Cons (h, d)) (read_records b)"
  using sf_pkthdr.length_enc [of h] sf_pkthdr.dec_enc [of h]
  by (subst read_records.simps) (auto simp: Let_def)

text \<open>Appending one more record to a readable log appends it to what is read.\<close>

lemma read_records_append:
  assumes "unat (sf_caplen h) = length d"
  shows "read_records b = Some rs \<Longrightarrow> read_records (b @ enc_sf_pkthdr h @ d) = Some (rs @ [(h, d)])"
proof (induction b arbitrary: rs rule: read_records.induct)
  case (1 b)
  show ?case
  proof (cases "b = []")
    case True
    with "1.prems" show ?thesis
      using read_records_Cons [OF assms, of "[]"] by simp
  next
    case False
    let ?h = "dec_sf_pkthdr (take 16 b)"
    let ?n = "unat (sf_caplen ?h)"
    from False "1.prems" have len: "16 \<le> length b" "?n \<le> length (drop 16 b)"
      by (auto simp: read_records.simps [of b] Let_def split: if_splits)
    with False "1.prems" obtain rs' where rs': "read_records (drop ?n (drop 16 b)) = Some rs'"
      "rs = (?h, take ?n (drop 16 b)) # rs'"
      by (auto simp: read_records.simps [of b] Let_def)
    have "read_records (drop ?n (drop 16 b) @ enc_sf_pkthdr h @ d) = Some (rs' @ [(h, d)])"
      using "1.IH" False len rs'(1) by (simp add: not_less)
    moreover have "read_records (enc_sf_pkthdr ?h @ take ?n (drop 16 b) @
        (drop ?n (drop 16 b) @ enc_sf_pkthdr h @ d))
        = map_option (Cons (?h, take ?n (drop 16 b)))
            (read_records (drop ?n (drop 16 b) @ enc_sf_pkthdr h @ d))"
      using len by (intro read_records_Cons) simp
    moreover have "enc_sf_pkthdr ?h = take 16 b"
      using len(1) by (intro sf_pkthdr.enc_dec) simp
    moreover have "take 16 b @ take ?n (drop 16 b) @ drop ?n (drop 16 b) = b"
      by (simp only: append_take_drop_id)
    ultimately show ?thesis
      using rs'(2) by (metis (no_types, lifting) append.assoc append_Cons option.map(2))
  qed
qed

lemma read_open:
  "sr_dump_open opened fname z n = Some fp \<Longrightarrow> read_savefile fp = Some []"
  by (auto simp: sr_dump_open_def sf_write_header_def read_savefile_def file_header.length_enc
      file_header.dec_enc Let_def PCAP_VERSION_MAJOR_def PCAP_VERSION_MINOR_def split: if_splits)

lemma read_dump:
  assumes "read_savefile fp = Some rs" "sr_dump fp h sp = Inr fp'"
  shows "read_savefile fp' = Some (rs @ [(sf_hdr_of h, take (unat (caplen h)) sp)])"
proof -
  have "unat (caplen h) \<le> length sp"
    and fp': "fp' = fp @ enc_sf_pkthdr (sf_hdr_of h) @ take (unat (caplen h)) sp"
    using assms(2) by (auto simp: sr_dump_def bindE_eq_Inr load_eq_Inr slice_def)
  then have "unat (sf_caplen (sf_hdr_of h)) = length (take (unat (caplen h)) sp)"
    by (simp add: sf_hdr_of_def)
  from read_records_append [OF this, of "drop 24 fp" rs] assms(1) show ?thesis
    by (auto simp: read_savefile_def fp' Let_def split: if_splits)
qed

end
