(* ===== verification/Vns_Messages.thy ===== *)
theory Vns_Messages
  imports Packed_Struct
begin

text \<open>
  The messages of \<^verbatim>\<open>vnscommand.h\<close> that the client builds or takes apart field by field: a hardware
  entry, the two session requests, and the fixed part of the authentication reply.
\<close>

definition IDSIZE :: nat where "IDSIZE = 32"

definition VNSOPEN :: u32 where "VNSOPEN = 1"
definition VNSCLOSE :: u32 where "VNSCLOSE = 2"
definition VNSPACKET :: u32 where "VNSPACKET = 4"
definition VNSBANNER :: u32 where "VNSBANNER = 8"
definition VNSHWINFO :: u32 where "VNSHWINFO = 16"
definition VNS_RTABLE :: u32 where "VNS_RTABLE = 32"
definition VNS_OPEN_TEMPLATE :: u32 where "VNS_OPEN_TEMPLATE = 64"
definition VNS_AUTH_REQUEST :: u32 where "VNS_AUTH_REQUEST = 128"
definition VNS_AUTH_REPLY :: u32 where "VNS_AUTH_REPLY = 256"
definition VNS_AUTH_STATUS :: u32 where "VNS_AUTH_STATUS = 512"

definition HWINTERFACE :: u32 where "HWINTERFACE = 1"
definition HWSPEED :: u32 where "HWSPEED = 2"
definition HWSUBNET :: u32 where "HWSUBNET = 4"
definition HWFIXEDIP :: u32 where "HWFIXEDIP = 16"
definition HWETHER :: u32 where "HWETHER = 32"
definition HWETHIP :: u32 where "HWETHIP = 64"
definition HWMASK :: u32 where "HWMASK = 128"

lemmas vns_consts = VNSOPEN_def VNSCLOSE_def VNSPACKET_def VNSBANNER_def VNSHWINFO_def VNS_RTABLE_def
  VNS_OPEN_TEMPLATE_def VNS_AUTH_REQUEST_def VNS_AUTH_REPLY_def VNS_AUTH_STATUS_def
  HWINTERFACE_def HWSPEED_def HWSUBNET_def HWFIXEDIP_def HWETHER_def HWETHIP_def HWMASK_def

text \<open>
  Where the handlers find what they read: every message starts with \<^verbatim>\<open>mLen\<close> and \<^verbatim>\<open>mType\<close>, as \<^verbatim>\<open>c_base\<close>
  does, and the next field follows at once in the packed structs.
\<close>

definition sizeof_base :: nat where "sizeof_base = 4 + 4"
definition error_message_at :: nat where "error_message_at = 4 + 4"
definition banner_message_at :: nat where "banner_message_at = 4 + 4"
definition hw_info_at :: nat where "hw_info_at = 4 + 4"
definition rtable_at :: nat where "rtable_at = 4 + 4 + IDSIZE"
definition salt_at :: nat where "salt_at = 4 + 4"
definition auth_ok_at :: nat where "auth_ok_at = 4 + 4"
definition sizeof_packet_ethernet_header :: nat where
  "sizeof_packet_ethernet_header = 4 + 4 + 16 + 6 + 6 + 2"

lemma offsets [simp]:
  "sizeof_base = 8" "error_message_at = 8" "banner_message_at = 8" "hw_info_at = 8"
  "rtable_at = 8 + IDSIZE" "salt_at = 8" "auth_ok_at = 8" "sizeof_packet_ethernet_header = 38"
  by (simp_all add: sizeof_base_def error_message_at_def banner_message_at_def hw_info_at_def rtable_at_def
      salt_at_def auth_ok_at_def sizeof_packet_ethernet_header_def)

section \<open>The packet header\<close>

record c_packet_header =
  mLen :: u32
  mType :: u32
  mInterfaceName :: bytes

definition sizeof_packet_header :: nat where "sizeof_packet_header = 24"

definition enc_packet_header :: "c_packet_header \<Rightarrow> bytes" where
  "enc_packet_header h = bytes32 (mLen h) @ bytes32 (mType h) @ mInterfaceName h"

definition dec_packet_header :: "bytes \<Rightarrow> c_packet_header" where
  "dec_packet_header b = \<lparr>mLen = le32 (b ! 0) (b ! 1) (b ! 2) (b ! 3),
     mType = le32 (b ! 4) (b ! 5) (b ! 6) (b ! 7), mInterfaceName = slice 8 16 b\<rparr>"

definition wf_packet_header :: "c_packet_header \<Rightarrow> bool" where
  "wf_packet_header h \<longleftrightarrow> length (mInterfaceName h) = 16"

interpretation packet_header: packed_struct enc_packet_header dec_packet_header wf_packet_header 24
proof unfold_locales
  fix b :: bytes
  assume "length b = 24"
  then obtain xs where "b = map xs [0..<24]"
    using bytes_upto by blast
  then show "enc_packet_header (dec_packet_header b) = b"
    by (simp add: upt_rec [of _ 24] enc_packet_header_def dec_packet_header_def slice_def byte_simps)
qed (simp_all add: enc_packet_header_def dec_packet_header_def wf_packet_header_def slice_def
    nth_append bytes32_def byte_simps)

section \<open>Hardware entries\<close>

record c_hw_entry =
  mKey :: u32
  hw_value :: bytes

definition sizeof_hw_entry :: nat where "sizeof_hw_entry = 36"

definition enc_hw_entry :: "c_hw_entry \<Rightarrow> bytes" where
  "enc_hw_entry e = bytes32 (mKey e) @ hw_value e"

definition dec_hw_entry :: "bytes \<Rightarrow> c_hw_entry" where
  "dec_hw_entry b = \<lparr>mKey = le32 (b ! 0) (b ! 1) (b ! 2) (b ! 3), hw_value = slice 4 32 b\<rparr>"

definition wf_hw_entry :: "c_hw_entry \<Rightarrow> bool" where
  "wf_hw_entry e \<longleftrightarrow> length (hw_value e) = 32"

interpretation hw_entry: packed_struct enc_hw_entry dec_hw_entry wf_hw_entry 36
proof unfold_locales
  fix b :: bytes
  assume "length b = 36"
  then obtain xs where "b = map xs [0..<36]"
    using bytes_upto by blast
  then show "enc_hw_entry (dec_hw_entry b) = b"
    by (simp add: upt_rec [of _ 36] enc_hw_entry_def dec_hw_entry_def slice_def byte_simps)
qed (simp_all add: enc_hw_entry_def dec_hw_entry_def wf_hw_entry_def slice_def nth_append
    bytes32_def byte_simps)

section \<open>Requests the client sends\<close>

record c_open =
  op_topoID :: u16
  op_host :: bytes
  op_uid :: bytes

text \<open>The fields \<^verbatim>\<open>mLen\<close> and \<^verbatim>\<open>mType\<close> are fixed; \<^verbatim>\<open>pad\<close> and \<^verbatim>\<open>mPass\<close> stay zero.\<close>

definition sizeof_open :: nat where "sizeof_open = 108"

definition enc_open :: "c_open \<Rightarrow> bytes" where
  "enc_open c = bytes32 (htonl (word_of_nat sizeof_open)) @ bytes32 (htonl VNSOPEN)
     @ bytes16 (op_topoID c) @ [0, 0] @ op_host c @ op_uid c @ replicate IDSIZE 0"

definition sizeof_open_template :: nat where "sizeof_open_template = 70"

definition enc_open_template :: "bytes \<Rightarrow> bytes \<Rightarrow> bytes" where
  "enc_open_template templateName host =
     bytes32 (htonl (word_of_nat sizeof_open_template)) @ bytes32 (htonl VNS_OPEN_TEMPLATE)
     @ templateName @ host"

definition sizeof_auth_reply :: nat where "sizeof_auth_reply = 12"

definition enc_auth_reply :: "u32 \<Rightarrow> u32 \<Rightarrow> bytes" where
  "enc_auth_reply len len_username =
     bytes32 (htonl len) @ bytes32 (htonl VNS_AUTH_REPLY) @ bytes32 (htonl len_username)"

lemma length_enc_open:
  "length (op_host c) = IDSIZE \<Longrightarrow> length (op_uid c) = IDSIZE \<Longrightarrow> length (enc_open c) = sizeof_open"
  by (simp add: enc_open_def IDSIZE_def sizeof_open_def)

lemma length_enc_open_template:
  "length t = 30 \<Longrightarrow> length h = IDSIZE \<Longrightarrow> length (enc_open_template t h) = sizeof_open_template"
  by (simp add: enc_open_template_def IDSIZE_def sizeof_open_template_def)

lemma length_enc_auth_reply: "length (enc_auth_reply n u) = sizeof_auth_reply"
  by (simp add: enc_auth_reply_def sizeof_auth_reply_def)

end
