(* ===== verification/Instance.thy ===== *)
theory Instance
  imports Routing Arp_Cache Dumper Vns_Messages
begin

text \<open>
  \<^verbatim>\<open>struct sr_instance\<close>, the router's whole state, and the sending side of \<^verbatim>\<open>sr_vns_comm.c\<close>:
  \<^verbatim>\<open>sr_send_packet\<close> wraps a frame in a VNS packet message, logs it, checks that its source
  address is the address of the interface it leaves by, and writes the message to the server.

  Beside the members of the C struct the record holds what the environment supplies: the clock
  (\<^verbatim>\<open>time\<close> and \<^verbatim>\<open>gettimeofday\<close>), the contents of freshly allocated memory, and the results of
  \<^verbatim>\<open>write\<close> on the socket; \<open>written\<close> is the sequence of buffers passed to \<^verbatim>\<open>write\<close> so far.
  \<^verbatim>\<open>sr_addr\<close> and \<^verbatim>\<open>attr\<close> are used by the socket and thread libraries only and are left out.
\<close>

record sr_instance =
  sockfd :: int
  user :: bytes
  host :: bytes
  template :: bytes
  topo_id :: u16
  if_list :: "sr_if list"
  routing_table :: "sr_rt list"
  cache :: sr_arpcache
  logfile :: "bytes option"
  clock_sec :: int
  clock_usec :: int
  heap_junk :: "nat \<Rightarrow> bytes"
  sock_write :: "bytes \<Rightarrow> int"
  written :: "bytes list"

definition PACKET_DUMP_SIZE :: int where "PACKET_DUMP_SIZE = 1024"
section \<open>The code\<close>

text \<open>\<^verbatim>\<open>sr_log_packet(sr, buf, int len)\<close>: at most \<^verbatim>\<open>PACKET_DUMP_SIZE\<close> bytes of the frame.\<close>

definition sr_log_packet :: "sr_instance \<Rightarrow> bytes \<Rightarrow> u32 \<Rightarrow> sr_instance res" where
  "sr_log_packet sr buf len =
     (case logfile sr of
        None \<Rightarrow> Inr sr
      | Some fp \<Rightarrow>
          (let size = min PACKET_DUMP_SIZE (sint len);
               h = \<lparr>ts_sec = clock_sec sr, ts_usec = clock_usec sr, caplen = word_of_int size,
                    pkt_len = word_of_int (if size < PACKET_DUMP_SIZE then size else PACKET_DUMP_SIZE)\<rparr>
           in bindE (sr_dump fp h buf) (\<lambda>fp'. Inr (sr\<lparr>logfile := Some fp'\<rparr>))))"

text \<open>\<^verbatim>\<open>memcmp\<close> of the frame's source address with the address of the named interface.\<close>

definition sr_ether_addrs_match_interface :: "sr_if list \<Rightarrow> bytes \<Rightarrow> bytes \<Rightarrow> bool res" where
  "sr_ether_addrs_match_interface is buf name =
     (case sr_get_interface is name of
        None \<Rightarrow> Inr False
      | Some iface \<Rightarrow>
          bindE (read_eth buf) (\<lambda>ether_hdr.
          Inr (ether_shost ether_hdr = take ETHER_ADDR_LEN (if_addr iface))))"

text \<open>The message \<^verbatim>\<open>sr_send_packet\<close> builds; \<^verbatim>\<open>total_len\<close> is an \<^verbatim>\<open>unsigned int\<close>.\<close>

definition packet_message :: "bytes \<Rightarrow> bytes \<Rightarrow> bytes" where
  "packet_message iface d =
     enc_packet_header \<lparr>mLen = htonl (word_of_nat (length d + sizeof_packet_header)),
       mType = htonl VNSPACKET, mInterfaceName = strncpy 16 iface\<rparr> @ d"

definition sr_send_packet ::
    "sr_instance \<Rightarrow> bytes \<Rightarrow> nat \<Rightarrow> bytes \<Rightarrow> (int \<times> sr_instance) res" where
  "sr_send_packet sr buf len iface =
     (if len < sizeof_eth then Inr (- 1, sr)
      else bindE (load buf 0 len) (\<lambda>d.
        let sr_pkt = packet_message iface d;
            total_len = (word_of_nat (len + sizeof_packet_header) :: u32)
        in bindE (sr_log_packet sr buf (word_of_nat len)) (\<lambda>sr1.
           bindE (sr_ether_addrs_match_interface (if_list sr1) buf iface) (\<lambda>ok.
             if \<not> ok then Inr (- 1, sr1)
             else Inr (if sock_write sr1 sr_pkt < int (unat total_len) then - 1 else 0,
                       sr1\<lparr>written := written sr1 @ [sr_pkt]\<rparr>)))))"

section \<open>What sending does to the state\<close>

text \<open>
  A message is well formed for an interface list when it is a VNS packet message with its own
  length, for an interface of the list, around a frame whose source address is that interface's.
\<close>

definition vns_frame_ok :: "sr_if list \<Rightarrow> bytes \<Rightarrow> bool" where
  "vns_frame_ok is m \<longleftrightarrow> (\<exists>name i d. m = packet_message name d \<and> sizeof_eth \<le> length d
     \<and> sr_get_interface is name = Some i
     \<and> ether_shost (dec_eth (take sizeof_eth d)) = take ETHER_ADDR_LEN (if_addr i))"

text \<open>\<open>frames_from sr sr'\<close>: \<open>sr'\<close> is \<open>sr\<close> after some sends and log writes.\<close>

definition frames_from :: "sr_instance \<Rightarrow> sr_instance \<Rightarrow> bool" where
  "frames_from sr sr' \<longleftrightarrow> (\<exists>lf ms. sr' = sr\<lparr>logfile := lf, written := written sr @ ms\<rparr>
     \<and> (\<forall>m \<in> set ms. vns_frame_ok (if_list sr) m))"

text \<open>
  The interface of a frame sink: what the packet handlers rely on when they send.  Sending never
  changes the part of the state the handlers read, and what comes out is well formed.
\<close>

locale frame_sink =
  fixes send :: "'s \<Rightarrow> bytes \<Rightarrow> nat \<Rightarrow> bytes \<Rightarrow> (int \<times> 's) res"
    and sent :: "'s \<Rightarrow> 's \<Rightarrow> bool"
  assumes sent_refl: "sent s s"
    and sent_trans: "sent s t \<Longrightarrow> sent t u \<Longrightarrow> sent s u"
    and send_sent: "send s b n i = Inr (r, t) \<Longrightarrow> sent s t"
begin

lemma sent_send: "sent s t \<Longrightarrow> send t b n i = Inr (r, u) \<Longrightarrow> sent s u"
  by (blast intro: sent_trans send_sent)

lemma send_bind: "bindE (send s b n i) (\<lambda>(r, t). Inr t) = Inr u \<Longrightarrow> sent s u"
  by (auto simp: bindE_eq_Inr intro: send_sent)

end

lemma frames_fromI:
  "sr' = sr\<lparr>logfile := lf, written := written sr @ ms\<rparr> \<Longrightarrow>
   (\<And>m. m \<in> set ms \<Longrightarrow> vns_frame_ok (if_list sr) m) \<Longrightarrow> frames_from sr sr'"
  unfolding frames_from_def by blast

lemma log_only: "frames_from sr (sr\<lparr>logfile := lf\<rparr>)"
  by (rule frames_fromI [where lf = lf and ms = "[]"]) simp_all

lemma frames_from_refl: "frames_from sr sr"
  by (rule frames_fromI [where lf = "logfile sr" and ms = "[]"]) simp_all

lemma frames_from_trans:
  assumes "frames_from a b" "frames_from b c"
  shows "frames_from a c"
proof -
  from assms(1) obtain lf ms where b: "b = a\<lparr>logfile := lf, written := written a @ ms\<rparr>"
    and ms: "\<forall>m \<in> set ms. vns_frame_ok (if_list a) m"
    unfolding frames_from_def by blast
  from assms(2) obtain lf' ns where c: "c = b\<lparr>logfile := lf', written := written b @ ns\<rparr>"
    and ns: "\<forall>m \<in> set ns. vns_frame_ok (if_list b) m"
    unfolding frames_from_def by blast
  show ?thesis
    by (rule frames_fromI [where lf = lf' and ms = "ms @ ns"]) (use b c ms ns in auto)
qed

lemma log_frames: "sr_log_packet sr buf len = Inr sr' \<Longrightarrow> \<exists>lf. sr' = sr\<lparr>logfile := lf\<rparr>"
proof (cases "logfile sr")
  case None
  moreover assume "sr_log_packet sr buf len = Inr sr'"
  ultimately have "sr' = sr\<lparr>logfile := logfile sr\<rparr>"
    by (simp add: sr_log_packet_def)
  then show ?thesis ..
next
  case (Some fp)
  moreover assume "sr_log_packet sr buf len = Inr sr'"
  ultimately show ?thesis
    by (auto simp: sr_log_packet_def bindE_eq_Inr Let_def)
qed

lemma packet_message_ok:
  assumes "sr_ether_addrs_match_interface is buf iface = Inr True" "sizeof_eth \<le> len" "len \<le> length buf"
  shows "vns_frame_ok is (packet_message iface (take len buf))"
proof -
  from assms obtain i where "sr_get_interface is iface = Some i"
    "ether_shost (dec_eth (take sizeof_eth buf)) = take ETHER_ADDR_LEN (if_addr i)"
    by (auto simp: sr_ether_addrs_match_interface_def bindE_eq_Inr read_eth_def read_struct_eq_Inr
        slice_def split: option.splits)
  with assms show ?thesis
    unfolding vns_frame_ok_def
    by (intro exI [of _ iface] exI [of _ i] exI [of _ "take len buf"]) (simp add: min_def)
qed

lemma send_cases:
  assumes "sr_send_packet sr buf len iface = Inr (r, sr')" "\<not> len < sizeof_eth"
  obtains sr1 ok where "len \<le> length buf" "sr_log_packet sr buf (word_of_nat len) = Inr sr1"
    "sr_ether_addrs_match_interface (if_list sr1) buf iface = Inr ok"
    "sr' = (if ok then sr1\<lparr>written := written sr1 @ [packet_message iface (take len buf)]\<rparr> else sr1)"
proof -
  from assms have "len \<le> length buf"
    by (simp add: sr_send_packet_def bindE_eq_Inr load_eq_Inr)
  with assms have "bindE (sr_log_packet sr buf (word_of_nat len)) (\<lambda>sr1.
      bindE (sr_ether_addrs_match_interface (if_list sr1) buf iface) (\<lambda>ok.
        if \<not> ok then Inr (- 1, sr1)
        else Inr (if sock_write sr1 (packet_message iface (take len buf))
               < int (unat (word_of_nat (len + sizeof_packet_header) :: u32)) then - 1 else 0,
             sr1\<lparr>written := written sr1 @ [packet_message iface (take len buf)]\<rparr>))) = Inr (r, sr')"
    by (simp add: sr_send_packet_def load_def slice_def Let_def del: of_nat_add)
  then obtain sr1 ok where "sr_log_packet sr buf (word_of_nat len) = Inr sr1"
    "sr_ether_addrs_match_interface (if_list sr1) buf iface = Inr ok"
    "sr' = (if ok then sr1\<lparr>written := written sr1 @ [packet_message iface (take len buf)]\<rparr> else sr1)"
    unfolding bindE_eq_Inr by (metis (lifting) prod.inject sum.inject(2))
  with that \<open>len \<le> length buf\<close> show thesis
    by blast
qed

lemma send_frames:
  assumes "sr_send_packet sr buf len iface = Inr (r, sr')"
  shows "frames_from sr sr'"
proof (cases "len < sizeof_eth")
  case True
  with assms show ?thesis
    by (simp add: sr_send_packet_def frames_from_refl)
next
  case False
  then obtain sr1 ok where len: "len \<le> length buf"
    and log: "sr_log_packet sr buf (word_of_nat len) = Inr sr1"
    and chk: "sr_ether_addrs_match_interface (if_list sr1) buf iface = Inr ok"
    and fin: "sr' = (if ok then sr1\<lparr>written := written sr1 @ [packet_message iface (take len buf)]\<rparr> else sr1)"
    by (rule send_cases [OF assms])
  from log_frames [OF log] obtain lf where l: "sr1 = sr\<lparr>logfile := lf\<rparr>"
    by blast
  show ?thesis
  proof (cases ok)
    case True
    with chk len False l have "vns_frame_ok (if_list sr) (packet_message iface (take len buf))"
      by (intro packet_message_ok) auto
    with True fin l show ?thesis
      by (intro frames_fromI [where lf = lf and ms = "[packet_message iface (take len buf)]"]) auto
  qed (use fin l in \<open>simp add: log_only\<close>)
qed

interpretation sink: frame_sink sr_send_packet frames_from
  by unfold_locales (fact frames_from_refl, erule (1) frames_from_trans, erule send_frames)

text \<open>
  A frame that fits an \<^verbatim>\<open>int\<close> length and carries its interface's source address is logged and
  written, whatever \<^verbatim>\<open>write\<close> returns.
\<close>

lemma log_total:
  assumes "length buf < 2 ^ 31"
  shows "\<exists>lf. sr_log_packet sr buf (word_of_nat (length buf)) = Inr (sr\<lparr>logfile := lf\<rparr>)"
proof (cases "logfile sr")
  case None
  then have "sr_log_packet sr buf (word_of_nat (length buf)) = Inr (sr\<lparr>logfile := None\<rparr>)"
    by (simp add: sr_log_packet_def)
  then show ?thesis
    by blast
next
  case (Some fp)
  have sint: "sint (word_of_nat (length buf) :: u32) = int (length buf)"
    using assms by (simp add: signed_of_nat signed_take_bit_int_eq_self)
  have "nat (min 1024 (int (length buf))) \<le> length buf"
    "min 1024 (int (length buf)) < 2 ^ LENGTH(32)"
    by auto
  then have "unat (word_of_int (min 1024 (int (length buf))) :: u32) \<le> length buf"
    by (simp add: unsigned_of_int take_bit_int_eq_self nat_le_iff)
  then show ?thesis
    using Some by (simp add: sr_log_packet_def sint PACKET_DUMP_SIZE_def sr_dump_def Let_def)
      (intro conjI impI; blast)
qed

lemma send_success:
  assumes "sizeof_eth \<le> length buf" "length buf < 2 ^ 31"
    and "sr_get_interface (if_list sr) iface = Some i"
    and "ether_shost (dec_eth (take sizeof_eth buf)) = take ETHER_ADDR_LEN (if_addr i)"
  shows "\<exists>r lf. sr_send_packet sr buf (length buf) iface
    = Inr (r, sr\<lparr>logfile := lf, written := written sr @ [packet_message iface buf]\<rparr>)"
proof -
  from log_total [OF assms(2), of sr] obtain lf where
    log: "sr_log_packet sr buf (word_of_nat (length buf)) = Inr (sr\<lparr>logfile := lf\<rparr>)"
    by blast
  have "sr_ether_addrs_match_interface (if_list sr) buf iface = Inr True"
    using assms(1,3,4) by (simp add: sr_ether_addrs_match_interface_def read_eth_def read_struct_def
        slice_def)
  with assms(1) log have "\<exists>r. sr_send_packet sr buf (length buf) iface
    = Inr (r, sr\<lparr>logfile := lf, written := written sr @ [packet_message iface buf]\<rparr>)"
    by (simp add: sr_send_packet_def slice_def Let_def)
  then show ?thesis
    by blast
qed

end
