(* ===== verification/Checksum.thy ===== *)
theory Checksum
  imports Prelude
begin

text \<open>
  \<^verbatim>\<open>cksum\<close> of \<^verbatim>\<open>sr_utils.c\<close>: the Internet checksum, computed by adding big-endian 16-bit words
  into a 32-bit accumulator and folding the carries at the end.  The reference is the one's
  complement sum of RFC 1071 with the end-around carry taken at every addition; the file shows that
  the two agree on every buffer an \<^verbatim>\<open>ip_len\<close> can describe, that the fold terminates, and that
  storing the result in a zeroed checksum field makes the data sum to all ones.
\<close>

section \<open>The code\<close>

fun cksum_add :: "bytes \<Rightarrow> u32 \<Rightarrow> u32" where
  "cksum_add (a # b # ds) s = cksum_add ds (s + (push_bit 8 (ucast a) OR ucast b))"
| "cksum_add [a] s = s + push_bit 8 (ucast a)"
| "cksum_add [] s = s"

text \<open>One turn of the folding loop, on naturals.\<close>

lemma unat_fold_step:
  "unat (drop_bit 16 s + (s AND 0xFFFF) :: u32) = unat s div 65536 + unat s mod 65536"
proof -
  have hi: "unat (drop_bit 16 s) = unat s div 65536"
    by (simp only: unat_drop_bit_eq) (simp add: drop_bit_eq_div)
  have lo: "unat (s AND 0xFFFF) = unat s mod 65536"
  proof -
    have "s AND 0xFFFF = take_bit 16 s"
      by (simp add: take_bit_eq_mask mask_numeral)
    then show ?thesis
      by (simp only: unsigned_take_bit_eq) (simp add: take_bit_eq_mod)
  qed
  have "unat s div 65536 + unat s mod 65536 < 2 ^ LENGTH(32)"
    using unat_u32_less [of s] by simp
  then show ?thesis
    by (simp add: unat_word_ariths hi lo)
qed

lemma fold_step_decreases: "(65535 :: nat) < n \<Longrightarrow> n div 65536 + n mod 65536 < n"
proof -
  assume "65535 < n"
  then have "1 \<le> n div 65536"
    by (simp add: div_greater_zero_iff Suc_le_eq)
  then show ?thesis
    using mult_div_mod_eq [of 65536 n] by linarith
qed

lemma fold_step_mod: "((n :: nat) div 65536 + n mod 65536) mod 65535 = n mod 65535"
proof -
  have "n = (n div 65536 + n mod 65536) + n div 65536 * 65535"
    using mult_div_mod_eq [of 65536 n] by linarith
  then show ?thesis
    by (metis mod_mult_self1)
qed

lemma fold_step_eq_0: "(n :: nat) div 65536 + n mod 65536 = 0 \<longleftrightarrow> n = 0"
  using mult_div_mod_eq [of 65536 n] by auto

function cksum_fold :: "u32 \<Rightarrow> u32" where
  "cksum_fold s = (if s > 0xFFFF then cksum_fold (drop_bit 16 s + (s AND 0xFFFF)) else s)"
  by pat_completeness auto
termination
  by (relation "measure unat") (auto simp: unat_fold_step word_less_nat_alt fold_step_decreases)

declare cksum_fold.simps [simp del]

text \<open>
  The value of the checksum of some bytes, and \<^verbatim>\<open>cksum(data, len)\<close> itself, which reads \<open>len\<close> bytes
  from \<open>data\<close> (none when \<open>len\<close> is negative).
\<close>

definition cksum_value :: "bytes \<Rightarrow> u16" where
  "cksum_value d =
     (let s = htons (ucast (NOT (cksum_fold (cksum_add d 0)))) in if s \<noteq> 0 then s else 0xFFFF)"

definition cksum :: "bytes \<Rightarrow> int \<Rightarrow> u16 res" where
  "cksum data len = bindE (load data 0 (nat len)) (\<lambda>d. Inr (cksum_value d))"

lemma cksum_Inr: "nat len \<le> length data \<Longrightarrow> cksum data len = Inr (cksum_value (take (nat len) data))"
  by (simp add: cksum_def slice_def)

lemma cksum_Inl: "length data < nat len \<Longrightarrow> cksum data len = Inl OutOfBounds"
  by (simp add: cksum_def load_Inl)

section \<open>The reference\<close>

definition oc_add :: "nat \<Rightarrow> nat \<Rightarrow> nat" where
  "oc_add a b = (if a + b \<ge> 65536 then a + b - 65535 else a + b)"

fun oc_sum :: "bytes \<Rightarrow> nat" where
  "oc_sum (a # b # ds) = oc_add (unat a * 256 + unat b) (oc_sum ds)"
| "oc_sum [a] = unat a * 256"
| "oc_sum [] = 0"

text \<open>The plain sum of the big-endian words, which both sides refine.\<close>

fun word_sum :: "bytes \<Rightarrow> nat" where
  "word_sum (a # b # ds) = unat a * 256 + unat b + word_sum ds"
| "word_sum [a] = unat a * 256"
| "word_sum [] = 0"

text \<open>The canonical representative of a sum modulo 65535 in one's complement.\<close>

definition oc_canon :: "nat \<Rightarrow> nat" where
  "oc_canon n = (if n = 0 then 0 else (n - 1) mod 65535 + 1)"

lemma be_word_less: "unat (a :: u8) * 256 + unat (b :: u8) < 65536"
  using unat_u8_less [of a] unat_u8_less [of b] by linarith

lemma oc_canon_le: "oc_canon n \<le> 65535"
  using mod_less_divisor [of 65535 "n - 1"] by (simp add: oc_canon_def less_Suc_eq_le [symmetric])

lemma oc_canon_id: "n \<le> 65535 \<Longrightarrow> oc_canon n = n"
  by (simp add: oc_canon_def)

lemma oc_canon_eq_0 [simp]: "oc_canon n = 0 \<longleftrightarrow> n = 0"
  by (simp add: oc_canon_def)

lemma oc_canon_mod: "oc_canon n mod 65535 = n mod 65535"
  by (cases n) (simp_all add: oc_canon_def mod_Suc_eq)

lemma oc_canon_cong: "m mod 65535 = n mod 65535 \<Longrightarrow> m = 0 \<longleftrightarrow> n = 0 \<Longrightarrow> oc_canon m = oc_canon n"
proof -
  assume *: "m mod 65535 = n mod 65535" "m = 0 \<longleftrightarrow> n = 0"
  have "oc_canon m mod 65535 = oc_canon n mod 65535" "oc_canon m = 0 \<longleftrightarrow> oc_canon n = 0"
    using * by (simp_all add: oc_canon_mod)
  then show ?thesis
    using oc_canon_le [of m] oc_canon_le [of n]
    by (metis le_neq_implies_less mod_less mod_self)
qed

lemma oc_add_canon: "a \<le> 65535 \<Longrightarrow> oc_add a (oc_canon n) = oc_canon (a + n)"
proof -
  assume a: "a \<le> 65535"
  have "oc_add a (oc_canon n) \<le> 65535" "oc_add a (oc_canon n) mod 65535 = (a + oc_canon n) mod 65535"
    "oc_add a (oc_canon n) = 0 \<longleftrightarrow> a + n = 0"
    using a oc_canon_le [of n] by (auto simp: oc_add_def le_mod_geq)
  then show ?thesis
    by (metis oc_canon_cong oc_canon_id oc_canon_mod mod_add_right_eq)
qed

lemma oc_sum_canon: "oc_sum d = oc_canon (word_sum d)"
proof (induction d rule: oc_sum.induct)
  case (1 a b ds)
  then show ?case
    using be_word_less [of a b] by (simp add: oc_add_canon)
next
  case (2 a)
  then show ?case
    using be_word_less [of a 0] by (simp add: oc_canon_id)
qed (simp add: oc_canon_def)

section \<open>The accumulator and the fold\<close>

lemma word_sum_le: "word_sum d \<le> 65535 * (Suc (length d) div 2)"
proof (induction d rule: word_sum.induct)
  case (1 a b ds)
  then show ?case
    using be_word_less [of a b] by simp
next
  case (2 a)
  then show ?case
    using be_word_less [of a 0] by simp
qed simp

lemma unat_be_word: "unat (push_bit 8 (ucast (a :: u8)) OR ucast (b :: u8) :: u32) = unat a * 256 + unat b"
proof -
  have disj: "push_bit 8 (ucast a) AND (ucast b :: u32) = 0"
    by (rule bit_word_eqI) (auto simp: bit_simps dest: bit_imp_le_length)
  have u: "unat (ucast c :: u32) = unat c" for c :: u8
    using unat_u8_less [of c] by (simp add: unsigned_ucast_eq take_bit_eq_mod)
  have lo: "unat (ucast b :: u32) = unat b"
    by (rule u)
  have hi: "unat (push_bit 8 (ucast a) :: u32) = unat a * 256"
    using unat_u8_less [of a] by (simp add: push_bit_eq_mult unat_word_ariths u)
  show ?thesis
    using be_word_less [of a b] by (simp add: disj hi lo unat_word_ariths flip: disjunctive_add_eq_or)
qed

lemma unat_be_last: "unat (push_bit 8 (ucast (a :: u8)) :: u32) = unat a * 256"
  using unat_be_word [of a 0] by simp

lemma unat_cksum_add: "unat (cksum_add d s) = (unat s + word_sum d) mod 2 ^ 32"
proof (induction d s rule: cksum_add.induct)
  case (1 a b ds s)
  then show ?case
    by (simp add: unat_word_ariths unat_be_word mod_simps add.assoc)
next
  case (2 a s)
  then show ?case
    by (simp add: unat_word_ariths unat_be_last)
next
  case (3 s)
  then show ?case
    using unat_u32_less [of s] by simp
qed

text \<open>No carry is lost: the accumulator does not wrap below 128 KiB of data.\<close>

lemma cksum_add_exact:
  assumes "length d \<le> 131071"
  shows "unat (cksum_add d 0) = word_sum d"
proof -
  have "Suc (length d) div 2 \<le> 65536"
    using assms by simp
  then have "word_sum d < 2 ^ 32"
    using word_sum_le [of d] by (simp add: le_less_trans)
  then show ?thesis
    by (simp add: unat_cksum_add)
qed

lemma unat_cksum_fold: "unat (cksum_fold s) = oc_canon (unat s)"
proof (induction s rule: cksum_fold.induct)
  case (1 s)
  show ?case
  proof (cases "s > 0xFFFF")
    case True
    let ?t = "drop_bit 16 s + (s AND 0xFFFF)"
    have "unat ?t mod 65535 = unat s mod 65535" "unat ?t = 0 \<longleftrightarrow> unat s = 0"
      unfolding unat_fold_step by (rule fold_step_mod, rule fold_step_eq_0)
    then have "oc_canon (unat ?t) = oc_canon (unat s)"
      by (rule oc_canon_cong)
    with "1.IH" [OF True] True show ?thesis
      by (simp add: cksum_fold.simps [of s])
  next
    case False
    then have "unat s \<le> 65535"
      by (simp add: word_less_nat_alt not_less)
    with False show ?thesis
      by (simp add: cksum_fold.simps [of s] oc_canon_id)
  qed
qed

section \<open>Agreement with the reference\<close>

text \<open>
  Complement, byte swap and the replacement of 0 by \<^verbatim>\<open>0xffff\<close>, in terms of the folded sum.
\<close>

lemma unat_not_low:
  assumes "unat (f :: u32) \<le> 65535"
  shows "unat (ucast (NOT f) :: u16) = 65535 - unat f"
proof -
  have "unat (ucast (NOT f) :: u16) = unat (NOT f) mod 65536"
    by (simp add: unsigned_ucast_eq take_bit_eq_mod)
  also have "unat (NOT f) = 4294967295 - unat f"
    by (simp only: unat_not_u32)
  also have "(4294967295 - unat f) mod 65536 = 65535 - unat f"
  proof -
    have "4294967295 - unat f = (65535 - unat f) + 65536 * 65535"
      using assms by simp
    then show ?thesis
      using assms by (simp only: mod_mult_self2) simp
  qed
  finally show ?thesis .
qed

definition rfc1071 :: "bytes \<Rightarrow> nat" where
  "rfc1071 d = (let c = 65535 - oc_sum d in if c = 0 then 65535 else c)"

lemma rfc1071_bounds: "0 < rfc1071 d" "rfc1071 d \<le> 65535"
  by (simp_all add: rfc1071_def Let_def)

lemma htons_eq_0 [simp]: "htons w = 0 \<longleftrightarrow> w = 0"
proof -
  have "htons 0 = 0"
    by (simp add: htons_def le16_def)
  then show ?thesis
    by (metis htons_htons)
qed

lemma htons_ones: "htons 0xFFFF = 0xFFFF"
  by (simp add: htons_def le16_def)

lemma cksum_value_eq:
  assumes "length d \<le> 131071"
  shows "cksum_value d = htons (of_nat (rfc1071 d))"
proof -
  let ?f = "cksum_fold (cksum_add d 0)"
  let ?w = "ucast (NOT ?f) :: u16"
  have f: "unat ?f = oc_sum d"
    using assms by (simp add: unat_cksum_fold cksum_add_exact oc_sum_canon)
  then have w: "unat ?w = 65535 - oc_sum d"
    using oc_canon_le by (simp add: unat_not_low oc_sum_canon)
  have "?w = of_nat (65535 - oc_sum d)"
    using w by (metis of_nat_unat ucast_id)
  moreover have "?w = 0 \<longleftrightarrow> 65535 - oc_sum d = 0"
    using w by (metis unat_eq_zero)
  ultimately show ?thesis
    by (auto simp: cksum_value_def rfc1071_def Let_def htons_ones)
qed

lemma unat_cksum_value:
  assumes "length d \<le> 131071"
  shows "unat (ntohs (cksum_value d)) = rfc1071 d"
  using rfc1071_bounds [of d] assms
  by (simp add: cksum_value_eq unat_of_nat take_bit_eq_mod)

section \<open>Sums of concatenations and of patched buffers\<close>

lemma word_sum_append: "even (length a) \<Longrightarrow> word_sum (a @ b) = word_sum a + word_sum b"
  by (induction a rule: word_sum.induct) auto

lemma word_sum_bytes16: "word_sum (bytes16 (htons w)) = unat w"
proof -
  have "unat (ucast (drop_bit 8 w) :: u8) = unat w div 256"
    using unat_u16_less [of w]
    by (simp only: unsigned_ucast_eq unat_drop_bit_eq) (simp add: take_bit_eq_mod drop_bit_eq_div)
  moreover have "unat (ucast w :: u8) = unat w mod 256"
    by (simp add: unsigned_ucast_eq take_bit_eq_mod)
  ultimately show ?thesis
    by (simp add: byte_simps)
qed

lemma word_sum_patch:
  assumes "even off" "even (length v)" "off + length v \<le> length d"
  shows "word_sum (patch off v d) + word_sum (slice off (length v) d) = word_sum d + word_sum v"
proof -
  have "d = take off d @ slice off (length v) d @ drop (off + length v) d"
    by (simp add: slice_def) (metis append_take_drop_id drop_drop add.commute)
  then have "word_sum d = word_sum (take off d) + word_sum (slice off (length v) d)
      + word_sum (drop (off + length v) d)"
    using assms by (metis (no_types, lifting) add.assoc length_slice length_take min.absorb2
        add_leD1 word_sum_append)
  moreover have "word_sum (patch off v d) = word_sum (take off d) + word_sum v
      + word_sum (drop (off + length v) d)"
    using assms by (simp add: patch_def word_sum_append)
  ultimately show ?thesis
    by simp
qed

text \<open>
  A field filled with the checksum of the data in which it was zero makes the one's complement sum
  of the data all ones: the test RFC 1071 prescribes for a receiver.
\<close>

lemma cksum_fills:
  assumes "even off" "off + 2 \<le> length d" "slice off 2 d = [0, 0]" "length d \<le> 131071"
  shows "oc_sum (patch off (bytes16 (cksum_value d)) d) = 65535"
proof -
  let ?c = "rfc1071 d"
  have len: "length (bytes16 (cksum_value d)) = 2"
    by simp
  have "word_sum (bytes16 (cksum_value d)) = ?c"
    using assms(4) word_sum_bytes16 [of "ntohs (cksum_value d)"] by (simp add: unat_cksum_value)
  then have sum: "word_sum (patch off (bytes16 (cksum_value d)) d) = word_sum d + ?c"
    using word_sum_patch [of off "bytes16 (cksum_value d)" d] assms by simp
  have le: "oc_sum d \<le> 65535"
    by (simp add: oc_sum_canon oc_canon_le)
  have "(word_sum d + ?c) mod 65535 = (oc_sum d mod 65535 + ?c) mod 65535"
    by (simp only: oc_sum_canon oc_canon_mod mod_add_left_eq)
  also have "\<dots> = (oc_sum d + ?c) mod 65535"
    by (simp only: mod_add_left_eq)
  also have "\<dots> = 0"
    using le by (cases "oc_sum d = 65535") (simp_all add: rfc1071_def Let_def)
  finally have "oc_canon (word_sum d + ?c) mod 65535 = 0"
    by (simp add: oc_canon_mod)
  moreover have "oc_canon (word_sum d + ?c) \<noteq> 0"
    using rfc1071_bounds [of d] by simp
  ultimately have "oc_canon (word_sum d + ?c) = 65535"
    using oc_canon_le [of "word_sum d + ?c"] mod_less [of "oc_canon (word_sum d + ?c)" 65535]
    by (cases "oc_canon (word_sum d + ?c) < 65535") simp_all
  then show ?thesis
    by (simp add: oc_sum_canon sum)
qed

text \<open>The checksum depends on the sum of the words only, so exchanging words keeps it.\<close>

lemma cksum_value_cong:
  "length d \<le> 131071 \<Longrightarrow> length e \<le> 131071 \<Longrightarrow> word_sum d = word_sum e \<Longrightarrow>
   cksum_value d = cksum_value e"
  by (simp add: cksum_value_eq rfc1071_def oc_sum_canon)

end
