(* ===== verification/C_Text.thy ===== *)
theory C_Text
  imports Prelude
begin

text \<open>
  The parts of the C library that take text apart, as the programs use them: \<^verbatim>\<open>fgets\<close>, \<^verbatim>\<open>strtok\<close> with
  one separator, \<^verbatim>\<open>atoi\<close>, and the conversions \<^verbatim>\<open>%s\<close> and \<^verbatim>\<open>%d\<close> of \<^verbatim>\<open>sscanf\<close>.  Text is a list of character
  codes without its terminator.  A number is read as a \<^verbatim>\<open>long\<close>, which saturates, and then converted
  to \<^verbatim>\<open>int\<close>, as the GNU library does.
\<close>

section \<open>Constants\<close>

text \<open>The character codes of a string constant.\<close>

definition ascii :: "string \<Rightarrow> bytes" where
  "ascii s = map (\<lambda>c. word_of_nat (of_char c)) s"

text \<open>A C string in an array is read up to its terminator, which must be there.\<close>

definition string_at :: "bytes \<Rightarrow> bytes res" where
  "string_at arr = (if 0 \<in> set arr then Inr (cstr arr) else Inl OutOfBounds)"

section \<open>Lines\<close>

text \<open>
  \<^verbatim>\<open>fgets\<close> of a line of at most \<open>n - 1\<close> characters, newline included, into an array.
\<close>

fun fgets_line :: "nat \<Rightarrow> bytes \<Rightarrow> bytes" where
  "fgets_line 0 text = []"
| "fgets_line (Suc n) [] = []"
| "fgets_line (Suc n) (c # text) = (if c = 10 then [c] else c # fgets_line n text)"

lemma fgets_line_take: "10 \<notin> set (take n s) \<Longrightarrow> fgets_line n s = take n s"
  by (induction n s rule: fgets_line.induct) auto

lemma fgets_line_nonempty: "0 < n \<Longrightarrow> s \<noteq> [] \<Longrightarrow> fgets_line n s \<noteq> []"
  by (cases n; cases s) simp_all

lemma fgets_line_newline:
  "10 \<notin> set l \<Longrightarrow> length l < n \<Longrightarrow> fgets_line n (l @ 10 # r) = l @ [10]"
proof (induction l arbitrary: n)
  case Nil
  then show ?case
    by (cases n) simp_all
next
  case (Cons c l)
  then obtain m where "n = Suc m" "length l < m"
    by (cases n) simp_all
  with Cons show ?case
    by simp
qed

text \<open>\<^verbatim>\<open>s[strcspn(s, "\n")] = 0\<close>\<close>

definition cut_line :: "bytes \<Rightarrow> bytes" where
  "cut_line s = takeWhile (\<lambda>c. c \<noteq> 10) (cstr s)"

lemma cut_line_newline: "10 \<notin> set l \<Longrightarrow> 0 \<notin> set l \<Longrightarrow> cut_line (l @ [10]) = l"
  by (induction l) (simp_all add: cut_line_def)

section \<open>Words and numbers\<close>

definition is_space :: "u8 \<Rightarrow> bool" where
  "is_space c \<longleftrightarrow> c = 32 \<or> 9 \<le> c \<and> c \<le> 13"

definition is_digit :: "u8 \<Rightarrow> bool" where
  "is_digit c \<longleftrightarrow> 48 \<le> c \<and> c \<le> 57"

definition digits_value :: "bytes \<Rightarrow> int" where
  "digits_value ds = foldl (\<lambda>n c. 10 * n + (int (unat c) - 48)) 0 ds"

text \<open>An optional sign and at least one digit, after white space.\<close>

definition parse_int :: "bytes \<Rightarrow> (int \<times> bytes) option" where
  "parse_int s =
     (let s1 = dropWhile is_space s;
          neg = (s1 \<noteq> [] \<and> hd s1 = 45);
          s2 = (if s1 \<noteq> [] \<and> (hd s1 = 45 \<or> hd s1 = 43) then tl s1 else s1);
          ds = takeWhile is_digit s2
      in if ds = [] then None
         else Some (if neg then - digits_value ds else digits_value ds, dropWhile is_digit s2))"

definition long_to_int :: "int \<Rightarrow> int" where
  "long_to_int n = sint (word_of_int (max (- (2 ^ 63)) (min (2 ^ 63 - 1) n)) :: u32)"

definition atoi :: "bytes \<Rightarrow> int" where
  "atoi s = (case parse_int s of None \<Rightarrow> 0 | Some (n, _) \<Rightarrow> long_to_int n)"

text \<open>\<^verbatim>\<open>%\<close>\<open>w\<close>\<^verbatim>\<open>s\<close>: at most \<open>w\<close> characters up to white space.\<close>

definition scan_word :: "nat \<Rightarrow> bytes \<Rightarrow> (bytes \<times> bytes) option" where
  "scan_word w s =
     (let s1 = dropWhile is_space s;
          wd = take w (takeWhile (\<lambda>c. \<not> is_space c) s1)
      in if wd = [] then None else Some (wd, drop (length wd) s1))"

text \<open>\<^verbatim>\<open>sscanf(s, "%16s %d %99s", cmd, &n, extra) == 2\<close>\<close>

definition scan_command :: "bytes \<Rightarrow> (bytes \<times> int) option" where
  "scan_command s =
     (case scan_word 16 s of
        None \<Rightarrow> None
      | Some (cmd, r) \<Rightarrow>
        (case parse_int r of
           None \<Rightarrow> None
         | Some (n, r') \<Rightarrow> if scan_word 99 r' = None then Some (cmd, long_to_int n) else None))"

text \<open>\<^verbatim>\<open>strtok(s, " ")\<close>: the spaces skipped, the token, and what the next call goes on with.\<close>

definition strtok_space :: "bytes \<Rightarrow> (bytes \<times> bytes \<times> bytes) option" where
  "strtok_space s =
     (let s1 = dropWhile (\<lambda>c. c = 32) s; tok = takeWhile (\<lambda>c. c \<noteq> 32) s1
      in if tok = [] then None
         else Some (takeWhile (\<lambda>c. c = 32) s, tok, drop (Suc (length tok)) s1))"

section \<open>One digit\<close>

definition digit :: "nat \<Rightarrow> u8" where
  "digit k = word_of_nat (48 + k)"

text \<open>The command \<^verbatim>\<open>MARK\<close>\<open> k\<close>, read back by \<^verbatim>\<open>sscanf\<close> and by \<^verbatim>\<open>strtok\<close> and \<^verbatim>\<open>atoi\<close>.\<close>

definition MARK :: bytes where "MARK = [77, 65, 82, 75]"

definition mark_text :: "nat \<Rightarrow> bytes" where
  "mark_text k = MARK @ [32, digit k]"

lemma mark_text_checked:
  "\<forall>k \<in> set [0..<10]. scan_command (mark_text k) = Some (MARK, int k)
     \<and> strtok_space (mark_text k) = Some ([], MARK, [digit k])
     \<and> strtok_space [digit k] = Some ([], [digit k], []) \<and> atoi [digit k] = int k
     \<and> 10 \<notin> set (mark_text k) \<and> 0 \<notin> set (mark_text k)"
  by code_simp

lemma mark_text_parse:
  assumes "k < 10"
  shows "scan_command (mark_text k) = Some (MARK, int k)"
    "strtok_space (mark_text k) = Some ([], MARK, [digit k])"
    "strtok_space [digit k] = Some ([], [digit k], [])" "atoi [digit k] = int k"
    "10 \<notin> set (mark_text k)" "0 \<notin> set (mark_text k)"
proof -
  have "k \<in> set [0..<10]"
    using assms by simp
  from bspec [OF mark_text_checked this]
  show "scan_command (mark_text k) = Some (MARK, int k)"
    "strtok_space (mark_text k) = Some ([], MARK, [digit k])"
    "strtok_space [digit k] = Some ([], [digit k], [])" "atoi [digit k] = int k"
    "10 \<notin> set (mark_text k)" "0 \<notin> set (mark_text k)"
    by (simp_all only: simp_thms)
qed

lemma length_mark_text [simp]: "length (mark_text k) = 6"
  by (simp add: mark_text_def MARK_def)

end
