(* ===== verification/Inet_Text.thy ===== *)
theory Inet_Text
  imports C_Text
begin

text \<open>
  IP addresses as text: \<^verbatim>\<open>ip_int_to_str\<close> and \<^verbatim>\<open>print_addr_ip_int\<close> of \<^verbatim>\<open>sr_utils.c\<close>, and the library's
  \<^verbatim>\<open>inet_ntoa\<close> and \<^verbatim>\<open>inet_aton\<close> that the routing table's reader and printer call.
\<close>

section \<open>Printing\<close>

text \<open>\<^verbatim>\<open>%d\<close> of a number that is not negative.\<close>

fun dec :: "nat \<Rightarrow> bytes" where
  "dec n = (if n < 10 then [word_of_nat (48 + n)] else dec (n div 10) @ [word_of_nat (48 + n mod 10)])"

declare dec.simps [simp del]

definition print_int :: "int \<Rightarrow> bytes" where
  "print_int n = (if n < 0 then 45 # dec (nat (- n)) else dec (nat n))"

text \<open>The octets the shifts of \<^verbatim>\<open>ip_int_to_str\<close> select, in its order.\<close>

definition ip_octet :: "u32 \<Rightarrow> nat \<Rightarrow> nat" where
  "ip_octet ip k = unat (drop_bit 24 (push_bit (8 * k) ip))"

definition dotted :: "nat \<Rightarrow> nat \<Rightarrow> nat \<Rightarrow> nat \<Rightarrow> bytes" where
  "dotted a b c d = dec a @ 46 # dec b @ 46 # dec c @ 46 # dec d"

definition ip_int_to_str :: "u32 \<Rightarrow> bytes" where
  "ip_int_to_str ip = dotted (ip_octet ip 0) (ip_octet ip 1) (ip_octet ip 2) (ip_octet ip 3)"

definition print_addr_ip_int :: "u32 \<Rightarrow> bytes" where
  "print_addr_ip_int ip =
     dec (ip_octet ip 0) @ [46] @ dec (ip_octet ip 1) @ [46] @ dec (ip_octet ip 2) @ [46]
     @ dec (ip_octet ip 3) @ [10]"

text \<open>\<^verbatim>\<open>inet_ntoa\<close> of an address in network byte order: its bytes as they lie in memory.\<close>

definition inet_ntoa :: "u32 \<Rightarrow> bytes" where
  "inet_ntoa a =
     (let b = bytes32 a in dotted (unat (b ! 0)) (unat (b ! 1)) (unat (b ! 2)) (unat (b ! 3)))"

section \<open>Reading\<close>

definition digit_of :: "u8 \<Rightarrow> nat" where
  "digit_of c =
     (if 48 \<le> c \<and> c \<le> 57 then unat c - 48
      else if 97 \<le> c \<and> c \<le> 102 then unat c - 87
      else if 65 \<le> c \<and> c \<le> 70 then unat c - 55 else 16)"

definition number :: "nat \<Rightarrow> bytes \<Rightarrow> nat" where
  "number b ds = foldl (\<lambda>n c. b * n + digit_of c) 0 ds"

text \<open>\<^verbatim>\<open>strtoul(s, &end, 0)\<close> where \<open>s\<close> starts with a digit: hexadecimal, octal or decimal.\<close>

definition strtoul0 :: "bytes \<Rightarrow> nat \<times> bytes" where
  "strtoul0 s =
     (let scan = (\<lambda>b s. (number b (takeWhile (\<lambda>c. digit_of c < b) s), dropWhile (\<lambda>c. digit_of c < b) s))
      in case s of
           c # x # h # r \<Rightarrow>
             if c = 48 \<and> (x = 120 \<or> x = 88) \<and> digit_of h < 16 then scan 16 (h # r)
             else if c = 48 then scan 8 s else scan 10 s
         | c # r \<Rightarrow> if c = 48 then scan 8 s else scan 10 s
         | [] \<Rightarrow> (0, []))"

text \<open>
  \<^verbatim>\<open>inet_aton\<close>: up to four numbers separated by dots; all but the last below 256, the last within the
  bytes that remain; then the end of the text or white space.
\<close>

fun aton_loop :: "nat \<Rightarrow> nat list \<Rightarrow> bytes \<Rightarrow> nat list option" where
  "aton_loop 0 parts s = None"
| "aton_loop (Suc n) parts s =
     (if s = [] \<or> \<not> is_digit (hd s) then None
      else let (v, r) = strtoul0 s in
        if v > 0xFFFFFFFF then None
        else if r \<noteq> [] \<and> hd r = 46
        then (if v > 255 then None else aton_loop n (parts @ [v]) (tl r))
        else if r \<noteq> [] \<and> \<not> is_space (hd r) then None
        else if v \<ge> 256 ^ (4 - length parts) then None
        else Some (parts @ [v]))"

text \<open>The value in host order: the leading parts are the top bytes, the last fills the rest.\<close>

definition aton_value :: "nat list \<Rightarrow> nat" where
  "aton_value parts =
     foldl (\<lambda>v p. 256 * v + p) 0 (butlast parts) * 256 ^ (5 - length parts) + last parts"

definition inet_aton :: "bytes \<Rightarrow> u32 option" where
  "inet_aton s = map_option (\<lambda>ps. htonl (word_of_nat (aton_value ps))) (aton_loop 4 [] s)"

section \<open>Reading what was printed\<close>

text \<open>A decimal numeral without leading zeros.\<close>

definition numeral_of :: "bytes \<Rightarrow> nat \<Rightarrow> bool" where
  "numeral_of ds n \<longleftrightarrow> ds \<noteq> [] \<and> list_all (\<lambda>c. is_digit c \<and> digit_of c < 10) ds \<and> number 10 ds = n
     \<and> (hd ds = 48 \<longrightarrow> ds = [48])"

lemma digits_checked:
  "\<forall>k \<in> set [0..<10]. is_digit (word_of_nat (48 + k)) \<and> digit_of (word_of_nat (48 + k)) = k
     \<and> (word_of_nat (48 + k) = (48 :: u8) \<longrightarrow> k = 0)"
  by code_simp

lemma digit_facts:
  assumes "k < 10"
  shows "is_digit (word_of_nat (48 + k))" "digit_of (word_of_nat (48 + k)) = k"
    "word_of_nat (48 + k) = (48 :: u8) \<Longrightarrow> k = 0"
proof -
  have "k \<in> set [0..<10]"
    using assms by simp
  from bspec [OF digits_checked this]
  show "is_digit (word_of_nat (48 + k))" "digit_of (word_of_nat (48 + k)) = k"
    "word_of_nat (48 + k) = (48 :: u8) \<Longrightarrow> k = 0"
    by blast+
qed

lemma number_snoc: "number b (ds @ [c]) = b * number b ds + digit_of c"
  by (simp add: number_def)

lemma number_single: "number b [c] = digit_of c"
  by (simp add: number_def)

lemma dec_numeral: "numeral_of (dec n) n \<and> (hd (dec n) = 48 \<longrightarrow> n = 0)"
proof (induction n rule: dec.induct)
  case (1 n)
  show ?case
  proof (cases "n < 10")
    case True
    then show ?thesis
      using digit_facts [OF True] by (auto simp: dec.simps [of n] numeral_of_def number_single)
  next
    case False
    have r: "n mod 10 < 10"
      by simp
    note IH = "1.IH" [OF False]
    have "hd (dec (n div 10)) \<noteq> 48"
      using IH False by auto
    then show ?thesis
      using False IH digit_facts(1,2) [OF r]
      by (simp add: dec.simps [of n] numeral_of_def number_snoc)
  qed
qed

lemma takeWhile_numeral:
  assumes "numeral_of ds n" "r = [] \<or> \<not> digit_of (hd r) < 10"
  shows "takeWhile (\<lambda>c. digit_of c < 10) (ds @ r) = ds" "dropWhile (\<lambda>c. digit_of c < 10) (ds @ r) = r"
proof -
  have all: "\<forall>c \<in> set ds. digit_of c < 10"
    using assms(1) by (auto simp: numeral_of_def list_all_iff)
  have "takeWhile (\<lambda>c. digit_of c < 10) r = []" "dropWhile (\<lambda>c. digit_of c < 10) r = r"
    using assms(2) by (cases r; simp)+
  with all show "takeWhile (\<lambda>c. digit_of c < 10) (ds @ r) = ds"
    "dropWhile (\<lambda>c. digit_of c < 10) (ds @ r) = r"
    by simp_all
qed

lemma strtoul0_decimal:
  assumes "hd s \<noteq> 48" "s \<noteq> []"
  shows "strtoul0 s = (number 10 (takeWhile (\<lambda>c. digit_of c < 10) s), dropWhile (\<lambda>c. digit_of c < 10) s)"
  using assms by (auto simp: strtoul0_def Let_def split: list.split)

text \<open>What ends a numeral in a dotted address: the text, or a dot.\<close>

lemma strtoul0_dec:
  assumes "r = [] \<or> hd r = 46"
  shows "strtoul0 (dec n @ r) = (n, r)"
proof -
  have end10: "r = [] \<or> \<not> digit_of (hd r) < 10"
    using assms by (auto simp: digit_of_def)
  note d = dec_numeral [of n, THEN conjunct1]
  show ?thesis
  proof (cases "hd (dec n) = 48")
    case True
    with dec_numeral [of n] have n: "n = 0" "dec n = [48]"
      by (auto simp: numeral_of_def)
    then show ?thesis
      using assms
      by (cases r) (auto simp: strtoul0_def Let_def number_def digit_of_def split: list.split)
  next
    case False
    moreover have "dec n \<noteq> []"
      using d by (simp add: numeral_of_def)
    ultimately have "hd (dec n @ r) \<noteq> 48" "dec n @ r \<noteq> []"
      by simp_all
    from strtoul0_decimal [OF this] takeWhile_numeral [OF d end10] d show ?thesis
      by (simp add: numeral_of_def)
  qed
qed

lemma dec_head: "dec n \<noteq> []" "is_digit (hd (dec n @ r))"
  using dec_numeral [of n] by (cases "dec n"; simp add: numeral_of_def)+

lemma aton_part:
  assumes "v < 256"
  shows "aton_loop (Suc k) ps (dec v @ 46 # s) = aton_loop k (ps @ [v]) s"
  using assms dec_head [of v] by (simp add: strtoul0_dec)

lemma aton_last:
  assumes "v < 256" "length ps = 3"
  shows "aton_loop (Suc k) ps (dec v) = Some (ps @ [v])"
  using assms dec_head [of v] dec_head(2) [of v "[]"] strtoul0_dec [of "[]" v] by simp

lemma aton_dotted:
  assumes "a < 256" "b < 256" "c < 256" "d < 256"
  shows "aton_loop 4 [] (dotted a b c d) = Some [a, b, c, d]"
proof -
  have "aton_loop (Suc (Suc (Suc (Suc 0)))) [] (dotted a b c d) = Some [a, b, c, d]"
    using assms unfolding dotted_def by (simp add: aton_part aton_last del: aton_loop.simps)
  then show ?thesis
    by (simp add: numeral_eq_Suc del: aton_loop.simps)
qed

text \<open>The address from its bytes.\<close>

lemma ucast_drop_bit:
  assumes "v < 2 ^ 32"
  shows "(ucast (drop_bit k (word_of_nat v :: u32)) :: u8) = word_of_nat (v div 2 ^ k mod 256)"
proof -
  have "unat (word_of_nat v :: u32) = v"
    using assms by (simp add: unat_of_nat)
  with assms have "unat (drop_bit k (word_of_nat v :: u32)) = v div 2 ^ k"
    by (simp only: unsigned_drop_bit_eq take_bit_eq_mod) (simp add: drop_bit_eq_div)
  then show ?thesis
    by (simp add: word_unat_eq_iff unsigned_ucast_eq take_bit_eq_mod unat_of_nat)
qed

lemma htonl_of_octets:
  assumes "a < 256" "b < 256" "c < 256" "d < 256" "v = ((a * 256 + b) * 256 + c) * 256 + d"
  shows "htonl (word_of_nat v) = le32 (word_of_nat a) (word_of_nat b) (word_of_nat c) (word_of_nat d)"
proof -
  have v: "v < 2 ^ 32"
    using assms by simp
  have cut: "(x * 256 + y) div 256 = x" "(x * 256 + y) mod 256 = y" if "y < 256" for x y :: nat
    using that by simp_all
  have split: "v div 2 ^ 8 = v div 256" "v div 2 ^ 16 = v div 256 div 256"
    "v div 2 ^ 24 = v div 256 div 256 div 256"
    by (simp_all flip: div_mult2_eq)
  have "v mod 256 = d" "v div 2 ^ 8 mod 256 = c" "v div 2 ^ 16 mod 256 = b" "v div 2 ^ 24 mod 256 = a"
    unfolding split unfolding assms(5)
    by (simp_all only: cut assms(1-4) mod_less)
  with ucast_drop_bit [OF v, of 0] ucast_drop_bit [OF v, of 8] ucast_drop_bit [OF v, of 16]
    ucast_drop_bit [OF v, of 24] show ?thesis
    by (simp add: htonl_def)
qed

lemma inet_aton_ntoa: "inet_aton (inet_ntoa a) = Some a"
proof -
  obtain p q r s where a: "a = le32 p q r s"
    using le32_bytes32 by metis
  have "aton_loop 4 [] (inet_ntoa a) = Some [unat p, unat q, unat r, unat s]"
    by (simp add: a inet_ntoa_def byte_simps aton_dotted unat_u8_less)
  then show ?thesis
    using htonl_of_octets [OF unat_u8_less unat_u8_less unat_u8_less unat_u8_less refl, of p q r s]
    by (simp add: inet_aton_def aton_value_def a)
qed

text \<open>\<^verbatim>\<open>atoi\<close> of a numeral.\<close>

lemma digits_value_number: "list_all is_digit ds \<Longrightarrow> digits_value ds = int (number 10 ds)"
proof (induction ds rule: rev_induct)
  case (snoc c ds)
  then have "48 \<le> unat c" "digit_of c = unat c - 48"
    by (auto simp: is_digit_def digit_of_def word_le_nat_alt)
  with snoc show ?case
    by (simp add: digits_value_def number_snoc)
qed (simp add: digits_value_def number_def)

lemma dec_digits: "list_all is_digit (dec n)" "number 10 (dec n) = n"
  using dec_numeral [of n] by (auto simp: numeral_of_def list_all_iff)

lemma parse_int_dec: "parse_int (dec n) = Some (int n, [])"
proof -
  obtain c r where d: "dec n = c # r"
    using dec_head by (cases "dec n") blast+
  have all: "takeWhile is_digit (dec n) = dec n" "dropWhile is_digit (dec n) = []"
    using dec_digits(1) [of n] by (auto simp: list_all_iff)
  have "is_digit c"
    using dec_digits(1) [of n] d by simp
  then have "\<not> is_space c" "c \<noteq> 45" "c \<noteq> 43"
    by (auto simp: is_digit_def is_space_def word_le_nat_alt)
  with d have head: "dropWhile is_space (dec n) = dec n" "hd (dec n) \<noteq> 45" "hd (dec n) \<noteq> 43" "dec n \<noteq> []"
    by simp_all
  show ?thesis
    unfolding parse_int_def Let_def head(1) using head(2-4)
    by (simp only: all simp_thms if_False) (simp add: digits_value_number dec_digits)
qed

lemma atoi_dec:
  assumes "n < 2 ^ 31"
  shows "atoi (dec n) = int n"
proof -
  have "long_to_int (int n) = int n"
    using assms int_word_sint [where 'a = 32, of "int n"] by (simp add: long_to_int_def min_def max_def)
  then show ?thesis
    by (simp add: atoi_def parse_int_dec)
qed

end
