(* ===== verification/Routing_File.thy ===== *)
theory Routing_File
  imports Routing Inet_Text
begin

text \<open>
  The routing table as a text file: \<^verbatim>\<open>sr_load_rt\<close> and the printing functions of \<^verbatim>\<open>sr_rt.c\<close>.

  A file is its contents, or \<open>None\<close> when \<^verbatim>\<open>access\<close> denies it.  The four arrays of \<^verbatim>\<open>sr_load_rt\<close> live as
  long as the call: a line with fewer words leaves in the others what the line before left there, and
  what the stack held in the first line.
\<close>

section \<open>Reading\<close>

definition BUFSIZ :: nat where "BUFSIZ = 8192"

text \<open>The texts that repeated calls of \<^verbatim>\<open>fgets\<close> deliver.\<close>

function text_lines :: "bytes \<Rightarrow> bytes list" where
  "text_lines s =
     (if s = [] then []
      else let line = fgets_line (BUFSIZ - 1) s
           in line # text_lines (drop (length line) s))"
  by pat_completeness auto
termination
proof (relation "measure length", goal_cases)
  case (2 s)
  then show ?case
    using fgets_line_nonempty [of "BUFSIZ - 1" s] by (simp add: BUFSIZ_def)
qed simp

declare text_lines.simps [simp del]

text \<open>\<^verbatim>\<open>sscanf\<close> with \<^verbatim>\<open>%s\<close> for each array: it stops at the first word that is missing.\<close>

fun scan_strings :: "bytes \<Rightarrow> bytes list \<Rightarrow> bytes list res" where
  "scan_strings s [] = Inr []"
| "scan_strings s (arr # arrs) =
     (case scan_word (length s) s of
        None \<Rightarrow> Inr (arr # arrs)
      | Some (w, s') \<Rightarrow>
          bindE (store arr 0 (w @ [0])) (\<lambda>arr'.
          bindE (scan_strings s' arrs) (\<lambda>arrs'.
          Inr (arr' # arrs'))))"

definition aton_at :: "bytes \<Rightarrow> u32 option res" where
  "aton_at arr = bindE (string_at arr) (\<lambda>s. Inr (inet_aton s))"

text \<open>
  The loop, with the arrays \<^verbatim>\<open>dest\<close>, \<^verbatim>\<open>gw\<close>, \<^verbatim>\<open>mask\<close> and \<^verbatim>\<open>iface\<close>, the flag \<^verbatim>\<open>clear_routing_table\<close> and the
  table; it returns the result of \<^verbatim>\<open>sr_load_rt\<close> and the table.
\<close>

fun load_rt_loop ::
    "bytes list \<Rightarrow> bool \<Rightarrow> sr_rt list \<Rightarrow> bytes list \<Rightarrow> (int \<times> sr_rt list) res" where
  "load_rt_loop arrays cleared rt [] = Inr (0, rt)"
| "load_rt_loop arrays cleared rt (line # lines) =
     bindE (scan_strings (cstr line) arrays) (\<lambda>arrays.
     bindE (aton_at (arrays ! 0)) (\<lambda>a. case a of None \<Rightarrow> Inr (- 1, rt) | Some dest_addr \<Rightarrow>
     bindE (aton_at (arrays ! 1)) (\<lambda>a. case a of None \<Rightarrow> Inr (- 1, rt) | Some gw_addr \<Rightarrow>
     bindE (aton_at (arrays ! 2)) (\<lambda>a. case a of None \<Rightarrow> Inr (- 1, rt) | Some msk \<Rightarrow>
     load_rt_loop arrays True
       (sr_add_rt_entry (if cleared then rt else []) dest_addr gw_addr msk (arrays ! 3)) lines))))"

definition sr_load_rt :: "bytes option \<Rightarrow> bytes list \<Rightarrow> sr_rt list \<Rightarrow> (int \<times> sr_rt list) res" where
  "sr_load_rt contents stack_arrays rt =
     (case contents of
        None \<Rightarrow> Inr (- 1, rt)
      | Some text \<Rightarrow> load_rt_loop stack_arrays False rt (text_lines text))"

section \<open>Printing\<close>

definition sr_print_routing_entry :: "sr_rt \<Rightarrow> bytes res" where
  "sr_print_routing_entry e =
     bindE (string_at (rt_interface e)) (\<lambda>iface.
     Inr (inet_ntoa (dest e) @ [9, 9] @ inet_ntoa (gw e) @ [9] @ inet_ntoa (mask_addr e) @ [9]
       @ iface @ [10]))"

fun print_entries :: "sr_rt list \<Rightarrow> bytes res" where
  "print_entries [] = Inr []"
| "print_entries (e # es) =
     bindE (sr_print_routing_entry e) (\<lambda>l. bindE (print_entries es) (\<lambda>ls. Inr (l @ ls)))"

definition empty_warning :: bytes where
  "empty_warning = ascii '' *warning* Routing table empty '' @ [10]"

definition table_header :: bytes where
  "table_header =
     ascii ''Destination'' @ [9] @ ascii ''Gateway'' @ [9, 9] @ ascii ''Mask'' @ [9] @ ascii ''Iface'' @ [10]"

definition sr_print_routing_table :: "sr_rt list \<Rightarrow> bytes res" where
  "sr_print_routing_table rt =
     (if rt = [] then Inr empty_warning
      else bindE (print_entries rt) (\<lambda>text. Inr (table_header @ text)))"

section \<open>Lines of words\<close>

definition word_ok :: "bytes \<Rightarrow> bool" where
  "word_ok w \<longleftrightarrow> w \<noteq> [] \<and> length w < 32 \<and> list_all (\<lambda>c. \<not> is_space c \<and> c \<noteq> 0) w"

lemma scan_word_first:
  assumes "w \<noteq> []" "list_all (\<lambda>c. \<not> is_space c) w" "list_all is_space sp" "r = [] \<or> is_space (hd r)"
  shows "scan_word (length (sp @ w @ r)) (sp @ w @ r) = Some (w, r)"
proof -
  have hd: "\<not> is_space (hd w)"
    using assms(1,2) by (cases w) simp_all
  have d: "dropWhile is_space (sp @ w @ r) = w @ r"
    using assms(1,3) hd by (cases w) (simp_all add: dropWhile_append2 list_all_iff)
  have "takeWhile (\<lambda>c. \<not> is_space c) (w @ r) = w"
    using assms(2,4) by (cases r) (simp_all add: takeWhile_append2 list_all_iff)
  then show ?thesis
    using assms(1) d by (simp add: scan_word_def)
qed

lemma is_space_sep [simp]: "is_space 9" "is_space 10"
  by (simp_all add: is_space_def)

lemma scan_strings_word:
  assumes "word_ok w" "list_all is_space sp" "r = [] \<or> is_space (hd r)" "length arr = 32"
  shows "scan_strings (sp @ w @ r) (arr # arrs)
    = bindE (scan_strings r arrs) (\<lambda>as. Inr ((w @ 0 # drop (Suc (length w)) arr) # as))"
proof -
  have w: "w \<noteq> []" "list_all (\<lambda>c. \<not> is_space c) w" "Suc (length w) \<le> length arr"
    using assms(1,4) by (auto simp: word_ok_def list_all_iff)
  show ?thesis
    using scan_word_first [OF w(1,2) assms(2,3)] w(3) by (simp add: patch_def)
qed

lemma cstr_terminated: "0 \<notin> set w \<Longrightarrow> cstr (w @ 0 # x) = w"
  by (induction w) simp_all

lemma string_at_word: "0 \<notin> set w \<Longrightarrow> string_at (w @ 0 # x) = Inr w"
  by (simp add: string_at_def cstr_terminated)

lemma word_no_nul: "word_ok w \<Longrightarrow> 0 \<notin> set w"
  by (auto simp: word_ok_def list_all_iff)

lemma word_no_newline: "word_ok w \<Longrightarrow> 10 \<notin> set w"
  using is_space_sep(2) by (auto simp: word_ok_def list_all_iff)

text \<open>Four words fill the four arrays.\<close>

definition four_arrays :: "bytes list \<Rightarrow> bool" where
  "four_arrays arrays \<longleftrightarrow> length arrays = 4 \<and> list_all (\<lambda>a. length a = 32) arrays"

definition entry_line :: "bytes \<Rightarrow> bytes \<Rightarrow> bytes \<Rightarrow> bytes \<Rightarrow> bytes" where
  "entry_line d g m i = d @ [9, 9] @ g @ [9] @ m @ [9] @ i"

lemma entry_line_no_nul:
  "word_ok d \<Longrightarrow> word_ok g \<Longrightarrow> word_ok m \<Longrightarrow> word_ok i \<Longrightarrow>
   0 \<notin> set (entry_line d g m i) \<and> 10 \<notin> set (entry_line d g m i)
   \<and> length (entry_line d g m i) < BUFSIZ - 1"
  by (auto simp: entry_line_def BUFSIZ_def word_ok_def dest: word_no_nul word_no_newline)
     (auto simp: list_all_iff is_space_def)

lemma scan_four:
  assumes "four_arrays arrays" "word_ok d" "word_ok g" "word_ok m" "word_ok i"
  shows "\<exists>arrays'. scan_strings (entry_line d g m i @ [10]) arrays = Inr arrays' \<and> four_arrays arrays'
    \<and> string_at (arrays' ! 0) = Inr d \<and> string_at (arrays' ! 1) = Inr g
    \<and> string_at (arrays' ! 2) = Inr m \<and> cstr (arrays' ! 3) = i"
proof -
  obtain a b c e where arrays: "arrays = [a, b, c, e]"
    and len: "length a = 32" "length b = 32" "length c = 32" "length e = 32"
    using assms(1) by (auto simp: four_arrays_def eval_nat_numeral length_Suc_conv)
  let ?f = "\<lambda>w x. w @ 0 # drop (Suc (length w)) x"
  have 4: "scan_strings ([9] @ i @ [10]) [e] = Inr [?f i e]"
    using scan_strings_word [OF assms(5), of "[9]" "[10]" e "[]"] len by simp
  have 3: "scan_strings ([9] @ m @ [9] @ i @ [10]) [c, e] = Inr [?f m c, ?f i e]"
    using scan_strings_word [OF assms(4), of "[9]" "[9] @ i @ [10]" c "[e]"] len 4 by simp
  have 2: "scan_strings ([9, 9] @ g @ [9] @ m @ [9] @ i @ [10]) [b, c, e] = Inr [?f g b, ?f m c, ?f i e]"
    using scan_strings_word [OF assms(3), of "[9, 9]" "[9] @ m @ [9] @ i @ [10]" b "[c, e]"] len 3 by simp
  have 1: "scan_strings (entry_line d g m i @ [10]) arrays = Inr [?f d a, ?f g b, ?f m c, ?f i e]"
    using scan_strings_word [OF assms(2), of "[]" "[9, 9] @ g @ [9] @ m @ [9] @ i @ [10]" a "[b, c, e]"]
      len 2 by (simp add: entry_line_def arrays)
  have "length (?f w x) = 32" if "word_ok w" "length x = 32" for w x :: bytes
    using that by (auto simp: word_ok_def)
  moreover have "cstr (?f i e) = i"
    using word_no_nul [OF assms(5)] by (rule cstr_terminated)
  ultimately show ?thesis
    using assms len word_no_nul unfolding 1
    by (intro exI [of _ "[?f d a, ?f g b, ?f m c, ?f i e]"])
       (simp add: four_arrays_def string_at_word)
qed

section \<open>Printed tables\<close>

lemma dec_length: "n < 256 \<Longrightarrow> length (dec n) \<le> 3"
  by (simp add: dec.simps [of n] dec.simps [of "n div 10"] dec.simps [of "n div 10 div 10"])

lemma digit_word: "is_digit c \<Longrightarrow> \<not> is_space c \<and> c \<noteq> 0"
  by (auto simp: is_digit_def is_space_def word_le_nat_alt)

lemma dec_word: "list_all (\<lambda>c. \<not> is_space c \<and> c \<noteq> 0) (dec n)"
  using dec_numeral [of n] digit_word by (auto simp: numeral_of_def list_all_iff)

lemma inet_ntoa_word: "word_ok (inet_ntoa a)"
proof -
  obtain p q r s where b: "bytes32 a = [p, q, r, s]"
    by (simp add: bytes32_def)
  have three: "length (dec (unat x)) \<le> 3" for x :: u8
    using dec_length [OF unat_u8_less] .
  have "length (dotted (unat p) (unat q) (unat r) (unat s)) < 32"
    using three [of p] three [of q] three [of r] three [of s] by (simp add: dotted_def)
  moreover have "list_all (\<lambda>c. \<not> is_space c \<and> c \<noteq> 0) (dotted (unat p) (unat q) (unat r) (unat s))"
    by (simp add: dotted_def dec_word) (simp add: is_space_def)
  moreover have "dotted (unat p) (unat q) (unat r) (unat s) \<noteq> []"
    by (simp add: dotted_def)
  ultimately show ?thesis
    by (simp add: word_ok_def inet_ntoa_def b)
qed

text \<open>A route whose interface name is a word of at most 31 characters, padded with zeros.\<close>

definition route_ok :: "sr_rt \<Rightarrow> bool" where
  "route_ok e \<longleftrightarrow> word_ok (cstr (rt_interface e))
     \<and> rt_interface e = strncpy sr_IFACE_NAMELEN (cstr (rt_interface e))"

lemma print_entry:
  "route_ok e \<Longrightarrow> sr_print_routing_entry e
    = Inr (entry_line (inet_ntoa (dest e)) (inet_ntoa (gw e)) (inet_ntoa (mask_addr e)) (cstr (rt_interface e)) @ [10])"
proof -
  assume ok: "route_ok e"
  then have "length (cstr (rt_interface e)) < 32" "0 \<notin> set (cstr (rt_interface e))"
    by (auto simp: route_ok_def word_ok_def cstr_no_nul)
  moreover from this ok have "rt_interface e = cstr (rt_interface e) @ replicate (32 - length (cstr (rt_interface e))) 0"
    by (simp add: route_ok_def strncpy_def sr_IFACE_NAMELEN_def)
  ultimately have "0 \<in> set (rt_interface e)"
    by (metis Un_iff in_set_replicate set_append zero_less_diff less_numeral_extra(3))
  then show ?thesis
    by (simp add: sr_print_routing_entry_def string_at_def entry_line_def)
qed

lemma text_lines_line:
  "10 \<notin> set l \<Longrightarrow> length l < BUFSIZ - 1 \<Longrightarrow> text_lines (l @ 10 # s) = (l @ [10]) # text_lines s"
  by (simp add: text_lines.simps [of "l @ 10 # s"] fgets_line_newline Let_def)

lemma sr_rt_eta: "\<lparr>dest = dest e, gw = gw e, mask_addr = mask_addr e, rt_interface = rt_interface e\<rparr> = e"
  by (cases e) simp

text \<open>The arrays while they hold the words of an entry.\<close>

definition holds_entry :: "bytes list \<Rightarrow> sr_rt \<Rightarrow> bool" where
  "holds_entry arrays e \<longleftrightarrow> four_arrays arrays \<and> aton_at (arrays ! 0) = Inr (Some (dest e))
     \<and> aton_at (arrays ! 1) = Inr (Some (gw e)) \<and> aton_at (arrays ! 2) = Inr (Some (mask_addr e))
     \<and> strncpy sr_IFACE_NAMELEN (arrays ! 3) = rt_interface e"

lemma scan_entry:
  assumes "route_ok e" "four_arrays arrays"
  shows "\<exists>arrays'. holds_entry arrays' e \<and> scan_strings (entry_line (inet_ntoa (dest e)) (inet_ntoa (gw e))
      (inet_ntoa (mask_addr e)) (cstr (rt_interface e)) @ [10]) arrays = Inr arrays'"
proof -
  have i: "word_ok (cstr (rt_interface e))" "rt_interface e = strncpy sr_IFACE_NAMELEN (cstr (rt_interface e))"
    using assms(1) by (simp_all add: route_ok_def)
  obtain arrays' where a: "scan_strings (entry_line (inet_ntoa (dest e)) (inet_ntoa (gw e))
      (inet_ntoa (mask_addr e)) (cstr (rt_interface e)) @ [10]) arrays = Inr arrays'" "four_arrays arrays'"
    "string_at (arrays' ! 0) = Inr (inet_ntoa (dest e))" "string_at (arrays' ! 1) = Inr (inet_ntoa (gw e))"
    "string_at (arrays' ! 2) = Inr (inet_ntoa (mask_addr e))" "cstr (arrays' ! 3) = cstr (rt_interface e)"
    using scan_four [OF assms(2) inet_ntoa_word inet_ntoa_word inet_ntoa_word i(1)] by blast
  have "strncpy sr_IFACE_NAMELEN (arrays' ! 3) = rt_interface e"
    by (subst i(2)) (simp add: strncpy_def a(6) cstr_no_nul)
  then show ?thesis
    using a(1-5) by (auto simp: holds_entry_def aton_at_def inet_aton_ntoa)
qed

text \<open>A line that leaves the arrays with an entry adds it.\<close>

lemma load_line:
  assumes "scan_strings (cstr line) arrays = Inr arrays'" "holds_entry arrays' e"
  shows "load_rt_loop arrays cleared rt (line # lines) = load_rt_loop arrays' True ((if cleared then rt else []) @ [e]) lines"
  using assms by (simp add: holds_entry_def sr_add_rt_entry_def sr_rt_eta)

text \<open>One printed entry, read back.\<close>

lemma load_entry:
  assumes "route_ok e" "four_arrays arrays"
    "l = entry_line (inet_ntoa (dest e)) (inet_ntoa (gw e)) (inet_ntoa (mask_addr e)) (cstr (rt_interface e))"
  shows "\<exists>arrays'. holds_entry arrays' e \<and> (\<forall>cleared rt s. load_rt_loop arrays cleared rt (text_lines (l @ 10 # s))
    = load_rt_loop arrays' True ((if cleared then rt else []) @ [e]) (text_lines s))"
proof -
  have i: "word_ok (cstr (rt_interface e))"
    using assms(1) by (simp add: route_ok_def)
  note line = entry_line_no_nul [OF inet_ntoa_word inet_ntoa_word inet_ntoa_word i, of "dest e" "gw e" "mask_addr e",
      folded assms(3)]
  obtain arrays' where a: "holds_entry arrays' e" "scan_strings (l @ [10]) arrays = Inr arrays'"
    using scan_entry [OF assms(1,2)] unfolding assms(3) by blast
  have "cstr (l @ [10]) = l @ [10]"
    using line by (intro cstr_idem) simp
  with load_line [OF _ a(1), of "l @ [10]" arrays] a(2) line have "load_rt_loop arrays cleared rt (text_lines (l @ 10 # s))
      = load_rt_loop arrays' True ((if cleared then rt else []) @ [e]) (text_lines s)" for cleared rt s
    by (simp add: text_lines_line del: load_rt_loop.simps)
  with a(1) show ?thesis
    by blast
qed

text \<open>Printed entries followed by more text; the arrays are left with the last entry.\<close>

lemma load_entries:
  assumes "\<forall>e \<in> set es. route_ok e" "four_arrays arrays" "es \<noteq> []"
  shows "\<exists>s arrays'. print_entries es = Inr s \<and> holds_entry arrays' (last es)
    \<and> (\<forall>cleared rt rest. load_rt_loop arrays cleared rt (text_lines (s @ rest))
        = load_rt_loop arrays' True ((if cleared then rt else []) @ es) (text_lines rest))"
  using assms
proof (induction es arbitrary: arrays)
  case (Cons e es)
  let ?l = "entry_line (inet_ntoa (dest e)) (inet_ntoa (gw e)) (inet_ntoa (mask_addr e)) (cstr (rt_interface e))"
  have p: "sr_print_routing_entry e = Inr (?l @ [10])"
    using Cons.prems(1) print_entry [of e] by simp
  obtain arrays1 where a1: "holds_entry arrays1 e"
    "\<And>cleared rt s. load_rt_loop arrays cleared rt (text_lines (?l @ 10 # s))
      = load_rt_loop arrays1 True ((if cleared then rt else []) @ [e]) (text_lines s)"
    using load_entry [of e arrays ?l] Cons.prems by auto
  show ?case
  proof (cases "es = []")
    case True
    then show ?thesis
      using p a1 by auto
  next
    case False
    have "four_arrays arrays1"
      using a1(1) by (simp add: holds_entry_def)
    with Cons.IH [of arrays1] Cons.prems(1) False obtain s arrays' where "print_entries es = Inr s"
      "holds_entry arrays' (last es)" "\<And>cleared rt rest. load_rt_loop arrays1 cleared rt (text_lines (s @ rest))
        = load_rt_loop arrays' True ((if cleared then rt else []) @ es) (text_lines rest)"
      by auto
    then show ?thesis
      using p a1(2) False by (intro exI [of _ "?l @ [10] @ s"] exI [of _ arrays']) simp
  qed
qed simp

lemma load_printed:
  assumes "\<forall>e \<in> set es. route_ok e" "four_arrays arrays"
  shows "\<exists>s. print_entries es = Inr s
    \<and> load_rt_loop arrays cleared rt (text_lines s) = Inr (0, if es = [] then rt else (if cleared then rt else []) @ es)"
proof (cases "es = []")
  case True
  then show ?thesis
    by (simp add: text_lines.simps [of "[]"])
next
  case False
  with load_entries [OF assms False] obtain s arrays' where "print_entries es = Inr s"
    "load_rt_loop arrays cleared rt (text_lines (s @ []))
      = load_rt_loop arrays' True ((if cleared then rt else []) @ es) (text_lines [])"
    by blast
  with False show ?thesis
    by (simp add: text_lines.simps [of "[]"])
qed

text \<open>An empty line.\<close>

lemma load_blank_line:
  assumes "holds_entry arrays e" "four_arrays arrays"
  shows "load_rt_loop arrays True rt (text_lines [10]) = Inr (0, rt @ [e])"
proof -
  have lines: "text_lines [10] = [[10]]"
    using text_lines_line [of "[]" "[]"] by (simp add: BUFSIZ_def text_lines.simps [of "[]"])
  obtain a b c d where "arrays = [a, b, c, d]"
    using assms(2) by (auto simp: four_arrays_def eval_nat_numeral length_Suc_conv)
  then have "scan_strings (cstr [10]) arrays = Inr arrays"
    by (simp add: scan_word_def)
  from load_line [OF this assms(1), of True rt "[]"] lines show ?thesis
    by (simp del: load_rt_loop.simps(2))
qed

end
