(* ===== verification/Diagnostics.thy ===== *)
theory Diagnostics
  imports Protocol Interface Arp_Cache Routing_File
begin

text \<open>
  The printing functions of \<^verbatim>\<open>sr_utils.c\<close> and \<^verbatim>\<open>sr_if.c\<close>, as the text they write; a read outside the
  buffer is a fault.  The Makefile defines \<^verbatim>\<open>_DEBUG_\<close>, so \<^verbatim>\<open>Debug\<close> and \<^verbatim>\<open>DebugMAC\<close> print.
\<close>

section \<open>Fields\<close>

text \<open>\<^verbatim>\<open>%02X\<close> and \<^verbatim>\<open>%02x\<close> of a byte; \<open>letter\<close> is the code of A or a.\<close>

definition hex_digit :: "nat \<Rightarrow> nat \<Rightarrow> u8" where
  "hex_digit letter d = (if d < 10 then word_of_nat (48 + d) else word_of_nat (letter + d - 10))"

definition hex2 :: "nat \<Rightarrow> u8 \<Rightarrow> bytes" where
  "hex2 letter b = [hex_digit letter (unat b div 16), hex_digit letter (unat b mod 16)]"

text \<open>A label and a number on a line of their own.\<close>

definition field :: "string \<Rightarrow> nat \<Rightarrow> bytes" where
  "field label n = [9] @ ascii label @ ascii '': '' @ dec n @ [10]"

definition IP_RF :: u16 where "IP_RF = 0x8000"
definition IP_MF :: u16 where "IP_MF = 0x2000"
definition IP_OFFMASK :: u16 where "IP_OFFMASK = 0x1fff"

section \<open>Headers\<close>

definition ethertype :: "bytes \<Rightarrow> u16 res" where
  "ethertype buf = bindE (read_struct dec_eth sizeof_eth buf 0) (\<lambda>h. Inr (ntohs (ether_type h)))"

definition ip_protocol :: "bytes \<Rightarrow> u8 res" where
  "ip_protocol buf = bindE (read_struct dec_ip sizeof_ip buf 0) (\<lambda>h. Inr (ip_p h))"

fun print_octets :: "nat \<Rightarrow> bytes \<Rightarrow> bytes" where
  "print_octets pos [] = []"
| "print_octets pos (cur # addr) = (if pos > 0 then [58] else []) @ hex2 65 cur @ print_octets (Suc pos) addr"

definition print_addr_eth :: "bytes \<Rightarrow> bytes res" where
  "print_addr_eth addr = bindE (load addr 0 ETHER_ADDR_LEN) (\<lambda>a. Inr (print_octets 0 a @ [10]))"

text \<open>\<^verbatim>\<open>inet_ntop\<close> writes what \<^verbatim>\<open>inet_ntoa\<close> returns, and does not fail for an IPv4 address.\<close>

definition print_addr_ip :: "u32 \<Rightarrow> bytes" where
  "print_addr_ip address = inet_ntoa address @ [10]"

definition print_hdr_eth :: "bytes \<Rightarrow> bytes res" where
  "print_hdr_eth buf =
     bindE (read_struct dec_eth sizeof_eth buf 0) (\<lambda>ehdr.
     bindE (print_addr_eth (ether_dhost ehdr)) (\<lambda>d.
     bindE (print_addr_eth (ether_shost ehdr)) (\<lambda>s.
     Inr (ascii ''ETHERNET header:'' @ [10] @ [9] @ ascii ''destination: '' @ d @ [9] @ ascii ''source: '' @ s
       @ field ''type'' (unat (ntohs (ether_type ehdr)))))))"

definition fragment_flag :: "u16 \<Rightarrow> bytes" where
  "fragment_flag off =
     (if off AND IP_DF \<noteq> 0 then [9] @ ascii ''fragment flag: DF'' @ [10]
      else if off AND IP_MF \<noteq> 0 then [9] @ ascii ''fragment flag: MF'' @ [10]
      else if off AND IP_RF \<noteq> 0 then [9] @ ascii ''fragment flag: R'' @ [10] else [])"

definition print_hdr_ip :: "bytes \<Rightarrow> bytes res" where
  "print_hdr_ip buf =
     bindE (read_struct dec_ip sizeof_ip buf 0) (\<lambda>iphdr.
     Inr (ascii ''IP header:'' @ [10]
       @ field ''version'' (unat (ip_v iphdr))
       @ field ''header length'' (unat (ip_hl iphdr))
       @ field ''type of service'' (unat (ip_tos iphdr))
       @ field ''length'' (unat (ntohs (ip_len iphdr)))
       @ field ''id'' (unat (ntohs (ip_id iphdr)))
       @ fragment_flag (ntohs (ip_off iphdr))
       @ field ''fragment offset'' (unat (ntohs (ip_off iphdr) AND IP_OFFMASK))
       @ field ''TTL'' (unat (ip_ttl iphdr))
       @ field ''protocol'' (unat (ip_p iphdr))
       @ field ''checksum'' (unat (ip_sum iphdr))
       @ [9] @ ascii ''source: '' @ print_addr_ip_int (ntohl (ip_src iphdr))
       @ [9] @ ascii ''destination: '' @ print_addr_ip_int (ntohl (ip_dst iphdr))))"

definition print_hdr_icmp :: "bytes \<Rightarrow> bytes res" where
  "print_hdr_icmp buf =
     bindE (read_struct dec_icmp sizeof_icmp buf 0) (\<lambda>icmp_hdr.
     Inr (ascii ''ICMP header:'' @ [10]
       @ field ''type'' (unat (icmp_type icmp_hdr))
       @ field ''code'' (unat (icmp_code icmp_hdr))
       @ field ''checksum'' (unat (icmp_sum icmp_hdr))))"

definition print_hdr_arp :: "bytes \<Rightarrow> bytes res" where
  "print_hdr_arp buf =
     bindE (read_struct dec_arp sizeof_arp buf 0) (\<lambda>arp_hdr.
     bindE (print_addr_eth (ar_sha arp_hdr)) (\<lambda>sha.
     bindE (print_addr_eth (ar_tha arp_hdr)) (\<lambda>tha.
     Inr (ascii ''ARP header'' @ [10]
       @ field ''hardware type'' (unat (ntohs (ar_hrd arp_hdr)))
       @ field ''protocol type'' (unat (ntohs (ar_pro arp_hdr)))
       @ field ''hardware address length'' (unat (ar_hln arp_hdr))
       @ field ''protocol address length'' (unat (ar_pln arp_hdr))
       @ field ''opcode'' (unat (ntohs (ar_op arp_hdr)))
       @ [9] @ ascii ''sender hardware address: '' @ sha
       @ [9] @ ascii ''sender ip address: '' @ print_addr_ip_int (ntohl (ar_sip arp_hdr))
       @ [9] @ ascii ''target hardware address: '' @ tha
       @ [9] @ ascii ''target ip address: '' @ print_addr_ip_int (ntohl (ar_tip arp_hdr))))))"

definition too_short :: "string \<Rightarrow> bytes" where
  "too_short what = ascii ''Failed to print '' @ ascii what @ ascii '' header, insufficient length'' @ [10]"

text \<open>All headers of a frame of \<open>len\<close> bytes, each after its length is checked.\<close>

definition print_hdrs :: "bytes \<Rightarrow> nat \<Rightarrow> bytes res" where
  "print_hdrs buf len =
     (if len < sizeof_eth then Inr (too_short ''ETHERNET'')
      else
        bindE (ethertype buf) (\<lambda>ethtype.
        bindE (print_hdr_eth buf) (\<lambda>out.
        if ethtype = ethertype_ip
        then
          if len < sizeof_eth + sizeof_ip then Inr (out @ too_short ''IP'')
          else
            bindE (print_hdr_ip (drop sizeof_eth buf)) (\<lambda>ip.
            bindE (ip_protocol (drop sizeof_eth buf)) (\<lambda>ip_proto.
            if ip_proto = ip_protocol_icmp
            then
              if len < sizeof_eth + sizeof_ip + sizeof_icmp then Inr (out @ ip @ too_short ''ICMP'')
              else bindE (print_hdr_icmp (drop (sizeof_eth + sizeof_ip) buf)) (\<lambda>icmp. Inr (out @ ip @ icmp))
            else Inr (out @ ip)))
        else if ethtype = ethertype_arp
        then
          if len < sizeof_eth + sizeof_arp then Inr (out @ too_short ''ARP'')
          else bindE (print_hdr_arp (drop sizeof_eth buf)) (\<lambda>arp. Inr (out @ arp))
        else Inr (out @ ascii ''Unrecognized Ethernet Type: '' @ dec (unat ethtype) @ [10]))))"

section \<open>Interfaces\<close>

text \<open>\<^verbatim>\<open>DebugMAC\<close>: colons between the octets.\<close>

definition debug_mac :: "bytes \<Rightarrow> bytes res" where
  "debug_mac x =
     bindE (load x 0 6) (\<lambda>a. Inr (concat (map (\<lambda>b. hex2 97 b @ [58]) (take 5 a)) @ hex2 97 (a ! 5)))"

definition sr_print_if :: "sr_if \<Rightarrow> bytes res" where
  "sr_print_if iface =
     bindE (string_at (if_name iface)) (\<lambda>name.
     bindE (debug_mac (if_addr iface)) (\<lambda>mac.
     Inr (name @ [9] @ ascii ''HWaddr'' @ mac @ [10]
       @ [9] @ ascii ''inet addr '' @ inet_ntoa (if_ip iface) @ [10])))"

fun print_ifs :: "sr_if list \<Rightarrow> bytes res" where
  "print_ifs [] = Inr []"
| "print_ifs (i # is) = bindE (sr_print_if i) (\<lambda>s. bindE (print_ifs is) (\<lambda>rest. Inr (s @ rest)))"

definition sr_print_if_list :: "sr_if list \<Rightarrow> bytes res" where
  "sr_print_if_list is = (if is = [] then Inr (ascii '' Interface list empty '' @ [10]) else print_ifs is)"

section \<open>The ARP cache\<close>

text \<open>
  \<^verbatim>\<open>sr_arpcache_dump\<close>: \<^verbatim>\<open>%x\<close> with a least number of digits, the time as the library's \<^verbatim>\<open>ctime\<close> gives it.
\<close>

fun hex_lower :: "nat \<Rightarrow> bytes" where
  "hex_lower n = (if n < 16 then [hex_digit 97 n] else hex_lower (n div 16) @ [hex_digit 97 (n mod 16)])"

declare hex_lower.simps [simp del]

definition hex_field :: "nat \<Rightarrow> nat \<Rightarrow> bytes" where
  "hex_field k n = replicate (k - length (hex_lower n)) 48 @ hex_lower n"

definition dump_mac :: "bytes \<Rightarrow> bytes" where
  "dump_mac mac = concat (map (\<lambda>k. hex_field 1 (unat (mac ! k))) [0..<6])"

definition dump_entry :: "(int \<Rightarrow> bytes) \<Rightarrow> sr_arpentry \<Rightarrow> bytes" where
  "dump_entry ctime cur = dump_mac (en_mac cur) @ ascii ''   '' @ hex_field 8 (unat (ntohl (en_ip cur)))
     @ ascii ''   '' @ take 24 (ctime (en_added cur)) @ ascii ''   '' @ print_int (en_valid cur) @ [10]"

definition sr_arpcache_dump :: "(int \<Rightarrow> bytes) \<Rightarrow> sr_arpcache \<Rightarrow> bytes" where
  "sr_arpcache_dump ctime c =
     [10] @ ascii ''MAC            IP         ADDED                      VALID'' @ [10]
     @ ascii ''-----------------------------------------------------------'' @ [10]
     @ concat (map (\<lambda>i. dump_entry ctime (entries c ! i)) [0..<SR_ARPCACHE_SZ]) @ [10]"

text \<open>The octets of an address are printed without leading zeros or separators: two addresses look the same.\<close>

lemma dump_mac_ambiguous:
  "dump_mac [0x01, 0x12, 0, 0, 0, 0] = dump_mac [0x11, 0x02, 0, 0, 0, 0]"
  by code_simp

section \<open>Nothing is read outside the frame\<close>

lemma print_addr_eth_ok: "length a = 6 \<Longrightarrow> \<exists>s. print_addr_eth a = Inr s"
  by (simp add: print_addr_eth_def proto_consts)

lemma print_hdr_eth_ok: "sizeof_eth \<le> length b \<Longrightarrow> \<exists>s. print_hdr_eth b = Inr s"
  by (auto simp: print_hdr_eth_def read_struct_Inr dec_eth_def print_addr_eth_def proto_consts
      length_slice sizeof_eth_def)

lemma print_hdr_ip_ok: "sizeof_ip \<le> length b \<Longrightarrow> \<exists>s. print_hdr_ip b = Inr s"
  by (simp add: print_hdr_ip_def read_struct_Inr)

lemma print_hdr_icmp_ok: "sizeof_icmp \<le> length b \<Longrightarrow> \<exists>s. print_hdr_icmp b = Inr s"
  by (simp add: print_hdr_icmp_def read_struct_Inr)

lemma print_hdr_arp_ok: "sizeof_arp \<le> length b \<Longrightarrow> \<exists>s. print_hdr_arp b = Inr s"
  by (auto simp: print_hdr_arp_def read_struct_Inr dec_arp_def print_addr_eth_def proto_consts
      length_slice sizeof_arp_def)

text \<open>Interfaces whose names have a terminator can be printed.\<close>

definition printable :: "sr_if list \<Rightarrow> bool" where
  "printable is \<longleftrightarrow> (\<forall>i \<in> set is. 0 \<in> set (if_name i) \<and> 6 \<le> length (if_addr i))"

lemma print_if_list_ok:
  assumes "printable is"
  shows "\<exists>s. sr_print_if_list is = Inr s"
proof -
  have "\<exists>s. sr_print_if i = Inr s" if "i \<in> set is" for i
    using assms that by (auto simp: printable_def sr_print_if_def string_at_def debug_mac_def)
  then have "\<exists>s. print_ifs is = Inr s"
    by (induction "is") fastforce+
  then show ?thesis
    by (simp add: sr_print_if_list_def)
qed

lemma unterminated_name_faults:
  "i \<in> set is \<Longrightarrow> 0 \<notin> set (if_name i) \<Longrightarrow> \<exists>f. sr_print_if_list is = Inl f"
proof (induction "is")
  case (Cons j "is")
  have "\<exists>f. print_ifs (j # is) = Inl f"
  proof (cases "i = j")
    case True
    with Cons.prems show ?thesis
      by (simp add: sr_print_if_def string_at_def)
  next
    case False
    then have "\<exists>f. print_ifs is = Inl f"
      using Cons by (auto simp: sr_print_if_list_def split: if_splits)
    then show ?thesis
      by (cases "sr_print_if j") auto
  qed
  then show ?case
    by (simp add: sr_print_if_list_def)
qed simp

lemma header_fields_ok:
  "sizeof_eth \<le> length b \<Longrightarrow> \<exists>x. ethertype b = Inr x" "sizeof_ip \<le> length b \<Longrightarrow> \<exists>y. ip_protocol b = Inr y"
  by (simp_all add: ethertype_def ip_protocol_def read_struct_Inr)

text \<open>
  C40. \<^verbatim>\<open>print_hdrs\<close>, given a length the buffer really has, reads nothing outside the buffer, whatever
  the frame claims to be.
\<close>

theorem print_hdrs_stays_inside:
  assumes "len \<le> length buf"
  shows "\<exists>s. print_hdrs buf len = Inr s"
proof (cases "len < sizeof_eth")
  case False
  then obtain x out where e: "ethertype buf = Inr x" "print_hdr_eth buf = Inr out"
    using assms header_fields_ok(1) [of buf] print_hdr_eth_ok [of buf] by auto
  let ?ip = "drop sizeof_eth buf" and ?icmp = "drop (sizeof_eth + sizeof_ip) buf"
  have "\<exists>s y. print_hdr_ip ?ip = Inr s \<and> ip_protocol ?ip = Inr y" if "sizeof_eth + sizeof_ip \<le> len"
    using that assms print_hdr_ip_ok [of ?ip] header_fields_ok(2) [of ?ip] by auto
  moreover have "\<exists>s. print_hdr_icmp ?icmp = Inr s" if "sizeof_eth + sizeof_ip + sizeof_icmp \<le> len"
    using that assms print_hdr_icmp_ok [of ?icmp] by auto
  moreover have "\<exists>s. print_hdr_arp ?ip = Inr s" if "sizeof_eth + sizeof_arp \<le> len"
    using that assms print_hdr_arp_ok [of ?ip] by auto
  ultimately show ?thesis
    using e by (auto simp: print_hdrs_def)
qed (simp add: print_hdrs_def)

lemma print_hdrs_stays_inside_witness: "\<exists>s. print_hdrs (replicate 60 8) 60 = Inr s"
  by (rule print_hdrs_stays_inside) simp

section \<open>Addresses as text\<close>

text \<open>
  \<^verbatim>\<open>ip_int_to_str\<close> writes an address, given in host order, as the library reads it: \<^verbatim>\<open>inet_aton\<close> of
  the text is the address in network order; \<^verbatim>\<open>print_addr_ip_int\<close> prints the same text.
\<close>

lemma ip_int_to_str_is_read_back:
  "inet_aton (ip_int_to_str ip) = Some (htonl ip) \<and> print_addr_ip_int ip = ip_int_to_str ip @ [10]"
proof -
  have byte: "ip_octet ip k = unat (ucast (drop_bit (24 - 8 * k) ip) :: u8)" if "k \<in> {0, 1, 2, 3}" for k
  proof -
    have "drop_bit 24 (push_bit (8 * k) ip) = ucast (ucast (drop_bit (24 - 8 * k) ip) :: u8)"
      using that by (intro bit_word_eqI) (auto simp: bit_simps)
    then show ?thesis
      by (simp add: ip_octet_def unsigned_ucast_eq unsigned_take_bit_eq)
  qed
  have "ip_int_to_str ip = inet_ntoa (htonl ip)"
    by (simp add: ip_int_to_str_def inet_ntoa_def byte bytes32_htonl Let_def)
  then show ?thesis
    by (simp add: inet_aton_ntoa print_addr_ip_int_def ip_int_to_str_def dotted_def)
qed

end
