(* ===== verification/Router.thy ===== *)
theory Router
  imports Instance Checksum Diagnostics
begin

text \<open>
  The packet handlers of \<^verbatim>\<open>sr_router.c\<close> and the request handling of \<^verbatim>\<open>sr_arpcache.c\<close> that calls
  back into them.  A frame is its bytes; every access goes through the header casts of \<open>Protocol\<close>
  at the offsets of the code, re-read where the code re-reads, so that a header that overlaps
  another behaves as it does in memory.

  \<^verbatim>\<open>send_icmp_msg\<close> and \<^verbatim>\<open>handle_arpreq\<close> call each other.  Each is defined over the other as an
  argument, and \<open>handle_arpreq\<close> ties the knot with the depth of the call stack: at depth 0 the
  call overflows the stack.  \<open>handlepacket_returns\<close> shows that depth 1 is enough unless a request is due for
  its fifth retry.

  \<^verbatim>\<open>printf\<close> and \<^verbatim>\<open>print_hdr_ip\<close> output is left out.  \<^verbatim>\<open>time\<close> is \<open>clock_sec\<close>, constant during one
  call of a handler.
\<close>

section \<open>Sending through the ARP cache\<close>

text \<open>
  The block that ends \<^verbatim>\<open>sr_forward_ip_packet\<close> and both branches of \<^verbatim>\<open>send_icmp_msg\<close>: if the next
  hop is in the ARP cache, fill in the Ethernet addresses and send; otherwise queue the frame and
  handle the request.  \<open>interface\<close> is the result of \<^verbatim>\<open>sr_get_interface\<close>; both branches follow the
  pointer.
\<close>

definition set_ether_addrs :: "bytes \<Rightarrow> bytes \<Rightarrow> bytes \<Rightarrow> bytes res" where
  "set_ether_addrs packet dhost shost =
     bindE (read_eth packet) (\<lambda>eth_hdr.
       write_eth packet (eth_hdr\<lparr>ether_dhost := dhost, ether_shost := shost\<rparr>))"

definition send_or_queue ::
    "(sr_instance \<Rightarrow> nat \<Rightarrow> sr_instance res) \<Rightarrow> sr_instance \<Rightarrow> bytes \<Rightarrow> nat \<Rightarrow> u32 \<Rightarrow> sr_if option
      \<Rightarrow> sr_instance res" where
  "send_or_queue harq sr packet len next_hop_ip interface =
     (case interface of
        None \<Rightarrow> Inl NullDeref
      | Some i \<Rightarrow>
        (case sr_arpcache_lookup (cache sr) next_hop_ip of
           Some arp_entry \<Rightarrow>
             bindE (set_ether_addrs packet (en_mac arp_entry) (if_addr i)) (\<lambda>p.
             bindE (sr_send_packet sr p len (if_name i)) (\<lambda>(_, sr').
             Inr sr'))
         | None \<Rightarrow>
             bindE (sr_arpcache_queuereq (cache sr) next_hop_ip packet len (if_name i)) (\<lambda>(c, arp_req).
             harq (sr\<lparr>cache := c\<rparr>) arp_req)))"

section \<open>ICMP messages\<close>

text \<open>
  The echo reply is made in the received frame: addresses zeroed, IP addresses exchanged, ICMP type
  and code set, ICMP checksum computed over the length the IP header claims.
\<close>

definition echo_reply_packet :: "bytes \<Rightarrow> u8 \<Rightarrow> u8 \<Rightarrow> bytes res" where
  "echo_reply_packet packet type code =
     bindE (set_ether_addrs packet (replicate ETHER_ADDR_LEN 0) (replicate ETHER_ADDR_LEN 0)) (\<lambda>p.
     bindE (read_ip p) (\<lambda>ip_hdr.
     bindE (write_ip p (ip_hdr\<lparr>ip_dst := ip_src ip_hdr, ip_src := ip_dst ip_hdr\<rparr>)) (\<lambda>p.
     let icmp_off = sizeof_eth + ip_hdr_bytes ip_hdr in
     bindE (write_struct enc_icmp p icmp_off \<lparr>icmp_type = type, icmp_code = code, icmp_sum = 0\<rparr>) (\<lambda>p.
     bindE (read_ip p) (\<lambda>ip_hdr.
     bindE (cksum (drop icmp_off p)
              (int (unat (ntohs (ip_len ip_hdr))) - int (ip_hdr_bytes ip_hdr))) (\<lambda>sum.
     bindE (read_struct dec_icmp sizeof_icmp p icmp_off) (\<lambda>icmp_hdr.
     write_struct enc_icmp p icmp_off (icmp_hdr\<lparr>icmp_sum := sum\<rparr>))))))))"

text \<open>
  The error message is a new frame of \<open>new_len\<close> bytes of fresh memory: Ethernet header, IP header
  with the length of the original's header, type 3 ICMP header quoting 28 bytes of the original
  datagram.
\<close>

definition icmp_new_len :: "sr_ip_hdr \<Rightarrow> nat" where
  "icmp_new_len ip_hdr = sizeof_eth + ip_hdr_bytes ip_hdr + sizeof_icmp_t3"

definition icmp_error_ip :: "sr_ip_hdr \<Rightarrow> u8 \<Rightarrow> sr_if \<Rightarrow> sr_ip_hdr" where
  "icmp_error_ip ip_hdr code interface =
     \<lparr>ip_hl = ip_hl ip_hdr, ip_v = 4, ip_tos = 0,
      ip_len = htons (word_of_nat (ip_hdr_bytes ip_hdr + sizeof_icmp_t3)),
      ip_id = htons 0, ip_off = htons IP_DF, ip_ttl = 255, ip_p = ip_protocol_icmp, ip_sum = 0,
      ip_src = (if code = icmp_dest_unreachable_port then ip_dst ip_hdr else if_ip interface),
      ip_dst = ip_src ip_hdr\<rparr>"

definition icmp_error_packet :: "bytes \<Rightarrow> bytes \<Rightarrow> u8 \<Rightarrow> u8 \<Rightarrow> sr_ip_hdr \<Rightarrow> sr_if \<Rightarrow> bytes res" where
  "icmp_error_packet new_packet packet type code ip_hdr interface =
     bindE (write_eth new_packet
              \<lparr>ether_dhost = replicate ETHER_ADDR_LEN 0, ether_shost = replicate ETHER_ADDR_LEN 0,
               ether_type = htons ethertype_ip\<rparr>) (\<lambda>p.
     let new_ip_hdr = icmp_error_ip ip_hdr code interface;
         icmp_off = sizeof_eth + ip_hdr_bytes ip_hdr in
     bindE (write_ip p new_ip_hdr) (\<lambda>p.
     bindE (cksum (drop sizeof_eth p) (int (ip_hdr_bytes ip_hdr))) (\<lambda>sum.
     bindE (write_ip p (new_ip_hdr\<lparr>ip_sum := sum\<rparr>)) (\<lambda>p.
     bindE (load packet sizeof_eth ICMP_DATA_SIZE) (\<lambda>d.
     let icmp_hdr = \<lparr>icmp_type = type, icmp_code = code, icmp_sum = 0, unused = 0, next_mtu = 0,
                     icmp_data = d\<rparr> in
     bindE (write_struct enc_icmp_t3 p icmp_off icmp_hdr) (\<lambda>p.
     bindE (cksum (drop icmp_off p) (int sizeof_icmp_t3)) (\<lambda>icmp_ck.
     write_struct enc_icmp_t3 p icmp_off (icmp_hdr\<lparr>icmp_sum := icmp_ck\<rparr>))))))))"

text \<open>
  \<^verbatim>\<open>send_icmp_msg\<close> prints before it does anything else: the frame as if it were an IP header, an address,
  and the interfaces.
\<close>

definition send_icmp_body ::
    "(sr_instance \<Rightarrow> nat \<Rightarrow> sr_instance res) \<Rightarrow> sr_instance \<Rightarrow> bytes \<Rightarrow> nat \<Rightarrow> u8 \<Rightarrow> u8
      \<Rightarrow> sr_instance res" where
  "send_icmp_body harq sr packet len type code =
     bindE (print_hdr_ip packet) (\<lambda>_.
     bindE (read_ip packet) (\<lambda>ip_hdr.
     bindE (sr_print_if_list (if_list sr)) (\<lambda>_.
     case longest_prefix_matching (routing_table sr) (ip_src ip_hdr) of
       None \<Rightarrow> Inr sr
     | Some rt_entry \<Rightarrow>
       (let interface = sr_get_interface (if_list sr) (rt_interface rt_entry) in
        if type = icmp_type_echo_reply
        then bindE (echo_reply_packet packet type code) (\<lambda>p.
             send_or_queue harq sr p len (gw rt_entry) interface)
        else if type = icmp_type_time_exceeded \<or> type = icmp_type_dest_unreachable
        then (case interface of
                None \<Rightarrow> Inl NullDeref
              | Some i \<Rightarrow>
                bindE (icmp_error_packet (heap_junk sr (icmp_new_len ip_hdr)) packet type code ip_hdr i)
                  (\<lambda>new_packet.
                send_or_queue harq sr new_packet (icmp_new_len ip_hdr) (gw rt_entry) interface))
        else Inr sr))))"

section \<open>ARP requests\<close>

definition arp_header_init :: "bytes \<Rightarrow> u16 \<Rightarrow> bytes res" where
  "arp_header_init arpreq opcode =
     bindE (read_arp arpreq) (\<lambda>h.
     write_arp arpreq
       (h\<lparr>ar_hrd := htons arp_hrd_ethernet, ar_pro := htons ethertype_ip,
          ar_hln := word_of_nat ETHER_ADDR_LEN, ar_pln := 4,
          ar_op := (if opcode = arp_op_request then htons arp_op_request
                    else if opcode = arp_op_reply then htons arp_op_reply else ar_op h)\<rparr>))"

definition arp_request_packet :: "bytes \<Rightarrow> sr_if \<Rightarrow> u32 \<Rightarrow> bytes res" where
  "arp_request_packet arpreq interface ip =
     bindE (write_eth arpreq
              \<lparr>ether_dhost = replicate ETHER_ADDR_LEN 0xFF, ether_shost = if_addr interface,
               ether_type = htons ethertype_arp\<rparr>) (\<lambda>p.
     bindE (arp_header_init p arp_op_request) (\<lambda>p.
     bindE (read_arp p) (\<lambda>h.
     write_arp p (h\<lparr>ar_tha := replicate ETHER_ADDR_LEN 0, ar_tip := ip, ar_sha := if_addr interface,
                    ar_sip := if_ip interface\<rparr>))))"

text \<open>
  The loop over the packets waiting on an expired request.  \<^verbatim>\<open>free(packet); packet = packet->next\<close>
  reads the node it has just freed, whatever follows in the list.
\<close>

fun host_unreachable_loop ::
    "(sr_instance \<Rightarrow> bytes \<Rightarrow> nat \<Rightarrow> u8 \<Rightarrow> u8 \<Rightarrow> sr_instance res) \<Rightarrow> sr_instance \<Rightarrow> sr_packet list
      \<Rightarrow> sr_instance res" where
  "host_unreachable_loop sicmp sr [] = Inr sr"
| "host_unreachable_loop sicmp sr (packet # packets) =
     bindE (sicmp sr (pk_buf packet) (pk_len packet) icmp_type_dest_unreachable
              icmp_dest_unreachable_host) (\<lambda>sr'.
     Inl UseAfterFree)"

definition handle_arpreq_body ::
    "(sr_instance \<Rightarrow> bytes \<Rightarrow> nat \<Rightarrow> u8 \<Rightarrow> u8 \<Rightarrow> sr_instance res) \<Rightarrow> sr_instance \<Rightarrow> nat
      \<Rightarrow> sr_instance res" where
  "handle_arpreq_body sicmp sr req =
     (case deref_req (requests (cache sr)) req of
        None \<Rightarrow> Inl UseAfterFree
      | Some request \<Rightarrow>
        if clock_sec sr - rq_sent request > 1
        then if rq_times_sent request \<ge> 5
             then bindE (host_unreachable_loop sicmp sr (rq_packets request)) (\<lambda>sr'.
                  Inr (sr'\<lparr>cache := sr_arpreq_destroy (cache sr') req\<rparr>))
             else (case rq_packets request of
                     [] \<Rightarrow> Inl NullDeref
                   | packet # _ \<Rightarrow>
                     (case sr_get_interface (if_list sr) (pk_iface packet) of
                        None \<Rightarrow> Inr sr
                      | Some interface \<Rightarrow>
                        (let len = sizeof_eth + sizeof_arp in
                         bindE (arp_request_packet (heap_junk sr len) interface (rq_ip request)) (\<lambda>arpreq.
                         bindE (sr_send_packet sr arpreq len (if_name interface)) (\<lambda>(_, sr').
                         Inr (sr'\<lparr>cache := update_req req
                                (\<lambda>r. r\<lparr>rq_sent := clock_sec sr, rq_times_sent := rq_times_sent r + 1\<rparr>)
                                (cache sr')\<rparr>))))))
        else Inr sr)"

primrec handle_arpreq :: "nat \<Rightarrow> sr_instance \<Rightarrow> nat \<Rightarrow> sr_instance res" where
  "handle_arpreq 0 = (\<lambda>sr req. Inl StackOverflow)"
| "handle_arpreq (Suc depth) = handle_arpreq_body (send_icmp_body (handle_arpreq depth))"

definition send_icmp_msg ::
    "nat \<Rightarrow> sr_instance \<Rightarrow> bytes \<Rightarrow> nat \<Rightarrow> u8 \<Rightarrow> u8 \<Rightarrow> sr_instance res" where
  "send_icmp_msg depth = send_icmp_body (handle_arpreq depth)"

text \<open>
  \<^verbatim>\<open>sr_arpcache_sweepreqs\<close> walks the queue and reads the \<^verbatim>\<open>next\<close> pointer of a node before handling
  it; \<open>next_req\<close> is that pointer.  The fuel bounds the number of nodes visited.
\<close>

fun next_req :: "sr_arpreq list \<Rightarrow> nat \<Rightarrow> nat option" where
  "next_req [] p = None"
| "next_req (r # rs) p =
     (if rq_ptr r = p then (case rs of [] \<Rightarrow> None | r' # _ \<Rightarrow> Some (rq_ptr r')) else next_req rs p)"

fun sweep_loop :: "nat \<Rightarrow> nat \<Rightarrow> sr_instance \<Rightarrow> nat option \<Rightarrow> sr_instance res" where
  "sweep_loop depth fuel sr None = Inr sr"
| "sweep_loop depth 0 sr (Some p) = Inl NoFuel"
| "sweep_loop depth (Suc fuel) sr (Some p) =
     (case deref_req (requests (cache sr)) p of
        None \<Rightarrow> Inl UseAfterFree
      | Some _ \<Rightarrow>
        (let next = next_req (requests (cache sr)) p in
         bindE (handle_arpreq depth sr p) (\<lambda>sr'. sweep_loop depth fuel sr' next)))"

definition sr_arpcache_sweepreqs :: "nat \<Rightarrow> sr_instance \<Rightarrow> sr_instance res" where
  "sr_arpcache_sweepreqs depth sr =
     sweep_loop depth (length (requests (cache sr))) sr
       (case requests (cache sr) of [] \<Rightarrow> None | r # _ \<Rightarrow> Some (rq_ptr r))"

text \<open>One turn of the cleanup thread's loop, \<^verbatim>\<open>sr_arpcache_timeout\<close>, under the lock.\<close>

definition sr_arpcache_timeout_turn :: "nat \<Rightarrow> sr_instance \<Rightarrow> sr_instance res" where
  "sr_arpcache_timeout_turn depth sr =
     sr_arpcache_sweepreqs depth (sr\<lparr>cache := expire_entries (cache sr) (clock_sec sr)\<rparr>)"

section \<open>Forwarding\<close>

definition sr_forward_ip_packet ::
    "nat \<Rightarrow> sr_instance \<Rightarrow> bytes \<Rightarrow> nat \<Rightarrow> sr_instance res" where
  "sr_forward_ip_packet depth sr packet len =
     bindE (read_ip packet) (\<lambda>h.
     let received_checksum = ip_sum h in
     bindE (write_ip packet (h\<lparr>ip_sum := 0\<rparr>)) (\<lambda>p.
     bindE (cksum (drop sizeof_eth p) (int sizeof_ip)) (\<lambda>computed_checksum.
     if received_checksum \<noteq> computed_checksum then Inr sr
     else if ip_ttl h \<le> 1 then send_icmp_msg depth sr p len icmp_type_time_exceeded 0
     else
       let h1 = h\<lparr>ip_ttl := ip_ttl h - 1, ip_sum := 0\<rparr> in
       bindE (write_ip p h1) (\<lambda>p.
       bindE (cksum (drop sizeof_eth p) (int sizeof_ip)) (\<lambda>new_checksum.
       bindE (write_ip p (h1\<lparr>ip_sum := new_checksum\<rparr>)) (\<lambda>p.
       case longest_prefix_matching (routing_table sr) (ip_dst h) of
         None \<Rightarrow> send_icmp_msg depth sr p len icmp_type_dest_unreachable icmp_dest_unreachable_net
       | Some routing_table_entry \<Rightarrow>
           send_or_queue (handle_arpreq depth) sr p len (gw routing_table_entry)
             (sr_get_interface (if_list sr) (rt_interface routing_table_entry))))))))"

section \<open>Received frames\<close>

text \<open>The reply to an ARP request, made in a copy of the request.\<close>

definition arp_reply_packet :: "bytes \<Rightarrow> sr_ethernet_hdr \<Rightarrow> sr_arp_hdr \<Rightarrow> sr_if \<Rightarrow> bytes res" where
  "arp_reply_packet arp_reply eth arph interface =
     bindE (write_eth arp_reply
              \<lparr>ether_dhost = ether_shost eth, ether_shost = if_addr interface,
               ether_type = htons ethertype_arp\<rparr>) (\<lambda>p.
     write_arp p
       \<lparr>ar_hrd = htons arp_hrd_ethernet, ar_pro = htons ethertype_ip,
        ar_hln = word_of_nat ETHER_ADDR_LEN, ar_pln = 4, ar_op = htons arp_op_reply,
        ar_sha = if_addr interface, ar_sip = if_ip interface, ar_tha = ar_sha arph,
        ar_tip = ar_sip arph\<rparr>)"

text \<open>The loop that sends the packets waiting for a resolved address.\<close>

fun flush_packets :: "bytes \<Rightarrow> sr_instance \<Rightarrow> sr_packet list \<Rightarrow> sr_instance res" where
  "flush_packets mac sr [] = Inr sr"
| "flush_packets mac sr (arp_packet # packets) =
     (case sr_get_interface (if_list sr) (pk_iface arp_packet) of
        None \<Rightarrow> flush_packets mac sr packets
      | Some interface \<Rightarrow>
          bindE (set_ether_addrs (pk_buf arp_packet) mac (if_addr interface)) (\<lambda>b.
          bindE (sr_send_packet sr b (pk_len arp_packet) (pk_iface arp_packet)) (\<lambda>(_, sr').
          flush_packets mac sr' packets)))"

definition handle_arp :: "sr_instance \<Rightarrow> bytes \<Rightarrow> nat \<Rightarrow> bytes \<Rightarrow> sr_ethernet_hdr \<Rightarrow> sr_instance res" where
  "handle_arp sr buf len iface ethernet_header =
     bindE (read_arp buf) (\<lambda>arp_header.
     bindE (sr_get_interface_by_ip (if_list sr) (ar_tip arp_header)) (\<lambda>out_interface.
     if out_interface = None then Inr sr
     else
       let opcode = ntohs (ar_op arp_header) in
       if opcode = arp_op_request
       then bindE (load buf 0 len) (\<lambda>arp_reply.
            case sr_get_interface (if_list sr) iface of
              None \<Rightarrow> Inl NullDeref
            | Some interface \<Rightarrow>
                bindE (arp_reply_packet arp_reply ethernet_header arp_header interface) (\<lambda>p.
                bindE (sr_send_packet sr p len (if_name interface)) (\<lambda>(_, sr').
                Inr sr')))
       else if opcode = arp_op_reply
       then (case sr_arpcache_insert (cache sr) (ar_sha arp_header) (ar_sip arp_header) (clock_sec sr) of
               (c, arp_entry) \<Rightarrow>
                 (case arp_entry of
                    None \<Rightarrow> Inr (sr\<lparr>cache := c\<rparr>)
                  | Some req \<Rightarrow>
                      bindE (flush_packets (ar_sha arp_header) (sr\<lparr>cache := c\<rparr>) (rq_packets req)) (\<lambda>sr'.
                      Inr (sr'\<lparr>cache := sr_arpreq_destroy (cache sr') (rq_ptr req)\<rparr>))))
       else Inr sr))"

definition handle_ip :: "nat \<Rightarrow> sr_instance \<Rightarrow> bytes \<Rightarrow> nat \<Rightarrow> sr_instance res" where
  "handle_ip depth sr buf len =
     (if len < sizeof_eth + sizeof_ip then Inr sr
      else
        bindE (read_ip buf) (\<lambda>ip_header.
        let original_sum = ip_sum ip_header in
        bindE (write_ip buf (ip_header\<lparr>ip_sum := 0\<rparr>)) (\<lambda>p.
        bindE (cksum (drop sizeof_eth p) (int (ip_hdr_bytes ip_header))) (\<lambda>sum.
        if sum \<noteq> original_sum then Inr sr
        else
          bindE (write_ip p ip_header) (\<lambda>p.
          if ip_ttl ip_header \<le> 1 then send_icmp_msg depth sr p len icmp_type_time_exceeded 0
          else
            bindE (sr_get_interface_by_ip (if_list sr) (ip_dst ip_header)) (\<lambda>interface.
            if interface \<noteq> None
            then
              let protocol = ip_p ip_header in
              if protocol = ip_protocol_icmp
              then bindE (load p (sizeof_eth + ip_hdr_bytes ip_header) 1) (\<lambda>t.
                   if hd t = icmp_type_echo_request
                   then send_icmp_msg depth sr p len icmp_type_echo_reply 0
                   else Inr sr)
              else if protocol = ip_protocol_tcp \<or> protocol = ip_protocol_udp
              then send_icmp_msg depth sr p len icmp_type_dest_unreachable icmp_dest_unreachable_port
              else Inr sr
            else sr_forward_ip_packet depth sr p len))))))"

definition sr_handlepacket :: "nat \<Rightarrow> sr_instance \<Rightarrow> bytes \<Rightarrow> nat \<Rightarrow> bytes \<Rightarrow> sr_instance res" where
  "sr_handlepacket depth sr buf len iface =
     (if len < sizeof_eth then Inr sr
      else
        bindE (read_eth buf) (\<lambda>ethernet_header.
        let ethertype = ntohs (ether_type ethernet_header) in
        if ethertype = ethertype_arp then handle_arp sr buf len iface ethernet_header
        else if ethertype = ethertype_ip then handle_ip depth sr buf len
        else Inr sr))"

text \<open>\<^verbatim>\<open>sr_init\<close> initialises the cache; the rest of it creates the cleanup thread.\<close>

definition sr_init :: "sr_instance \<Rightarrow> sr_instance" where
  "sr_init sr = sr\<lparr>cache := sr_arpcache_init (cache sr)\<rparr>"

end
