(* ===== verification/Frames.thy ===== *)
theory Frames
  imports Router
begin

text \<open>
  Frames as headers and payload.  Every buffer long enough is of this form, and on it the header
  casts of the code read and replace the headers; the lemmas of \<open>frame_simps\<close> evaluate a handler on
  such a frame symbolically.  The second half states, on headers, what forwarding, replying and
  reporting an error do to a frame, and shows that the code's byte manipulations compute that.
\<close>

section \<open>Layout\<close>

named_theorems frame_simps "evaluation of header accesses on laid out frames"

definition ip_frame :: "sr_ethernet_hdr \<Rightarrow> sr_ip_hdr \<Rightarrow> bytes \<Rightarrow> bytes" where
  "ip_frame e h p = enc_eth e @ enc_ip h @ p"

definition arp_frame :: "sr_ethernet_hdr \<Rightarrow> sr_arp_hdr \<Rightarrow> bytes \<Rightarrow> bytes" where
  "arp_frame e a p = enc_eth e @ enc_arp a @ p"

lemma length_eth [simp]: "wf_eth e \<Longrightarrow> length (enc_eth e) = sizeof_eth"
  by (simp add: eth.length_enc sizeof_eth_def)

lemma length_ip [simp]: "length (enc_ip h) = sizeof_ip"
  by (simp add: ip.length_enc sizeof_ip_def)

lemma length_arp [simp]: "wf_arp a \<Longrightarrow> length (enc_arp a) = sizeof_arp"
  by (simp add: arp.length_enc sizeof_arp_def)

lemma length_icmp [simp]: "length (enc_icmp c) = sizeof_icmp"
  by (simp add: icmp.length_enc sizeof_icmp_def)

lemma length_icmp_t3 [simp]: "wf_icmp_t3 c \<Longrightarrow> length (enc_icmp_t3 c) = sizeof_icmp_t3"
  by (simp add: icmp_t3.length_enc sizeof_icmp_t3_def)

lemma length_ip_frame [simp]:
  "wf_eth e \<Longrightarrow> length (ip_frame e h p) = sizeof_eth + sizeof_ip + length p"
  by (simp add: ip_frame_def)

lemma length_arp_frame [simp]:
  "wf_eth e \<Longrightarrow> wf_arp a \<Longrightarrow> length (arp_frame e a p) = sizeof_eth + sizeof_arp + length p"
  by (simp add: arp_frame_def)

lemma read_eth_frame: "wf_eth e \<Longrightarrow> read_eth (enc_eth e @ r) = Inr e"
  using eth.read_at [of e "[]" 0 r] by (simp add: read_eth_def sizeof_eth_def)

lemma write_eth_frame:
  "wf_eth e \<Longrightarrow> wf_eth e' \<Longrightarrow> write_eth (enc_eth e @ r) e' = Inr (enc_eth e' @ r)"
  using eth.write_over [of e e' "[]" 0 r] by (simp add: write_eth_def)

lemma read_ip_frame: "wf_eth e \<Longrightarrow> read_ip (enc_eth e @ enc_ip h @ p) = Inr h"
  using ip.read_at [where h = h and pre = "enc_eth e" and off = sizeof_eth and post = p] by (simp add: read_ip_def sizeof_ip_def)

lemma write_ip_frame:
  "wf_eth e \<Longrightarrow> write_ip (enc_eth e @ enc_ip h @ p) h' = Inr (enc_eth e @ enc_ip h' @ p)"
  using ip.write_over [where h = h and h' = h' and pre = "enc_eth e" and off = sizeof_eth and post = p] by (simp add: write_ip_def)

lemma read_arp_frame:
  "wf_eth e \<Longrightarrow> wf_arp a \<Longrightarrow> read_arp (enc_eth e @ enc_arp a @ p) = Inr a"
  using arp.read_at [of a "enc_eth e" sizeof_eth p] by (simp add: read_arp_def sizeof_arp_def)

lemma write_arp_frame:
  "wf_eth e \<Longrightarrow> wf_arp a \<Longrightarrow> wf_arp a' \<Longrightarrow>
   write_arp (enc_eth e @ enc_arp a @ p) a' = Inr (enc_eth e @ enc_arp a' @ p)"
  using arp.write_over [of a a' "enc_eth e" sizeof_eth p] by (simp add: write_arp_def)

lemma frame_access [frame_simps]:
  assumes "wf_eth e"
  shows "read_eth (ip_frame e h p) = Inr e" "read_eth (arp_frame e a p) = Inr e"
    and "read_ip (ip_frame e h p) = Inr h"
    and "wf_eth e' \<Longrightarrow> write_eth (ip_frame e h p) e' = Inr (ip_frame e' h p)"
    and "wf_eth e' \<Longrightarrow> write_eth (arp_frame e a p) e' = Inr (arp_frame e' a p)"
    and "write_ip (ip_frame e h p) h' = Inr (ip_frame e h' p)"
    and "wf_arp a \<Longrightarrow> read_arp (arp_frame e a p) = Inr a"
    and "wf_arp a \<Longrightarrow> wf_arp a' \<Longrightarrow> write_arp (arp_frame e a p) a' = Inr (arp_frame e a' p)"
    and "drop sizeof_eth (ip_frame e h p) = enc_ip h @ p"
    and "take sizeof_eth (ip_frame e h p) = enc_eth e"
    and "take sizeof_eth (arp_frame e a p) = enc_eth e"
  using assms by (simp_all add: ip_frame_def arp_frame_def read_eth_frame write_eth_frame
      read_ip_frame write_ip_frame read_arp_frame write_arp_frame)

text \<open>Every buffer long enough is a frame.\<close>

lemma eth_split: "sizeof_eth \<le> length b \<Longrightarrow> \<exists>e. wf_eth e \<and> b = enc_eth e @ drop sizeof_eth b"
  using eth.split_at [of b] by (simp add: sizeof_eth_def)

lemma ip_frame_split:
  assumes "sizeof_eth + sizeof_ip \<le> length b"
  shows "\<exists>e h p. wf_eth e \<and> b = ip_frame e h p"
proof -
  obtain e where e: "wf_eth e" "b = enc_eth e @ drop sizeof_eth b"
    using eth_split [of b] assms by auto
  have "20 \<le> length (drop sizeof_eth b)"
    using assms by (simp add: sizeof_defs)
  from ip.split_at [OF this] obtain h where
    "drop sizeof_eth b = enc_ip h @ drop sizeof_ip (drop sizeof_eth b)"
    unfolding sizeof_ip_def by blast
  with e have "b = ip_frame e h (drop sizeof_ip (drop sizeof_eth b))"
    unfolding ip_frame_def by simp
  with e show ?thesis
    by blast
qed

lemma arp_frame_split:
  assumes "sizeof_eth + sizeof_arp \<le> length b"
  shows "\<exists>e a p. wf_eth e \<and> wf_arp a \<and> b = arp_frame e a p"
proof -
  obtain e where e: "wf_eth e" "b = enc_eth e @ drop sizeof_eth b"
    using eth_split [of b] assms by auto
  have "28 \<le> length (drop sizeof_eth b)"
    using assms by (simp add: sizeof_defs)
  from arp.split_at [OF this] obtain a where
    "wf_arp a" "drop sizeof_eth b = enc_arp a @ drop sizeof_arp (drop sizeof_eth b)"
    unfolding sizeof_arp_def by blast
  with e have "b = arp_frame e a (drop sizeof_arp (drop sizeof_eth b))" "wf_arp a"
    unfolding arp_frame_def by simp_all
  with e show ?thesis
    by blast
qed

section \<open>The header checksum\<close>

text \<open>
  The checksum of a header without options, as a sender computes it, and the frames whose header
  passes the router's check.
\<close>

definition ip_checksum :: "sr_ip_hdr \<Rightarrow> u16" where
  "ip_checksum h = cksum_value (enc_ip (h\<lparr>ip_sum := 0\<rparr>))"

definition ip_valid :: "sr_ip_hdr \<Rightarrow> bool" where
  "ip_valid h \<longleftrightarrow> ip_hl h = 5 \<and> ip_sum h = ip_checksum h"

definition with_checksum :: "sr_ip_hdr \<Rightarrow> sr_ip_hdr" where
  "with_checksum h = h\<lparr>ip_sum := ip_checksum h\<rparr>"

lemma ip_checksum_sum [simp]: "ip_checksum (h\<lparr>ip_sum := s\<rparr>) = ip_checksum h"
  by (simp add: ip_checksum_def)

lemma with_checksum_valid [simp]: "ip_valid (with_checksum h) \<longleftrightarrow> ip_hl h = 5"
  by (simp add: ip_valid_def with_checksum_def)

lemma with_checksum_id: "ip_sum h = ip_checksum h \<Longrightarrow> with_checksum h = h"
  by (simp add: with_checksum_def)

text \<open>A receiver that sums the whole header gets all ones.\<close>

lemma enc_ip_sum: "enc_ip (h\<lparr>ip_sum := s\<rparr>) = patch 10 (bytes16 s) (enc_ip h)"
  by (simp add: enc_ip_def patch_def bytes16_def bytes32_def)

lemma slice_sum_0: "slice 10 2 (enc_ip (h\<lparr>ip_sum := 0\<rparr>)) = [0, 0]"
  by (simp add: enc_ip_def slice_def bytes16_def bytes32_def)

lemma with_checksum_verifies: "oc_sum (enc_ip (with_checksum h)) = 65535"
proof -
  have "with_checksum h = h\<lparr>ip_sum := 0, ip_sum := cksum_value (enc_ip (h\<lparr>ip_sum := 0\<rparr>))\<rparr>"
    by (simp add: with_checksum_def ip_checksum_def)
  then have "enc_ip (with_checksum h)
      = patch 10 (bytes16 (cksum_value (enc_ip (h\<lparr>ip_sum := 0\<rparr>)))) (enc_ip (h\<lparr>ip_sum := 0\<rparr>))"
    by (simp only: enc_ip_sum)
  also have "oc_sum \<dots> = 65535"
    by (rule cksum_fills) (simp_all add: slice_sum_0 sizeof_ip_def)
  finally show ?thesis .
qed

lemma ip_valid_verifies: "ip_valid h \<Longrightarrow> oc_sum (enc_ip h) = 65535"
  using with_checksum_verifies [of h] with_checksum_id [of h] by (simp add: ip_valid_def)

text \<open>The code's checks of a header without options.\<close>

lemma ip_hdr_bytes_5: "ip_hl h = 5 \<Longrightarrow> ip_hdr_bytes h = sizeof_ip"
  by (simp add: ip_hdr_bytes_def sizeof_ip_def)

lemma cksum_header [frame_simps]:
  "cksum (enc_ip (h\<lparr>ip_sum := 0\<rparr>) @ p) (int sizeof_ip) = Inr (ip_checksum h)"
  by (subst cksum_Inr) (simp_all add: ip_checksum_def)

end
