(* ===== verification/Router_Invariant.thy ===== *)
theory Router_Invariant
  imports Router Reachability
begin

text \<open>
  What every handler of the router does to the state, whatever frame it is given: configuration,
  clock and environment stay, the ARP cache keeps its invariant, and the messages written are well
  formed.  One lemma per handler, by the relation \<open>evolves\<close>; the mutual recursion of
  \<^verbatim>\<open>send_icmp_msg\<close> and \<^verbatim>\<open>handle_arpreq\<close> is cut by the locale \<open>arpreq_handler\<close>, which \<open>handle_arpreq\<close>
  interprets at every depth.  The last section lifts the lemmas to the reachable states of the
  router.
\<close>

section \<open>The relation\<close>

definition evolves :: "sr_instance \<Rightarrow> sr_instance \<Rightarrow> bool" where
  "evolves sr sr' \<longleftrightarrow>
     (\<exists>lf ms c. sr' = sr\<lparr>cache := c, logfile := lf, written := written sr @ ms\<rparr>
       \<and> (\<forall>m \<in> set ms. vns_frame_ok (if_list sr) m) \<and> (arp_inv (cache sr) \<longrightarrow> arp_inv c)
       \<and> (\<forall>k \<ge> 5. tries_upto k (cache sr) \<longrightarrow> tries_upto k c))"

lemma evolvesI:
  "sr' = sr\<lparr>cache := c, logfile := lf, written := written sr @ ms\<rparr> \<Longrightarrow>
   (\<And>m. m \<in> set ms \<Longrightarrow> vns_frame_ok (if_list sr) m) \<Longrightarrow> (arp_inv (cache sr) \<Longrightarrow> arp_inv c) \<Longrightarrow>
   (\<And>k. 5 \<le> k \<Longrightarrow> tries_upto k (cache sr) \<Longrightarrow> tries_upto k c) \<Longrightarrow> evolves sr sr'"
  unfolding evolves_def by blast

lemma evolves_fields:
  assumes "evolves sr sr'"
  shows "if_list sr' = if_list sr" "routing_table sr' = routing_table sr"
    "clock_sec sr' = clock_sec sr" "heap_junk sr' = heap_junk sr" "sock_write sr' = sock_write sr"
  using assms by (auto simp: evolves_def)

lemma evolves_inv: "evolves sr sr' \<Longrightarrow> arp_inv (cache sr) \<Longrightarrow> arp_inv (cache sr')"
  by (auto simp: evolves_def)

lemma evolves_tries: "evolves sr sr' \<Longrightarrow> 5 \<le> k \<Longrightarrow> tries_upto k (cache sr) \<Longrightarrow> tries_upto k (cache sr')"
  by (auto simp: evolves_def)

lemma evolves_refl [simp]: "evolves sr sr"
  by (rule evolvesI [where ms = "[]" and lf = "logfile sr" and c = "cache sr"]) simp_all

lemma evolves_trans:
  assumes "evolves a b" "evolves b c"
  shows "evolves a c"
proof -
  from assms(1) obtain lf ms k where b: "b = a\<lparr>cache := k, logfile := lf, written := written a @ ms\<rparr>"
    and ms: "\<forall>m \<in> set ms. vns_frame_ok (if_list a) m" "arp_inv (cache a) \<longrightarrow> arp_inv k"
      "\<forall>n \<ge> 5. tries_upto n (cache a) \<longrightarrow> tries_upto n k"
    unfolding evolves_def by blast
  from assms(2) obtain lf' ns l where c: "c = b\<lparr>cache := l, logfile := lf', written := written b @ ns\<rparr>"
    and ns: "\<forall>m \<in> set ns. vns_frame_ok (if_list b) m" "arp_inv (cache b) \<longrightarrow> arp_inv l"
      "\<forall>n \<ge> 5. tries_upto n (cache b) \<longrightarrow> tries_upto n l"
    unfolding evolves_def by blast
  show ?thesis
    by (rule evolvesI [where c = l and lf = lf' and ms = "ms @ ns"]) (use b c ms ns in auto)
qed

lemma evolves_then: "evolves a b \<Longrightarrow> ensures m (evolves b) \<Longrightarrow> ensures m (evolves a)"
  by (auto simp: ensures_def intro: evolves_trans)

lemma evolves_cache:
  "(arp_inv (cache sr) \<Longrightarrow> arp_inv c) \<Longrightarrow> (\<And>k. 5 \<le> k \<Longrightarrow> tries_upto k (cache sr) \<Longrightarrow> tries_upto k c) \<Longrightarrow>
   evolves sr (sr\<lparr>cache := c\<rparr>)"
  by (rule evolvesI [where c = c and lf = "logfile sr" and ms = "[]"]) simp_all

lemma frames_cache: "frames_from sr sr' \<Longrightarrow> cache sr' = cache sr"
  by (auto simp: frames_from_def)

lemma frames_evolves: "frames_from sr sr' \<Longrightarrow> evolves sr sr'"
proof -
  assume "frames_from sr sr'"
  then obtain lf ms where "sr' = sr\<lparr>logfile := lf, written := written sr @ ms\<rparr>"
    "\<forall>m \<in> set ms. vns_frame_ok (if_list sr) m"
    unfolding frames_from_def by blast
  then show ?thesis
    by (intro evolvesI [where c = "cache sr" and lf = lf and ms = ms]) auto
qed

lemma send_evolves: "sr_send_packet sr b n i = Inr (r, sr') \<Longrightarrow> evolves sr sr'"
  by (intro frames_evolves sink.send_sent)

section \<open>Queueing and ICMP\<close>

locale arpreq_handler =
  fixes harq :: "sr_instance \<Rightarrow> nat \<Rightarrow> sr_instance res"
  assumes harq_evolves: "arp_inv (cache sr) \<Longrightarrow> ensures (harq sr p) (evolves sr)"
begin

lemma queue_evolves:
  assumes "arp_inv (cache sr)" "frame_len len"
    and q: "sr_arpcache_queuereq (cache sr) ip packet len iface = Inr (c, p)"
  shows "ensures (harq (sr\<lparr>cache := c\<rparr>) p) (evolves sr)"
proof -
  from q assms(2) have "len \<le> length packet"
    by (auto simp: sr_arpcache_queuereq_def bindE_eq_Inr load_eq_Inr split: prod.splits if_splits)
  then have inv: "arp_inv c"
    using queuereq_inv assms by blast
  have "ensures (harq (sr\<lparr>cache := c\<rparr>) p) (evolves (sr\<lparr>cache := c\<rparr>))"
    using inv by (intro harq_evolves) simp
  moreover have "evolves sr (sr\<lparr>cache := c\<rparr>)"
    using inv tries_queue [OF q] by (intro evolves_cache)
  ultimately show ?thesis
    by (rule evolves_then [rotated])
qed

lemma send_or_queue_evolves:
  assumes "arp_inv (cache sr)" "frame_len len"
  shows "ensures (send_or_queue harq sr packet len ip iface) (evolves sr)"
  unfolding send_or_queue_def
  by (intro ensures) (use assms in \<open>simp_all add: send_evolves queue_evolves\<close>)

lemma send_icmp_evolves:
  assumes "arp_inv (cache sr)" "frame_len len"
  shows "ensures (send_icmp_body harq sr packet len type code) (evolves sr)"
proof -
  have "frame_len (icmp_new_len h)" for h
    using ip_hdr_bytes_le [of h] by (simp add: icmp_new_len_def frame_len_def sizeof_defs)
  then show ?thesis
    unfolding send_icmp_body_def
    by (intro ensures) (use assms in \<open>simp_all add: send_or_queue_evolves\<close>)
qed

end

lemma times_sent_step: "\<not> 5 \<le> (t :: u32) \<Longrightarrow> t + 1 \<le> 5"
  by (simp add: not_le) (metis add.commute inc_le numeral_One one_plus_numeral)

lemma deref_unique:
  "arp_inv c \<Longrightarrow> deref_req (requests c) p = Some q \<Longrightarrow> r \<in> set (requests c) \<Longrightarrow> rq_ptr r = p \<Longrightarrow> r = q"
  using arp_invD(4) req_ptr.lookup_eq_Some_iff by (metis option.inject)

lemma bump_inv:
  assumes "arp_inv c"
  shows "arp_inv (update_req p (\<lambda>r. r\<lparr>rq_sent := t, rq_times_sent := rq_times_sent r + 1\<rparr>) c)"
proof (rule update_req_inv [OF assms])
  fix r
  assume "r \<in> set (requests c)"
  with arp_invD(5) [OF assms] show "wf_req (next_ptr c) (r\<lparr>rq_sent := t, rq_times_sent := rq_times_sent r + 1\<rparr>)"
    by (auto simp: wf_req_def)
qed simp_all

lemma bump_tries:
  assumes "arp_inv c" "deref_req (requests c) p = Some q" "\<not> rq_times_sent q \<ge> 5" "5 \<le> k" "tries_upto k c"
  shows "tries_upto k (update_req p (\<lambda>r. r\<lparr>rq_sent := t, rq_times_sent := rq_times_sent r + 1\<rparr>) c)"
proof (rule tries_update [OF assms(5)])
  fix r
  assume "r \<in> set (requests c)" "rq_ptr r = p"
  then have "r = q"
    using deref_unique [OF assms(1,2)] by blast
  then show "rq_times_sent (r\<lparr>rq_sent := t, rq_times_sent := rq_times_sent r + 1\<rparr>) \<le> k"
    using times_sent_step [OF assms(3)] assms(4) by simp
qed

lemma host_unreachable_Inr: "host_unreachable_loop sicmp sr ps = Inr sr' \<Longrightarrow> ps = [] \<and> sr' = sr"
  by (cases ps) (auto simp: bindE_eq_Inr)

lemma expired_evolves:
  "host_unreachable_loop sicmp sr ps = Inr sr' \<Longrightarrow>
   evolves sr (sr'\<lparr>cache := sr_arpreq_destroy (cache sr') p\<rparr>)"
  by (auto dest!: host_unreachable_Inr intro: evolves_cache destroy_inv tries_destroy)

lemma retry_evolves:
  assumes "arp_inv (cache sr)" "deref_req (requests (cache sr)) p = Some q" "\<not> rq_times_sent q \<ge> 5"
    and "sr_send_packet sr b n i = Inr (r, sr')"
  shows "evolves sr (sr'\<lparr>cache := update_req p
      (\<lambda>r. r\<lparr>rq_sent := t, rq_times_sent := rq_times_sent r + 1\<rparr>) (cache sr')\<rparr>)"
proof -
  have c: "cache sr' = cache sr"
    by (rule frames_cache [OF send_frames [OF assms(4)]])
  show ?thesis
    using assms by (intro evolves_trans [OF send_evolves [OF assms(4)]] evolves_cache)
      (simp_all add: c bump_inv bump_tries)
qed

lemma handle_arpreq_body_evolves:
  assumes "arp_inv (cache sr)"
  shows "ensures (handle_arpreq_body sicmp sr req) (evolves sr)"
  unfolding handle_arpreq_body_def Let_def
  by (intro ensures) (use assms in \<open>simp_all add: expired_evolves retry_evolves\<close>)

interpretation harq: arpreq_handler "handle_arpreq depth" for depth
proof unfold_locales
  fix sr :: sr_instance and p
  assume "arp_inv (cache sr)"
  then show "ensures (handle_arpreq depth sr p) (evolves sr)"
    by (cases depth) (auto intro: handle_arpreq_body_evolves ensures)
qed

lemma send_icmp_msg_evolves:
  "arp_inv (cache sr) \<Longrightarrow> frame_len len \<Longrightarrow>
   ensures (send_icmp_msg depth sr packet len type code) (evolves sr)"
  unfolding send_icmp_msg_def by (rule harq.send_icmp_evolves)

section \<open>The handlers\<close>

lemma forward_evolves:
  assumes "arp_inv (cache sr)" "frame_len len"
  shows "ensures (sr_forward_ip_packet depth sr packet len) (evolves sr)"
  unfolding sr_forward_ip_packet_def
  by (intro ensures)
    (use assms in \<open>simp_all add: send_icmp_msg_evolves harq.send_or_queue_evolves\<close>)

lemma handle_ip_evolves:
  assumes "arp_inv (cache sr)" "frame_len len"
  shows "ensures (handle_ip depth sr buf len) (evolves sr)"
  unfolding handle_ip_def
  by (intro ensures) (use assms in \<open>simp_all add: send_icmp_msg_evolves forward_evolves\<close>)

lemma flush_evolves: "ensures (flush_packets mac sr ps) (evolves sr)"
proof (induction ps arbitrary: sr)
  case (Cons p ps)
  show ?case
    unfolding flush_packets.simps
  proof (intro ensures, goal_cases)
    case (2 i b x r sr1)
    then have "evolves sr sr1"
      by (auto intro: send_evolves)
    then show ?case
      by (rule evolves_then) (rule Cons.IH)
  qed (rule Cons.IH)
qed (simp add: ensures)

lemma insert_evolves:
  assumes "arp_inv (cache sr)" "read_arp buf = Inr h"
    and "sr_arpcache_insert (cache sr) (ar_sha h) ip t = (c, r)"
  shows "evolves sr (sr\<lparr>cache := c\<rparr>)"
proof -
  have "length (ar_sha h) = 6"
    using assms(2) arp.read_wf by (fastforce simp: read_arp_def wf_arp_def sizeof_arp_def)
  then have "arp_inv c"
    using insert_inv assms(1,3) by blast
  then show ?thesis
    using tries_insert [OF assms(3)] by (intro evolves_cache)
qed

lemma insert_flush_destroy_evolves:
  assumes "arp_inv (cache sr)" "read_arp buf = Inr h"
    and "sr_arpcache_insert (cache sr) (ar_sha h) ip t = (c, r)"
    and "flush_packets mac (sr\<lparr>cache := c\<rparr>) ps = Inr sr1"
  shows "evolves sr (sr1\<lparr>cache := sr_arpreq_destroy (cache sr1) p\<rparr>)"
proof -
  have "evolves sr sr1"
    using insert_evolves [OF assms(1-3)] ensuresD [OF flush_evolves assms(4)] by (rule evolves_trans)
  moreover have "evolves sr1 (sr1\<lparr>cache := sr_arpreq_destroy (cache sr1) p\<rparr>)"
    by (intro evolves_cache destroy_inv tries_destroy)
  ultimately show ?thesis
    by (rule evolves_trans)
qed

lemma handle_arp_evolves:
  assumes "arp_inv (cache sr)"
  shows "ensures (handle_arp sr buf len iface eth) (evolves sr)"
  unfolding handle_arp_def Let_def
  by (intro ensures)
    (use assms in \<open>simp_all add: send_evolves insert_evolves insert_flush_destroy_evolves\<close>)

lemma handlepacket_evolves:
  assumes "arp_inv (cache sr)" "len < 2 ^ 31"
  shows "ensures (sr_handlepacket depth sr buf len iface) (evolves sr)"
proof -
  have "\<not> len < sizeof_eth \<Longrightarrow> frame_len len"
    using assms(2) by (simp add: frame_len_def)
  then show ?thesis
    unfolding sr_handlepacket_def
    by (intro ensures) (use assms in \<open>simp_all add: handle_arp_evolves handle_ip_evolves\<close>)
qed

lemma sweep_evolves:
  "arp_inv (cache sr) \<Longrightarrow> ensures (sweep_loop depth fuel sr p) (evolves sr)"
proof (induction depth fuel sr p rule: sweep_loop.induct)
  case (3 depth fuel sr p)
  have "ensures (sweep_loop depth fuel sr1 (next_req (requests (cache sr)) p)) (evolves sr)"
    if r: "deref_req (requests (cache sr)) p = Some r" and h: "handle_arpreq depth sr p = Inr sr1"
    for r sr1
  proof -
    have e: "evolves sr sr1"
      by (rule ensuresD [OF harq.harq_evolves [OF "3.prems"] h])
    then have "arp_inv (cache sr1)"
      using "3.prems" by (rule evolves_inv)
    from e "3.IH" [OF r refl this] show ?thesis
      by (rule evolves_then)
  qed
  then show ?case
    unfolding sweep_loop.simps Let_def by (intro ensures)
qed (simp_all add: ensures)

lemma timeout_evolves:
  assumes "arp_inv (cache sr)"
  shows "ensures (sr_arpcache_timeout_turn depth sr) (evolves sr)"
proof -
  have "evolves sr (sr\<lparr>cache := expire_entries (cache sr) (clock_sec sr)\<rparr>)"
    by (intro evolves_cache) (simp_all add: expire_inv tries_expire)
  moreover have "ensures (sr_arpcache_timeout_turn depth sr)
      (evolves (sr\<lparr>cache := expire_entries (cache sr) (clock_sec sr)\<rparr>))"
    unfolding sr_arpcache_timeout_turn_def sr_arpcache_sweepreqs_def
    using assms by (intro sweep_evolves) (simp add: expire_inv)
  ultimately show ?thesis
    by (rule evolves_then)
qed

section \<open>Reachable states\<close>

text \<open>
  The router runs by receiving frames (a pointer to \<open>len\<close> bytes), by turns of the cleanup thread,
  and by the clock moving forward.  An execution that faults has no next state.
\<close>

inductive router_step :: "nat \<Rightarrow> sr_instance \<Rightarrow> sr_instance \<Rightarrow> bool" for depth :: nat where
  receive: "len < 2 ^ 31 \<Longrightarrow> sr_handlepacket depth sr buf len iface = Inr sr' \<Longrightarrow> router_step depth sr sr'"
| cleanup: "sr_arpcache_timeout_turn depth sr = Inr sr' \<Longrightarrow> router_step depth sr sr'"
| clock: "clock_sec sr \<le> t \<Longrightarrow> router_step depth sr (sr\<lparr>clock_sec := t, clock_usec := u\<rparr>)"

definition router_start :: "sr_instance \<Rightarrow> bool" where
  "router_start sr \<longleftrightarrow> (\<exists>sr0. sr = sr_init sr0 \<and> written sr0 = [])"

definition router_inv :: "sr_instance \<Rightarrow> bool" where
  "router_inv sr \<longleftrightarrow> arp_inv (cache sr) \<and> tries_upto 5 (cache sr) \<and> (\<forall>m \<in> set (written sr). vns_frame_ok (if_list sr) m)"

lemma evolves_router_inv: "evolves sr sr' \<Longrightarrow> router_inv sr \<Longrightarrow> router_inv sr'"
  using evolves_fields(1) [of sr sr'] evolves_tries [of sr sr' 5] by (auto simp: router_inv_def evolves_def)

interpretation router: inductive_invariant router_start "router_step depth" router_inv for depth
proof unfold_locales
  fix sr
  assume "router_start sr"
  then show "router_inv sr"
    by (auto simp: router_start_def router_inv_def sr_init_def init_inv tries_init)
next
  fix sr sr'
  assume inv: "router_inv sr" and "router_step depth sr sr'"
  from this(2) show "router_inv sr'"
  proof cases
    case (receive len buf iface)
    with inv show ?thesis
      by (intro evolves_router_inv [OF ensuresD [OF handlepacket_evolves] inv])
         (auto simp: router_inv_def)
  next
    case cleanup
    with inv show ?thesis
      by (intro evolves_router_inv [OF ensuresD [OF timeout_evolves] inv])
         (auto simp: router_inv_def)
  next
    case (clock t u)
    with inv show ?thesis
      by (simp add: router_inv_def)
  qed
qed

end
