(* ===== verification/Transmit.thy ===== *)
theory Transmit
  imports Frames Router_Invariant
begin

text \<open>
  Functional lemmas on the sending side of the router: a frame whose next hop is resolved goes out
  once, with the right addresses; a frame whose next hop is not resolved is queued, and an ARP
  request goes out when one is due.
\<close>

section \<open>Interfaces and names\<close>

lemma strncmp_eq_sym: "strncmp_eq n s t = strncmp_eq n t s"
  by (auto simp: strncmp_eq_iff)

text \<open>An interface that is found is found again by its own name.\<close>

lemma get_interface_own_name:
  "sr_get_interface is n = Some i \<Longrightarrow> sr_get_interface is (if_name i) = Some i"
proof (induction "is")
  case (Cons j js)
  show ?case
  proof (cases "strncmp_eq sr_IFACE_NAMELEN (if_name j) n")
    case False
    with Cons.prems have "sr_get_interface js n = Some i"
      by simp
    moreover from this have "strncmp_eq sr_IFACE_NAMELEN (if_name i) n"
      using if_name.lookup_Some by blast
    with False have "\<not> strncmp_eq sr_IFACE_NAMELEN (if_name j) (if_name i)"
      by (simp add: strncmp_eq_iff)
    ultimately show ?thesis
      using Cons.IH by simp
  qed (use Cons.prems in simp)
qed simp

lemma get_interface_strncpy [simp]:
  "sr_get_interface is (strncpy sr_IFACE_NAMELEN n) = sr_get_interface is n"
  by (induction "is") simp_all

text \<open>The configuration the handlers need: complete interfaces, routes through them, and a
  \<^verbatim>\<open>malloc\<close> that returns what it is asked for.\<close>

definition config_ok :: "sr_instance \<Rightarrow> bool" where
  "config_ok sr \<longleftrightarrow> (\<forall>i \<in> set (if_list sr). wf_if i) \<and> printable (if_list sr)
     \<and> (\<forall>e \<in> set (routing_table sr). sr_get_interface (if_list sr) (rt_interface e) \<noteq> None)
     \<and> (\<forall>n. length (heap_junk sr n) = n)"

lemma config_okD:
  assumes "config_ok sr"
  shows "sr_get_interface (if_list sr) n = Some i \<Longrightarrow> wf_if i"
    and "sr_get_interface (if_list sr) n = Some i \<Longrightarrow> length (if_addr i) = 6"
    and "length (heap_junk sr k) = k"
    and "longest_prefix_matching (routing_table sr) ip = Some e \<Longrightarrow>
      \<exists>i. sr_get_interface (if_list sr) (rt_interface e) = Some i"
proof -
  show wf: "wf_if i" if "sr_get_interface (if_list sr) n = Some i"
    using assms if_name.lookup_in_set [OF that] by (simp add: config_ok_def)
  show "length (if_addr i) = 6" if "sr_get_interface (if_list sr) n = Some i"
    using wf [OF that] by (simp add: wf_if_def ETHER_ADDR_LEN_def)
  show "length (heap_junk sr k) = k"
    using assms by (simp add: config_ok_def)
  show "\<exists>i. sr_get_interface (if_list sr) (rt_interface e) = Some i"
    if "longest_prefix_matching (routing_table sr) ip = Some e"
    using assms lpm_in_set [OF that] by (auto simp: config_ok_def)
qed

lemma config_ok_prints: "config_ok sr \<Longrightarrow> \<exists>s. sr_print_if_list (if_list sr) = Inr s"
  using print_if_list_ok by (simp add: config_ok_def)

lemma evolves_config: "evolves sr sr' \<Longrightarrow> config_ok sr \<Longrightarrow> config_ok sr'"
  by (simp add: config_ok_def evolves_fields)

section \<open>Sending a frame\<close>

text \<open>\<open>emitted sr name b sr'\<close>: \<open>sr'\<close> is \<open>sr\<close> after the frame \<open>b\<close> has been written for \<open>name\<close>.\<close>

definition emitted :: "sr_instance \<Rightarrow> bytes \<Rightarrow> bytes \<Rightarrow> sr_instance \<Rightarrow> bool" where
  "emitted sr name b sr' \<longleftrightarrow>
     (\<exists>lf. sr' = sr\<lparr>logfile := lf, written := written sr @ [packet_message name b]\<rparr>)"

lemma emitted_fields:
  assumes "emitted sr name b sr'"
  shows "cache sr' = cache sr" "written sr' = written sr @ [packet_message name b]"
    "if_list sr' = if_list sr" "routing_table sr' = routing_table sr" "clock_sec sr' = clock_sec sr"
    "heap_junk sr' = heap_junk sr"
  using assms by (auto simp: emitted_def)

definition eth_to :: "bytes \<Rightarrow> bytes \<Rightarrow> sr_ethernet_hdr \<Rightarrow> sr_ethernet_hdr" where
  "eth_to dhost shost e = e\<lparr>ether_dhost := dhost, ether_shost := shost\<rparr>"

lemma wf_eth_to [simp]: "length d = 6 \<Longrightarrow> length s = 6 \<Longrightarrow> wf_eth (eth_to d s e)"
  by (simp add: wf_eth_def eth_to_def)

lemma eth_to_simps [simp]: "ether_shost (eth_to d s e) = s" "ether_dhost (eth_to d s e) = d"
  "ether_type (eth_to d s e) = ether_type e" "eth_to d s (eth_to d' s' e) = eth_to d s e"
  by (simp_all add: eth_to_def)

lemma set_ether_addrs_at:
  "wf_eth e \<Longrightarrow> length d = 6 \<Longrightarrow> length s = 6 \<Longrightarrow>
   set_ether_addrs (enc_eth e @ r) d s = Inr (enc_eth (eth_to d s e) @ r)"
  by (simp add: set_ether_addrs_def read_eth_frame write_eth_frame eth_to_def wf_eth_def)

lemma send_at:
  assumes "wf_eth e" "ether_shost e = if_addr i" "length (if_addr i) = 6"
    and "sr_get_interface (if_list sr) n = Some i" "length (enc_eth e @ r) < 2 ^ 31"
  shows "\<exists>k sr'. sr_send_packet sr (enc_eth e @ r) (length (enc_eth e @ r)) n = Inr (k, sr')
    \<and> emitted sr n (enc_eth e @ r) sr'"
proof -
  have "dec_eth (take sizeof_eth (enc_eth e @ r)) = e"
    using assms(1) by (simp add: eth.dec_enc)
  then show ?thesis
    using send_success [of "enc_eth e @ r" sr n i] assms
    by (fastforce simp: emitted_def ETHER_ADDR_LEN_def)
qed

lemma send_or_queue_hit:
  assumes "wf_eth e" "sr_get_interface (if_list sr) n = Some i" "length (if_addr i) = 6"
    and "sr_arpcache_lookup (cache sr) ip = Some a" "length (en_mac a) = 6"
    and "len = length (enc_eth e @ r)" "len < 2 ^ 31"
  shows "\<exists>sr'. send_or_queue harq sr (enc_eth e @ r) len ip (Some i) = Inr sr'
    \<and> emitted sr (if_name i) (enc_eth (eth_to (en_mac a) (if_addr i) e) @ r) sr'"
proof -
  let ?e = "eth_to (en_mac a) (if_addr i) e"
  have "length (enc_eth ?e @ r) = len"
    using assms by simp
  moreover have "\<exists>k sr'. sr_send_packet sr (enc_eth ?e @ r) (length (enc_eth ?e @ r)) (if_name i)
      = Inr (k, sr') \<and> emitted sr (if_name i) (enc_eth ?e @ r) sr'"
    using assms by (intro send_at [of ?e i]) (simp_all add: get_interface_own_name)
  ultimately show ?thesis
    using assms by (auto simp: send_or_queue_def set_ether_addrs_at)
qed

lemma send_or_queue_miss:
  assumes "sr_arpcache_lookup (cache sr) ip = None" "frame_len len" "len \<le> length b"
  shows "\<exists>c p. sr_arpcache_queuereq (cache sr) ip b len (if_name i) = Inr (c, p)
    \<and> send_or_queue harq sr b len ip (Some i) = harq (sr\<lparr>cache := c\<rparr>) p"
  using queuereq_total [OF assms(2,3), of "cache sr" ip "if_name i"] assms(1)
  by (auto simp: send_or_queue_def)

section \<open>ARP requests\<close>

definition arp_request_hdr :: "sr_if \<Rightarrow> u32 \<Rightarrow> sr_arp_hdr" where
  "arp_request_hdr i ip = \<lparr>ar_hrd = htons arp_hrd_ethernet, ar_pro = htons ethertype_ip, ar_hln = 6,
     ar_pln = 4, ar_op = htons arp_op_request, ar_sha = if_addr i, ar_sip = if_ip i,
     ar_tha = replicate 6 0, ar_tip = ip\<rparr>"

definition arp_request_frame :: "sr_if \<Rightarrow> u32 \<Rightarrow> bytes" where
  "arp_request_frame i ip =
     arp_frame \<lparr>ether_dhost = replicate 6 0xFF, ether_shost = if_addr i,
                ether_type = htons ethertype_arp\<rparr> (arp_request_hdr i ip) []"

text \<open>Every byte of the allocated frame is written.\<close>

lemma arp_request_packet_eq:
  assumes "length junk = sizeof_eth + sizeof_arp" "length (if_addr i) = 6"
  shows "arp_request_packet junk i ip = Inr (arp_request_frame i ip)"
proof -
  obtain e0 a0 p0 where j: "wf_eth e0" "wf_arp a0" "junk = arp_frame e0 a0 p0"
    using arp_frame_split [of junk] assms(1) by auto
  with assms(1) have "p0 = []"
    by simp
  with j assms(2) show ?thesis
    by (cases a0) (simp add: arp_request_packet_def arp_header_init_def frame_simps wf_eth_def wf_arp_def
        ETHER_ADDR_LEN_def arp_request_frame_def arp_request_hdr_def)
qed

text \<open>A request is due when more than a second (of whole seconds) has passed since the last.\<close>

definition req_due :: "sr_instance \<Rightarrow> sr_arpreq \<Rightarrow> bool" where
  "req_due sr q \<longleftrightarrow> clock_sec sr - rq_sent q > 1"

definition req_expired :: "sr_instance \<Rightarrow> sr_arpreq \<Rightarrow> bool" where
  "req_expired sr q \<longleftrightarrow> req_due sr q \<and> rq_times_sent q \<ge> 5"

definition bump :: "int \<Rightarrow> sr_arpreq \<Rightarrow> sr_arpreq" where
  "bump now r = r\<lparr>rq_sent := now, rq_times_sent := rq_times_sent r + 1\<rparr>"

lemma handle_arpreq_wait:
  "deref_req (requests (cache sr)) p = Some q \<Longrightarrow> \<not> req_due sr q \<Longrightarrow>
   handle_arpreq (Suc depth) sr p = Inr sr"
  by (simp add: handle_arpreq_body_def req_due_def)

text \<open>Sending the request for an address through an interface.\<close>

lemma retry_sends:
  assumes "config_ok sr" "sr_get_interface (if_list sr) n = Some i"
  shows "\<exists>k sr1. arp_request_packet (heap_junk sr (sizeof_eth + sizeof_arp)) i ip = Inr (arp_request_frame i ip)
    \<and> sr_send_packet sr (arp_request_frame i ip) (sizeof_eth + sizeof_arp) (if_name i) = Inr (k, sr1)
    \<and> emitted sr (if_name i) (arp_request_frame i ip) sr1"
proof -
  have addr: "length (if_addr i) = 6"
    using config_okD(2) assms by blast
  let ?e = "\<lparr>ether_dhost = replicate 6 0xFF, ether_shost = if_addr i, ether_type = htons ethertype_arp\<rparr>"
  have wf: "wf_eth ?e" "wf_arp (arp_request_hdr i ip)"
    using addr by (simp_all add: wf_eth_def wf_arp_def arp_request_hdr_def)
  then have len: "length (arp_request_frame i ip) = sizeof_eth + sizeof_arp"
    by (simp add: arp_request_frame_def)
  have "\<exists>k sr1. sr_send_packet sr (arp_request_frame i ip) (length (arp_request_frame i ip)) (if_name i) = Inr (k, sr1)
      \<and> emitted sr (if_name i) (arp_request_frame i ip) sr1"
    using wf addr get_interface_own_name [OF assms(2)] unfolding arp_request_frame_def arp_frame_def
    by (intro send_at [of ?e i]) (simp_all add: sizeof_defs)
  moreover have "arp_request_packet (heap_junk sr (sizeof_eth + sizeof_arp)) i ip = Inr (arp_request_frame i ip)"
    using arp_request_packet_eq [of "heap_junk sr (sizeof_eth + sizeof_arp)" i ip] assms(1) addr
    by (simp add: config_okD(3))
  ultimately show ?thesis
    unfolding len by blast
qed

lemma handle_arpreq_retry:
  assumes "config_ok sr" "deref_req (requests (cache sr)) p = Some q" "req_due sr q"
    and "\<not> rq_times_sent q \<ge> 5" "rq_packets q = pkt # pkts"
    and i: "sr_get_interface (if_list sr) (pk_iface pkt) = Some i"
  shows "\<exists>sr1. handle_arpreq (Suc depth) sr p
        = Inr (sr1\<lparr>cache := update_req p (bump (clock_sec sr)) (cache sr)\<rparr>)
      \<and> emitted sr (if_name i) (arp_request_frame i (rq_ip q)) sr1"
proof -
  obtain k sr1 where
    send: "arp_request_packet (heap_junk sr (sizeof_eth + sizeof_arp)) i (rq_ip q) = Inr (arp_request_frame i (rq_ip q))"
    "sr_send_packet sr (arp_request_frame i (rq_ip q)) (sizeof_eth + sizeof_arp) (if_name i) = Inr (k, sr1)"
    and em: "emitted sr (if_name i) (arp_request_frame i (rq_ip q)) sr1"
    using retry_sends [OF assms(1) i] by blast
  have "handle_arpreq (Suc depth) sr p
      = Inr (sr1\<lparr>cache := update_req p (bump (clock_sec sr)) (cache sr)\<rparr>)"
    using assms send
    by (simp add: handle_arpreq_body_def req_due_def Let_def emitted_fields(1) [OF em] bump_def [abs_def])
  with em show ?thesis
    by blast
qed

end
