(* ===== verification/Icmp.thy ===== *)
theory Icmp
  imports Transmit
begin

text \<open>
  The ICMP messages of \<^verbatim>\<open>send_icmp_msg\<close> as frames: the error message that quotes the offending
  datagram, and the echo reply made in place.  Both carry checksums that verify, for the IP header
  and for the ICMP message.
\<close>

section \<open>Error messages\<close>

definition zero_eth :: "sr_ethernet_hdr" where
  "zero_eth = \<lparr>ether_dhost = replicate 6 0, ether_shost = replicate 6 0, ether_type = htons ethertype_ip\<rparr>"

lemma wf_zero_eth [simp]: "wf_eth zero_eth"
  by (simp add: zero_eth_def wf_eth_def)

definition t3_hdr :: "u8 \<Rightarrow> u8 \<Rightarrow> bytes \<Rightarrow> sr_icmp_t3_hdr" where
  "t3_hdr type code d = \<lparr>icmp_type = type, icmp_code = code, icmp_sum = 0, unused = 0, next_mtu = 0,
     icmp_data = d\<rparr>"

definition t3_message :: "u8 \<Rightarrow> u8 \<Rightarrow> bytes \<Rightarrow> bytes" where
  "t3_message type code d =
     enc_icmp_t3 ((t3_hdr type code d)\<lparr>icmp_sum := cksum_value (enc_icmp_t3 (t3_hdr type code d))\<rparr>)"

text \<open>\<open>icmp_error_body h p code i\<close>: the bytes after the Ethernet header, for the datagram \<open>h, p\<close>.\<close>

definition icmp_error_body :: "u8 \<Rightarrow> u8 \<Rightarrow> sr_ip_hdr \<Rightarrow> bytes \<Rightarrow> sr_if \<Rightarrow> bytes" where
  "icmp_error_body type code h p i =
     enc_ip (with_checksum (icmp_error_ip h code i)) @ t3_message type code (take 28 (enc_ip h @ p))"

lemma wf_t3_hdr [simp]: "length d = 28 \<Longrightarrow> wf_icmp_t3 (t3_hdr type code d)"
  by (simp add: t3_hdr_def wf_icmp_t3_def ICMP_DATA_SIZE_def)

lemma wf_t3_sum [simp]: "wf_icmp_t3 (c\<lparr>icmp_sum := s\<rparr>) = wf_icmp_t3 c"
  by (simp add: wf_icmp_t3_def)

lemma t3_message_verifies:
  assumes "length d = 28"
  shows "oc_sum (t3_message type code d) = 65535"
proof -
  let ?m = "enc_icmp_t3 (t3_hdr type code d)"
  have "t3_message type code d = patch 2 (bytes16 (cksum_value ?m)) ?m"
    by (simp add: t3_message_def t3_hdr_def enc_icmp_t3_def patch_def bytes16_def)
  also have "oc_sum \<dots> = 65535"
    by (rule cksum_fills)
       (use assms in \<open>simp_all add: sizeof_icmp_t3_def\<close>, simp add: t3_hdr_def enc_icmp_t3_def slice_def bytes16_def)
  finally show ?thesis .
qed

text \<open>The code fills every byte of the new frame when the header it answers has no options.\<close>

lemma icmp_error_packet_eq:
  assumes e: "wf_eth e" and hl: "ip_hl h = 5" and p: "8 \<le> length p"
    and j: "length junk = icmp_new_len h"
  shows "icmp_error_packet junk (ip_frame e h p) type code h i
    = Inr (enc_eth zero_eth @ icmp_error_body type code h p i)"
proof -
  obtain e0 h0 r where r: "wf_eth e0" "junk = ip_frame e0 h0 r"
    using ip_frame_split [of junk] j hl by (auto simp: icmp_new_len_def ip_hdr_bytes_5)
  with j hl have len: "length r = sizeof_icmp_t3"
    by (simp add: icmp_new_len_def ip_hdr_bytes_5)
  define d where "d = take 28 (enc_ip h @ p)"
  define g where "g = icmp_error_ip h code i"
  have d: "length d = 28"
    using p by (simp add: d_def sizeof_ip_def)
  have off: "length (enc_eth zero_eth @ enc_ip g) = sizeof_eth + sizeof_ip" for g
    by simp
  have zero: "g\<lparr>ip_sum := 0\<rparr> = g"
    by (simp add: g_def icmp_error_ip_def)
  have ck: "cksum (enc_ip g @ r) (int sizeof_ip) = Inr (ip_checksum g)"
    using cksum_header [of g r] zero by simp
  have ld: "load (ip_frame e h p) sizeof_eth ICMP_DATA_SIZE = Inr d"
    using e p by (simp add: slice_def frame_simps ICMP_DATA_SIZE_def sizeof_ip_def d_def)
  have wr: "write_struct enc_icmp_t3 (ip_frame zero_eth g m) (sizeof_eth + sizeof_ip) c
      = Inr (ip_frame zero_eth g (enc_icmp_t3 c))" if "length m = 36" "wf_icmp_t3 c" for g m c
    using icmp_t3.write_at [OF that(2) off [of g] that(1), where post = "[]"]
    by (simp add: ip_frame_def)
  have dr: "drop (sizeof_eth + sizeof_ip) (ip_frame zero_eth g m) = m" for g m
    by (simp add: ip_frame_def)
  have sum: "cksum (enc_icmp_t3 c) 36 = Inr (cksum_value (enc_icmp_t3 c))" if "wf_icmp_t3 c" for c
    using that by (simp add: cksum_Inr sizeof_icmp_t3_def)
  have wf: "wf_icmp_t3 (t3_hdr type code d)" "length (enc_icmp_t3 (t3_hdr type code d)) = sizeof_icmp_t3"
    using d by simp_all
  have t3: "\<lparr>icmp_type = type, icmp_code = code, icmp_sum = s, unused = 0, next_mtu = 0, icmp_data = d\<rparr>
      = (t3_hdr type code d)\<lparr>icmp_sum := s\<rparr>"
    and t3_0: "(t3_hdr type code d)\<lparr>icmp_sum := 0\<rparr> = t3_hdr type code d" for s
    by (simp_all add: t3_hdr_def)
  have "icmp_error_packet junk (ip_frame e h p) type code h i
      = Inr (ip_frame zero_eth (with_checksum g) (t3_message type code d))"
    using r(1) wf len hl
    by (simp add: icmp_error_packet_def r(2) Let_def g_def [symmetric] frame_simps zero_eth_def [symmetric]
        ETHER_ADDR_LEN_def ip_hdr_bytes_5 ck ld wr dr sum t3 t3_0 sizeof_icmp_t3_def with_checksum_def
        t3_message_def)
  then show ?thesis
    by (simp add: ip_frame_def icmp_error_body_def g_def d_def)
qed

section \<open>Echo replies\<close>

definition swap_addrs :: "sr_ip_hdr \<Rightarrow> sr_ip_hdr" where
  "swap_addrs h = h\<lparr>ip_src := ip_dst h, ip_dst := ip_src h\<rparr>"

text \<open>Exchanging the addresses keeps the header checksum valid without recomputing it.\<close>

lemma swap_word_sum: "word_sum (enc_ip (swap_addrs h)) = word_sum (enc_ip h)"
  by (simp add: enc_ip_def swap_addrs_def bytes16_def bytes32_def)

lemma swap_valid: "ip_valid h \<Longrightarrow> ip_valid (swap_addrs h)"
proof -
  have "(swap_addrs h)\<lparr>ip_sum := 0\<rparr> = swap_addrs (h\<lparr>ip_sum := 0\<rparr>)"
    by (simp add: swap_addrs_def)
  then have "ip_checksum (swap_addrs h) = ip_checksum h"
    unfolding ip_checksum_def by (simp add: cksum_value_cong swap_word_sum sizeof_ip_def)
  then show "ip_valid h \<Longrightarrow> ip_valid (swap_addrs h)"
    by (simp add: ip_valid_def swap_addrs_def)
qed

definition echo_reply_body :: "u8 \<Rightarrow> u8 \<Rightarrow> sr_ip_hdr \<Rightarrow> bytes \<Rightarrow> bytes" where
  "echo_reply_body type code h d =
     (let n = unat (ntohs (ip_len h)) - sizeof_ip;
          c = \<lparr>icmp_type = type, icmp_code = code, icmp_sum = 0\<rparr>
      in enc_ip (swap_addrs h)
         @ enc_icmp (c\<lparr>icmp_sum := cksum_value (take n (enc_icmp c @ d))\<rparr>) @ d)"

text \<open>
  The ICMP message of the reply verifies when the IP length covers at least its header: the sum
  over the message is all ones.
\<close>

lemma enc_icmp_sum: "enc_icmp (c\<lparr>icmp_sum := s\<rparr>) @ d = patch 2 (bytes16 s) (enc_icmp c @ d)"
  by (simp add: enc_icmp_def patch_def bytes16_def)

lemma take_patch:
  "i + length v \<le> n \<Longrightarrow> i + length v \<le> length b \<Longrightarrow> take n (patch i v b) = patch i v (take n b)"
proof -
  assume n: "i + length v \<le> n" and "i + length v \<le> length b"
  moreover from n obtain k where "n = i + length v + k"
    using le_Suc_ex by blast
  ultimately show ?thesis
    by (simp add: patch_def min_def drop_take)
qed

lemma slice_take: "i + m \<le> n \<Longrightarrow> slice i m (take n b) = slice i m b"
  by (simp add: slice_def drop_take min_def)

lemma icmp_sum_verifies:
  assumes "4 \<le> n" "n \<le> length (enc_icmp c @ d)" "n \<le> 65535" "icmp_sum c = 0"
  shows "oc_sum (take n (enc_icmp (c\<lparr>icmp_sum := cksum_value (take n (enc_icmp c @ d))\<rparr>) @ d)) = 65535"
proof -
  have "slice 2 2 (take n (enc_icmp c @ d)) = slice 2 2 (enc_icmp c @ d)"
    using assms(1) by (intro slice_take) simp
  also have "\<dots> = [0, 0]"
    using assms(4) by (simp add: enc_icmp_def bytes16_def slice_def)
  finally have "oc_sum (patch 2 (bytes16 (cksum_value (take n (enc_icmp c @ d))))
      (take n (enc_icmp c @ d))) = 65535"
    using assms(1-3) by (intro cksum_fills) simp_all
  moreover have "2 + length (bytes16 (cksum_value (take n (enc_icmp c @ d)))) \<le> length (enc_icmp c @ d)"
    by (simp add: sizeof_icmp_def)
  ultimately show ?thesis
    unfolding enc_icmp_sum using assms(1) by (subst take_patch) simp_all
qed

lemma echo_reply_packet_eq:
  assumes e: "wf_eth e" and hl: "ip_hl h = 5"
    and n: "unat (ntohs (ip_len h)) \<le> sizeof_ip + (sizeof_icmp + length d)"
  shows "echo_reply_packet (ip_frame e h (enc_icmp c @ d)) type code
    = Inr (enc_eth (eth_to (replicate 6 0) (replicate 6 0) e) @ echo_reply_body type code h d)"
proof -
  let ?e = "eth_to (replicate 6 0) (replicate 6 0) e"
  let ?c = "\<lparr>icmp_type = type, icmp_code = code, icmp_sum = 0\<rparr>"
  let ?n = "unat (ntohs (ip_len h))"
  have off: "length (enc_eth ?e @ enc_ip g) = sizeof_eth + sizeof_ip" for g
    by simp
  have wr: "write_struct enc_icmp (ip_frame ?e g (enc_icmp a @ d)) (sizeof_eth + sizeof_ip) b
      = Inr (ip_frame ?e g (enc_icmp b @ d))" for g a b
    using icmp.write_over [OF TrueI TrueI off [of g], where h = a and h' = b and post = d] by (simp add: ip_frame_def)
  have rd: "read_struct dec_icmp sizeof_icmp (ip_frame ?e g (enc_icmp a @ d)) (sizeof_eth + sizeof_ip)
      = Inr a" for g a
    using icmp.read_at [OF TrueI off [of g], where h = a and post = d] by (simp add: ip_frame_def sizeof_icmp_def)
  have dr: "drop (sizeof_eth + sizeof_ip) (ip_frame ?e g m) = m" for g m
    by (simp add: ip_frame_def)
  have set: "set_ether_addrs (ip_frame e h m) (replicate 6 0) (replicate 6 0) = Inr (ip_frame ?e h m)" for m
    using e set_ether_addrs_at [of e "replicate 6 0" "replicate 6 0"] by (simp add: ip_frame_def)
  define s where "s = cksum_value (take (?n - sizeof_ip) (enc_icmp ?c @ d))"
  have "cksum (enc_icmp ?c @ d) (int ?n - int sizeof_ip) = Inr s"
    using n unfolding s_def by (subst cksum_Inr) (simp_all add: nat_diff_distrib' nat_le_iff)
  then have sum: "cksum (enc_icmp ?c @ d) (uint (ntohs (ip_len h)) - int sizeof_ip) = Inr s"
    by simp
  have swap: "h\<lparr>ip_dst := ip_src h, ip_src := ip_dst h\<rparr> = swap_addrs h"
    by (simp add: swap_addrs_def)
  have same: "ip_hdr_bytes (swap_addrs h) = sizeof_ip" "ip_len (swap_addrs h) = ip_len h"
    using hl by (simp_all add: swap_addrs_def ip_hdr_bytes_def sizeof_ip_def)
  show ?thesis
    using e hl
    by (simp add: echo_reply_packet_def ETHER_ADDR_LEN_def set frame_simps Let_def ip_hdr_bytes_5
        swap same wr dr sum rd echo_reply_body_def s_def [symmetric] del: take_append)
       (simp add: ip_frame_def)
qed

end
