(* ===== verification/Handlers.thy ===== *)
theory Handlers
  imports Icmp
begin

text \<open>
  The handlers evaluated on frames.  \<open>parked\<close> and \<open>emitted\<close> are the two outcomes of sending a
  datagram towards a next hop; the lemmas below give, branch by branch, what \<^verbatim>\<open>sr_handlepacket\<close> does
  with an IP or ARP frame, and that it returns.
\<close>

section \<open>Addressing a frame\<close>

definition readdress :: "bytes \<Rightarrow> bytes \<Rightarrow> bytes \<Rightarrow> bytes" where
  "readdress dhost shost b = dhost @ shost @ drop 12 b"

lemma readdress_at: "wf_eth e \<Longrightarrow> readdress d s (enc_eth e @ r) = enc_eth (eth_to d s e) @ r"
  by (simp add: readdress_def enc_eth_def eth_to_def wf_eth_def)

lemma readdress_twice [simp]:
  "length d = 6 \<Longrightarrow> length s = 6 \<Longrightarrow> readdress d' s' (readdress d s b) = readdress d' s' b"
  by (simp add: readdress_def)

lemma length_readdress [simp]:
  "length d = 6 \<Longrightarrow> length s = 6 \<Longrightarrow> sizeof_eth \<le> length b \<Longrightarrow> length (readdress d s b) = length b"
  by (simp add: readdress_def sizeof_eth_def)

lemma set_ether_addrs_eq:
  assumes "sizeof_eth \<le> length b" "length d = 6" "length s = 6"
  shows "set_ether_addrs b d s = Inr (readdress d s b)"
proof -
  obtain e where "wf_eth e" "b = enc_eth e @ drop sizeof_eth b"
    using eth_split [OF assms(1)] by blast
  then show ?thesis
    using set_ether_addrs_at [of e d s "drop sizeof_eth b"] readdress_at [of e d s "drop sizeof_eth b"]
      assms(2,3) by simp
qed

lemma send_readdressed:
  assumes "sizeof_eth \<le> length b" "length b < 2 ^ 31" "length d = 6"
    and "sr_get_interface (if_list sr) n = Some i" "length (if_addr i) = 6"
  shows "\<exists>k sr'. sr_send_packet sr (readdress d (if_addr i) b) (length b) n = Inr (k, sr')
    \<and> emitted sr n (readdress d (if_addr i) b) sr'"
proof -
  obtain e r where e: "wf_eth e" "b = enc_eth e @ r"
    using eth_split [OF assms(1)] by blast
  let ?f = "enc_eth (eth_to d (if_addr i) e) @ r"
  have f: "readdress d (if_addr i) b = ?f" "length b = length ?f"
    using e readdress_at assms(3,5) by simp_all
  have "\<exists>k sr'. sr_send_packet sr ?f (length ?f) n = Inr (k, sr') \<and> emitted sr n ?f sr'"
    using assms f(2) by (intro send_at) simp_all
  then show ?thesis
    by (simp only: f)
qed

section \<open>Towards a next hop\<close>

text \<open>
  The outcome when the next hop is unknown: the frame waits at the head of its queue, nothing else
  about the tables changes, and an ARP request for the hop goes out when one is due.
\<close>

definition parked :: "sr_instance \<Rightarrow> u32 \<Rightarrow> sr_if \<Rightarrow> bytes \<Rightarrow> sr_instance \<Rightarrow> bool" where
  "parked sr ip i b sr' \<longleftrightarrow>
     waiting (cache sr') = (waiting (cache sr))
       (ip \<mapsto> queued b (length b) (if_name i) # (case waiting (cache sr) ip of None \<Rightarrow> [] | Some ps \<Rightarrow> ps))
     \<and> cache_map (cache sr') = cache_map (cache sr)
     \<and> written sr' = written sr @
         (if req_due sr (queue_target (cache sr) ip)
          then [packet_message (if_name i) (arp_request_frame i ip)] else [])"

lemma queue_target_ip [simp]: "rq_ip (queue_target c ip) = ip"
  by (auto simp: queue_target_def new_req_def dest: req_ip.lookup_Some split: option.split)

lemma push_packet_simps [simp]: "rq_ip (push_packet q r) = rq_ip r"
  "rq_ptr (push_packet q r) = rq_ptr r" "rq_times_sent (push_packet q r) = rq_times_sent r"
  "rq_packets (push_packet q r) = q # rq_packets r" "rq_sent (push_packet q r) = rq_sent r"
  by (simp_all add: push_packet_def)

lemma waiting_bump [simp]: "waiting (update_req p (bump t) c) = waiting c"
proof (rule ext)
  fix ip
  have "find_req (requests (update_req p (bump t) c)) ip
      = map_option (\<lambda>r. if rq_ptr r = p then bump t r else r) (find_req (requests c) ip)"
    unfolding update_req_def by (simp add: find_map_update bump_def)
  then show "waiting (update_req p (bump t) c) ip = waiting c ip"
    by (simp add: waiting_def option.map_comp) (simp add: map_option_case bump_def split: option.split)
qed

lemma cache_map_bump [simp]: "cache_map (update_req p f c) = cache_map c"
  by (simp add: cache_map_def sr_arpcache_lookup_def fun_eq_iff)

lemma send_or_queue_parks:
  assumes "config_ok sr" "arp_inv (cache sr)" "sr_get_interface (if_list sr) n = Some i"
    and "frame_len (length b)" "sr_arpcache_lookup (cache sr) ip = None"
    and ok: "\<not> req_expired sr (queue_target (cache sr) ip)"
  shows "\<exists>sr'. send_or_queue (handle_arpreq (Suc depth)) sr b (length b) ip (Some i) = Inr sr'
    \<and> parked sr ip i b sr'"
proof -
  let ?q = "push_packet (queued b (length b) (if_name i)) (queue_target (cache sr) ip)"
  obtain c p where q: "sr_arpcache_queuereq (cache sr) ip b (length b) (if_name i) = Inr (c, p)"
    and run: "send_or_queue (handle_arpreq (Suc depth)) sr b (length b) ip (Some i)
      = handle_arpreq (Suc depth) (sr\<lparr>cache := c\<rparr>) p"
    using send_or_queue_miss [OF assms(5,4) order_refl] by blast
  note laws = cache.queue_laws [OF assms(2,4) order_refl q]
  have deref: "deref_req (requests c) p = Some ?q"
    using queuereq_deref [OF assms(2,4) order_refl q] .
  have due: "req_due (sr\<lparr>cache := c\<rparr>) ?q \<longleftrightarrow> req_due sr (queue_target (cache sr) ip)"
    by (simp add: req_due_def)
  show ?thesis
  proof (cases "req_due sr (queue_target (cache sr) ip)")
    case False
    then have "handle_arpreq (Suc depth) (sr\<lparr>cache := c\<rparr>) p = Inr (sr\<lparr>cache := c\<rparr>)"
      using deref due by (intro handle_arpreq_wait) auto
    then show ?thesis
      using run laws False by (simp add: parked_def)
  next
    case True
    have "\<exists>sr1. handle_arpreq (Suc depth) (sr\<lparr>cache := c\<rparr>) p = Inr (sr1\<lparr>cache :=
            update_req p (bump (clock_sec (sr\<lparr>cache := c\<rparr>))) (cache (sr\<lparr>cache := c\<rparr>))\<rparr>)
        \<and> emitted (sr\<lparr>cache := c\<rparr>) (if_name i) (arp_request_frame i (rq_ip ?q)) sr1"
      using True ok assms(1) deref due get_interface_own_name [OF assms(3)]
      by (intro handle_arpreq_retry [where pkts = "rq_packets (queue_target (cache sr) ip)"
            and pkt = "queued b (length b) (if_name i)"])
         (auto simp: config_ok_def req_expired_def queued_def)
    then obtain sr1 where "handle_arpreq (Suc depth) (sr\<lparr>cache := c\<rparr>) p
        = Inr (sr1\<lparr>cache := update_req p (bump (clock_sec sr)) c\<rparr>)"
      and "emitted (sr\<lparr>cache := c\<rparr>) (if_name i) (arp_request_frame i ip) sr1"
      by auto
    then show ?thesis
      using run laws True by (auto simp: parked_def dest: emitted_fields)
  qed
qed

text \<open>A frame towards a next hop is sent or parked; no other outcome is possible while no request
  has run out of retries.\<close>

definition no_expired :: "sr_instance \<Rightarrow> bool" where
  "no_expired sr \<longleftrightarrow> (\<forall>q \<in> set (requests (cache sr)). \<not> req_expired sr q)"

lemma target_not_expired: "no_expired sr \<Longrightarrow> \<not> req_expired sr (queue_target (cache sr) ip)"
  by (auto simp: no_expired_def queue_target_def new_req_def req_expired_def
      dest: req_ip.lookup_in_set split: option.split)

lemma send_or_queue_sends:
  assumes "arp_inv (cache sr)" "sr_get_interface (if_list sr) n = Some i" "length (if_addr i) = 6"
    and "frame_len (length b)" "sr_arpcache_lookup (cache sr) ip = Some a"
  shows "\<exists>sr'. send_or_queue harq sr b (length b) ip (Some i) = Inr sr'
    \<and> emitted sr (if_name i) (readdress (en_mac a) (if_addr i) b) sr'"
proof -
  have mac: "length (en_mac a) = 6"
    using lookup_mac_length assms(1,5) by blast
  have len: "sizeof_eth \<le> length b" "length b < 2 ^ 31"
    using assms(4) by (simp_all add: frame_len_def)
  obtain k sr' where "sr_send_packet sr (readdress (en_mac a) (if_addr i) b) (length b) (if_name i)
      = Inr (k, sr')" "emitted sr (if_name i) (readdress (en_mac a) (if_addr i) b) sr'"
    using send_readdressed [OF len mac get_interface_own_name [OF assms(2)] assms(3)] by blast
  then show ?thesis
    using assms(5) by (simp add: send_or_queue_def set_ether_addrs_eq [OF len(1) mac assms(3)])
qed

lemma send_or_queue_total:
  assumes "config_ok sr" "arp_inv (cache sr)" "sr_get_interface (if_list sr) n = Some i"
    and "frame_len (length b)" "no_expired sr"
  shows "\<exists>sr'. send_or_queue (handle_arpreq (Suc depth)) sr b (length b) ip (Some i) = Inr sr'"
proof (cases "sr_arpcache_lookup (cache sr) ip")
  case None
  then show ?thesis
    using send_or_queue_parks [OF assms(1-4) None target_not_expired [OF assms(5)]] by blast
next
  case (Some a)
  then show ?thesis
    using send_or_queue_sends [OF assms(2,3) config_okD(2) [OF assms(1,3)] assms(4)] by blast
qed

end
