(* ===== verification/Ip_Handling.thy ===== *)
theory Ip_Handling
  imports Handlers
begin

text \<open>
  \<^verbatim>\<open>sr_handlepacket\<close> on IP frames whose header has no options: which branch is taken, what it
  sends, and that it returns.  \<open>unanswerable\<close> and the like name the conditions of the branches.
\<close>

section \<open>The branches\<close>

definition forwarded :: "sr_ip_hdr \<Rightarrow> sr_ip_hdr" where
  "forwarded h = with_checksum (h\<lparr>ip_ttl := ip_ttl h - 1\<rparr>)"

lemma forwarded_simps [simp]: "ip_hl (forwarded h) = ip_hl h" "ip_src (forwarded h) = ip_src h"
  "ip_dst (forwarded h) = ip_dst h" "ip_len (forwarded h) = ip_len h"
  "ip_p (forwarded h) = ip_p h" "ip_ttl (forwarded h) = ip_ttl h - 1"
  by (simp_all add: forwarded_def with_checksum_def)

lemma forwarded_valid: "ip_valid h \<Longrightarrow> ip_valid (forwarded h)"
  by (simp add: forwarded_def) (simp add: ip_valid_def)

lemma handlepacket_ip:
  "wf_eth e \<Longrightarrow> ether_type e = htons ethertype_ip \<Longrightarrow>
   sr_handlepacket depth sr (ip_frame e h p) len iface
     = (if len < sizeof_eth then Inr sr else handle_ip depth sr (ip_frame e h p) len)"
  by (simp add: sr_handlepacket_def frame_simps Let_def proto_consts)

lemma handle_ip_bad_checksum:
  assumes "wf_eth e" "ip_hl h = 5" "ip_sum h \<noteq> ip_checksum h"
  shows "handle_ip depth sr (ip_frame e h p) len = Inr sr"
  using assms by (auto simp: handle_ip_def frame_simps Let_def ip_hdr_bytes_5)

text \<open>For a valid header, the checks of \<open>handle_ip\<close> reduce to the TTL and the destination.\<close>

lemma handle_ip_valid:
  assumes "wf_eth e" "ip_valid h" "sizeof_eth + sizeof_ip \<le> len"
  shows "handle_ip depth sr (ip_frame e h p) len =
    (if ip_ttl h \<le> 1 then send_icmp_msg depth sr (ip_frame e h p) len icmp_type_time_exceeded 0
     else if ip_dst h = 0 then Inl AssertFailed
     else if if_by_ip (if_list sr) (ip_dst h) = None
     then sr_forward_ip_packet depth sr (ip_frame e h p) len
     else if ip_p h = ip_protocol_icmp
     then bindE (load p 0 1) (\<lambda>t.
       if hd t = icmp_type_echo_request
       then send_icmp_msg depth sr (ip_frame e h p) len icmp_type_echo_reply 0 else Inr sr)
     else if ip_p h = ip_protocol_tcp \<or> ip_p h = ip_protocol_udp
     then send_icmp_msg depth sr (ip_frame e h p) len icmp_type_dest_unreachable
            icmp_dest_unreachable_port
     else Inr sr)"
proof -
  have ld: "load (ip_frame e h p) (sizeof_eth + sizeof_ip) 1 = load p 0 1"
    using assms(1) by (simp add: load_def slice_def ip_frame_def)
  show ?thesis
    using assms ld
    by (auto simp: handle_ip_def ip_valid_def frame_simps Let_def ip_hdr_bytes_5
        sr_get_interface_by_ip_def)
qed

lemma forward_valid:
  assumes "wf_eth e" "ip_valid h" "\<not> ip_ttl h \<le> 1"
  shows "sr_forward_ip_packet depth sr (ip_frame e h p) len =
    (case longest_prefix_matching (routing_table sr) (ip_dst h) of
       None \<Rightarrow> send_icmp_msg depth sr (ip_frame e (forwarded h) p) len icmp_type_dest_unreachable
                icmp_dest_unreachable_net
     | Some r \<Rightarrow> send_or_queue (handle_arpreq depth) sr (ip_frame e (forwarded h) p) len (gw r)
                (sr_get_interface (if_list sr) (rt_interface r)))"
proof -
  have fwd: "h\<lparr>ip_ttl := ip_ttl h - 1, ip_sum := 0,
      ip_sum := ip_checksum (h\<lparr>ip_ttl := ip_ttl h - 1\<rparr>)\<rparr> = forwarded h"
    by (simp add: forwarded_def with_checksum_def)
  have ck: "cksum (enc_ip (h\<lparr>ip_ttl := ip_ttl h - 1, ip_sum := 0\<rparr>) @ p) (int sizeof_ip)
      = Inr (ip_checksum (h\<lparr>ip_ttl := ip_ttl h - 1\<rparr>))"
    using cksum_header [of "h\<lparr>ip_ttl := ip_ttl h - 1\<rparr>" p] by simp
  show ?thesis
    using assms
    by (simp add: sr_forward_ip_packet_def ip_valid_def frame_simps Let_def ck fwd split: option.split)
qed

section \<open>ICMP on frames\<close>

text \<open>Where an ICMP message about a datagram from \<open>src\<close> goes, if anywhere.\<close>

definition way_back :: "sr_instance \<Rightarrow> u32 \<Rightarrow> (sr_rt \<times> sr_if) option" where
  "way_back sr src =
     (case longest_prefix_matching (routing_table sr) src of
        None \<Rightarrow> None
      | Some r \<Rightarrow> map_option (Pair r) (sr_get_interface (if_list sr) (rt_interface r)))"

lemma way_back_Some:
  "way_back sr src = Some (r, i) \<longleftrightarrow> longest_prefix_matching (routing_table sr) src = Some r
     \<and> sr_get_interface (if_list sr) (rt_interface r) = Some i"
  by (auto simp: way_back_def split: option.splits)

lemma way_back_None:
  "config_ok sr \<Longrightarrow> way_back sr src = None \<Longrightarrow> longest_prefix_matching (routing_table sr) src = None"
  by (auto simp: way_back_def dest: config_okD(4) split: option.splits)

definition icmp_error_frame :: "u8 \<Rightarrow> u8 \<Rightarrow> sr_ip_hdr \<Rightarrow> bytes \<Rightarrow> sr_if \<Rightarrow> bytes" where
  "icmp_error_frame type code h p i = enc_eth zero_eth @ icmp_error_body type code h p i"

lemma length_t3_message [simp]: "length d = 28 \<Longrightarrow> length (t3_message type code d) = sizeof_icmp_t3"
  by (simp add: t3_message_def)

lemma length_icmp_error_frame:
  "8 \<le> length p \<Longrightarrow> length (icmp_error_frame type code h p i) = 70"
proof -
  assume "8 \<le> length p"
  then have "length (take 28 (enc_ip h @ p)) = 28"
    by (simp add: sizeof_ip_def)
  then show ?thesis
    unfolding icmp_error_frame_def icmp_error_body_def
    by (simp add: sizeof_defs del: take_append)
qed

text \<open>The printing at the start of \<^verbatim>\<open>send_icmp_msg\<close> stays inside the frame and the names.\<close>

lemma send_icmp_prints:
  assumes "config_ok sr" "wf_eth e"
  shows "send_icmp_msg depth sr (ip_frame e h p) len type code =
    (case longest_prefix_matching (routing_table sr) (ip_src h) of
       None \<Rightarrow> Inr sr
     | Some rt_entry \<Rightarrow>
       (let interface = sr_get_interface (if_list sr) (rt_interface rt_entry) in
        if type = icmp_type_echo_reply
        then bindE (echo_reply_packet (ip_frame e h p) type code) (\<lambda>q.
             send_or_queue (handle_arpreq depth) sr q len (gw rt_entry) interface)
        else if type = icmp_type_time_exceeded \<or> type = icmp_type_dest_unreachable
        then (case interface of
                None \<Rightarrow> Inl NullDeref
              | Some i \<Rightarrow>
                bindE (icmp_error_packet (heap_junk sr (icmp_new_len h)) (ip_frame e h p) type code h i)
                  (\<lambda>q. send_or_queue (handle_arpreq depth) sr q (icmp_new_len h) (gw rt_entry) interface))
        else Inr sr))"
proof -
  have "sizeof_ip \<le> length (ip_frame e h p)"
    using assms(2) by simp
  then obtain s1 s2 where "print_hdr_ip (ip_frame e h p) = Inr s1" "sr_print_if_list (if_list sr) = Inr s2"
    using print_hdr_ip_ok config_ok_prints [OF assms(1)] by blast
  then show ?thesis
    using assms(2) by (simp add: send_icmp_msg_def send_icmp_body_def frame_simps)
qed

lemma send_icmp_error:
  assumes "config_ok sr" "wf_eth e" "ip_hl h = 5" "8 \<le> length p"
    and "type = icmp_type_time_exceeded \<or> type = icmp_type_dest_unreachable"
    and "way_back sr (ip_src h) = Some (r, i)"
  shows "send_icmp_msg depth sr (ip_frame e h p) len type code
    = send_or_queue (handle_arpreq depth) sr (icmp_error_frame type code h p i)
        (length (icmp_error_frame type code h p i)) (gw r) (Some i)"
proof -
  have "type \<noteq> icmp_type_echo_reply"
    using assms(5) by (auto simp: icmp_consts)
  moreover have "icmp_error_packet (heap_junk sr (icmp_new_len h)) (ip_frame e h p) type code h i
      = Inr (icmp_error_frame type code h p i)"
    unfolding icmp_error_frame_def
    using assms by (intro icmp_error_packet_eq) (auto simp: config_okD(3))
  moreover have "icmp_new_len h = length (icmp_error_frame type code h p i)"
    using assms(3,4) by (simp add: length_icmp_error_frame icmp_new_len_def ip_hdr_bytes_5 sizeof_defs)
  ultimately show ?thesis
    using assms by (auto simp: send_icmp_prints frame_simps way_back_Some)
qed

lemma send_icmp_no_route:
  "config_ok sr \<Longrightarrow> wf_eth e \<Longrightarrow> longest_prefix_matching (routing_table sr) (ip_src h) = None \<Longrightarrow>
   send_icmp_msg depth sr (ip_frame e h p) len type code = Inr sr"
  by (simp add: send_icmp_prints)

definition echo_reply_frame :: "sr_ethernet_hdr \<Rightarrow> sr_ip_hdr \<Rightarrow> bytes \<Rightarrow> bytes" where
  "echo_reply_frame e h d =
     enc_eth (eth_to (replicate 6 0) (replicate 6 0) e)
     @ echo_reply_body icmp_type_echo_reply 0 h d"

lemma length_echo_reply_frame:
  "wf_eth e \<Longrightarrow> length (echo_reply_frame e h d) = length (ip_frame e h (enc_icmp c @ d))"
  by (simp add: echo_reply_frame_def echo_reply_body_def Let_def)

lemma send_icmp_echo:
  assumes "wf_eth e" "ip_hl h = 5" "unat (ntohs (ip_len h)) \<le> sizeof_ip + (sizeof_icmp + length d)"
    and "way_back sr (ip_src h) = Some (r, i)" "config_ok sr"
  shows "send_icmp_msg depth sr (ip_frame e h (enc_icmp c @ d)) len icmp_type_echo_reply 0
    = send_or_queue (handle_arpreq depth) sr (echo_reply_frame e h d) len (gw r) (Some i)"
  using assms echo_reply_packet_eq [OF assms(1-3), of c icmp_type_echo_reply 0]
  by (simp add: send_icmp_prints way_back_Some echo_reply_frame_def)

section \<open>Totality\<close>

text \<open>
  The IP frames the handlers are written for: no options, eight bytes to quote, a length field
  within the frame, a destination that is not 0.0.0.0.
\<close>

definition answerable :: "sr_ip_hdr \<Rightarrow> bytes \<Rightarrow> bool" where
  "answerable h p \<longleftrightarrow> ip_hl h = 5 \<and> 8 \<le> length p
     \<and> unat (ntohs (ip_len h)) \<le> sizeof_ip + length p \<and> ip_dst h \<noteq> 0"

lemma icmp_split: "sizeof_icmp \<le> length p \<Longrightarrow> \<exists>c d. p = enc_icmp c @ d"
  using icmp.split_at [of p] by (auto simp: sizeof_icmp_def)

definition ready :: "sr_instance \<Rightarrow> bool" where
  "ready sr \<longleftrightarrow> config_ok sr \<and> arp_inv (cache sr) \<and> no_expired sr"

lemma send_icmp_error_total:
  assumes "ready sr" "wf_eth e" "ip_hl h = 5" "8 \<le> length p"
    and "type = icmp_type_time_exceeded \<or> type = icmp_type_dest_unreachable"
  shows "\<exists>sr'. send_icmp_msg (Suc depth) sr (ip_frame e h p) len type code = Inr sr'"
proof (cases "way_back sr (ip_src h)")
  case None
  then show ?thesis
    using assms(1,2) by (simp add: ready_def way_back_None send_icmp_no_route)
next
  case (Some ri)
  obtain r i where ri: "ri = (r, i)"
    by fastforce
  have "frame_len (length (icmp_error_frame type code h p i))"
    using assms(4) by (simp add: length_icmp_error_frame frame_len_def sizeof_eth_def)
  moreover have "sr_get_interface (if_list sr) (rt_interface r) = Some i"
    using Some ri by (simp add: way_back_Some)
  ultimately show ?thesis
    using send_icmp_error [OF _ assms(2-5), of sr r i] send_or_queue_total Some ri assms(1)
    by (auto simp: ready_def)
qed

lemma send_icmp_echo_total:
  assumes "ready sr" "wf_eth e" "answerable h p" "frame_len (length (ip_frame e h p))"
  shows "\<exists>sr'. send_icmp_msg (Suc depth) sr (ip_frame e h p) (length (ip_frame e h p))
    icmp_type_echo_reply 0 = Inr sr'"
proof (cases "way_back sr (ip_src h)")
  case None
  then show ?thesis
    using assms(1,2) by (simp add: ready_def way_back_None send_icmp_no_route)
next
  case (Some ri)
  obtain r i where ri: "ri = (r, i)"
    by fastforce
  obtain c d where p: "p = enc_icmp c @ d"
    using icmp_split [of p] assms(3) by (auto simp: answerable_def sizeof_icmp_def)
  have i: "sr_get_interface (if_list sr) (rt_interface r) = Some i"
    using Some ri by (simp add: way_back_Some)
  have len: "length (ip_frame e h (enc_icmp c @ d)) = length (echo_reply_frame e h d)"
    using length_echo_reply_frame [OF assms(2)] by simp
  then have "frame_len (length (echo_reply_frame e h d))"
    using assms(4) p by simp
  with i obtain sr' where "send_or_queue (handle_arpreq (Suc depth)) sr (echo_reply_frame e h d)
      (length (echo_reply_frame e h d)) (gw r) (Some i) = Inr sr'"
    using send_or_queue_total assms(1) unfolding ready_def by blast
  moreover have "ip_hl h = 5" "unat (ntohs (ip_len h)) \<le> sizeof_ip + (sizeof_icmp + length d)"
    using assms(3) p by (simp_all add: answerable_def)
  ultimately show ?thesis
    using send_icmp_echo [OF assms(2)] assms(1) Some ri len p by (simp add: ready_def)
qed

lemma forward_total:
  assumes "ready sr" "wf_eth e" "ip_valid h" "\<not> ip_ttl h \<le> 1" "8 \<le> length p"
    and len: "frame_len (length (ip_frame e h p))"
  shows "\<exists>sr'. sr_forward_ip_packet (Suc depth) sr (ip_frame e h p) (length (ip_frame e h p)) = Inr sr'"
proof (cases "longest_prefix_matching (routing_table sr) (ip_dst h)")
  case None
  then show ?thesis
    using assms forward_valid [OF assms(2-4)] send_icmp_error_total [OF assms(1,2), of "forwarded h" p]
    by (simp add: ip_valid_def)
next
  case (Some r)
  then obtain i where i: "sr_get_interface (if_list sr) (rt_interface r) = Some i"
    using assms(1) by (auto simp: ready_def dest: config_okD(4))
  have l: "length (ip_frame e (forwarded h) p) = length (ip_frame e h p)"
    using assms(2) by simp
  have "\<exists>sr'. send_or_queue (handle_arpreq (Suc depth)) sr (ip_frame e (forwarded h) p)
      (length (ip_frame e (forwarded h) p)) (gw r) (Some i) = Inr sr'"
    using assms(1) i len unfolding ready_def by (intro send_or_queue_total) (auto simp: l)
  then show ?thesis
    using Some i forward_valid [OF assms(2-4)] by (simp add: l)
qed

lemma handle_ip_total:
  assumes "ready sr" "wf_eth e" "answerable h p" "frame_len (length (ip_frame e h p))"
  shows "\<exists>sr'. handle_ip (Suc depth) sr (ip_frame e h p) (length (ip_frame e h p)) = Inr sr'"
proof (cases "ip_valid h")
  case False
  then show ?thesis
    using assms handle_ip_bad_checksum [OF assms(2)] by (simp add: answerable_def ip_valid_def)
next
  case True
  have p: "ip_hl h = 5" "8 \<le> length p" "ip_dst h \<noteq> 0"
    using assms(3) by (simp_all add: answerable_def)
  have ld: "load p 0 1 = Inr (take 1 p)"
    using p(2) by (simp add: load_def slice_def)
  have long: "sizeof_eth + sizeof_ip \<le> length (ip_frame e h p)"
    using assms(2) by simp
  note errs = send_icmp_error_total [OF assms(1,2) p(1,2)]
  note echo = send_icmp_echo_total [OF assms(1-4)]
  note fwd = forward_total [OF assms(1,2) True _ p(2) assms(4)]
  show ?thesis
    unfolding handle_ip_valid [OF assms(2) True long] ld bindE_Inr
    using errs echo fwd p(3) by (auto simp del: length_ip_frame)
qed

end
