(* ===== verification/Sweep.thy ===== *)
theory Sweep
  imports Arp_Handling
begin

text \<open>
  The cleanup thread: the complete effect of \<^verbatim>\<open>sr_arpcache_sweepreqs\<close> on a queue in which no
  request has run out of retries, the fuel it needs, and what happens to one that has.
\<close>

section \<open>One sweep\<close>

text \<open>What a sweep does to a request, and the messages it sends for a queue of requests.\<close>

definition swept :: "sr_instance \<Rightarrow> sr_arpreq \<Rightarrow> sr_arpreq" where
  "swept sr r = (if req_due sr r then bump (clock_sec sr) r else r)"

fun sweep_messages :: "sr_instance \<Rightarrow> sr_arpreq list \<Rightarrow> bytes list" where
  "sweep_messages sr [] = []"
| "sweep_messages sr (r # rs) =
     (if req_due sr r
      then (case sr_get_interface (if_list sr) (pk_iface (hd (rq_packets r))) of
              None \<Rightarrow> []
            | Some i \<Rightarrow> [packet_message (if_name i) (arp_request_frame i (rq_ip r))])
      else []) @ sweep_messages sr rs"

text \<open>The packets wait for interfaces the router has.\<close>

definition ifaces_known :: "sr_instance \<Rightarrow> bool" where
  "ifaces_known sr \<longleftrightarrow> (\<forall>r \<in> set (requests (cache sr)). \<forall>q \<in> set (rq_packets r).
     sr_get_interface (if_list sr) (pk_iface q) \<noteq> None)"

lemma swept_keys [simp]: "rq_ptr (swept sr r) = rq_ptr r" "rq_ip (swept sr r) = rq_ip r"
  "rq_packets (swept sr r) = rq_packets r"
  by (simp_all add: swept_def bump_def)

lemma swept_not_due: "\<not> req_due sr (swept sr r)"
  by (simp add: swept_def req_due_def bump_def)

lemma next_req_at:
  "p \<notin> rq_ptr ` set pre \<Longrightarrow> rq_ptr r = p \<Longrightarrow>
   next_req (pre @ r # post) p = (case post of [] \<Rightarrow> None | r' # _ \<Rightarrow> Some (rq_ptr r'))"
  by (induction pre) auto

lemma deref_req_at: "p \<notin> rq_ptr ` set pre \<Longrightarrow> rq_ptr r = p \<Longrightarrow> deref_req (pre @ r # post) p = Some r"
  by (induction pre) auto

lemma update_req_at:
  assumes "requests c = pre @ r # post" "p \<notin> rq_ptr ` set pre" "p \<notin> rq_ptr ` set post" "rq_ptr r = p"
  shows "update_req p f c = c\<lparr>requests := pre @ f r # post\<rparr>"
proof -
  have "map (\<lambda>r. if rq_ptr r = p then f r else r) xs = xs" if "p \<notin> rq_ptr ` set xs" for xs
    using that by (intro map_idI) auto
  with assms show ?thesis
    by (simp add: update_req_def)
qed

text \<open>One step of the loop, at the head of what is left.\<close>

lemma handle_arpreq_swept:
  assumes "config_ok sr" and rs: "requests (cache sr) = pre @ r # post"
    and d: "rq_ptr r \<notin> rq_ptr ` set pre" "rq_ptr r \<notin> rq_ptr ` set post"
    and q: "rq_packets r \<noteq> []" "sr_get_interface (if_list sr) (pk_iface (hd (rq_packets r))) \<noteq> None"
    and "\<not> req_expired sr r"
  shows "\<exists>lf. handle_arpreq (Suc depth) sr (rq_ptr r)
    = Inr (sr\<lparr>cache := (cache sr)\<lparr>requests := pre @ swept sr r # post\<rparr>, logfile := lf,
             written := written sr @ sweep_messages sr [r]\<rparr>)"
proof -
  have deref: "deref_req (requests (cache sr)) (rq_ptr r) = Some r"
    using rs d(1) deref_req_at by simp
  show ?thesis
  proof (cases "req_due sr r")
    case False
    have "(cache sr)\<lparr>requests := pre @ r # post\<rparr> = cache sr"
      by (simp add: rs [symmetric])
    with False show ?thesis
      using handle_arpreq_wait [OF deref False]
      by (intro exI [of _ "logfile sr"]) (simp add: swept_def)
  next
    case True
    obtain pkt pkts where pkts: "rq_packets r = pkt # pkts"
      using q(1) by (cases "rq_packets r") auto
    with q(2) obtain i where i: "sr_get_interface (if_list sr) (pk_iface pkt) = Some i"
      by auto
    have "\<not> rq_times_sent r \<ge> 5"
      using assms(7) True by (simp add: req_expired_def)
    from handle_arpreq_retry [OF assms(1) deref True this pkts i] obtain sr1 where
      run: "handle_arpreq (Suc depth) sr (rq_ptr r)
        = Inr (sr1\<lparr>cache := update_req (rq_ptr r) (bump (clock_sec sr)) (cache sr)\<rparr>)"
      and em: "emitted sr (if_name i) (arp_request_frame i (rq_ip r)) sr1"
      by blast
    from em obtain lf where "sr1 = sr\<lparr>logfile := lf,
        written := written sr @ [packet_message (if_name i) (arp_request_frame i (rq_ip r))]\<rparr>"
      by (auto simp: emitted_def)
    with run have "handle_arpreq (Suc depth) sr (rq_ptr r)
      = Inr (sr\<lparr>cache := (cache sr)\<lparr>requests := pre @ swept sr r # post\<rparr>, logfile := lf,
             written := written sr @ sweep_messages sr [r]\<rparr>)"
      using True pkts i update_req_at [OF rs d refl] by (simp add: swept_def del: handle_arpreq.simps)
    then show ?thesis
      by blast
  qed
qed

lemma sweep_messages_cong:
  "if_list s = if_list t \<Longrightarrow> clock_sec s = clock_sec t \<Longrightarrow> sweep_messages s rs = sweep_messages t rs"
  by (induction rs) (simp_all add: req_due_def)

lemma sweep_loop_swept:
  assumes "config_ok sr" "requests (cache sr) = pre @ suf" "distinct (map rq_ptr (pre @ suf))"
    and "\<forall>r \<in> set suf. rq_packets r \<noteq> [] \<and> \<not> req_expired sr r
      \<and> sr_get_interface (if_list sr) (pk_iface (hd (rq_packets r))) \<noteq> None"
    and "length suf \<le> fuel"
  shows "\<exists>lf. sweep_loop (Suc depth) fuel sr (case suf of [] \<Rightarrow> None | r # _ \<Rightarrow> Some (rq_ptr r))
    = Inr (sr\<lparr>cache := (cache sr)\<lparr>requests := pre @ map (swept sr) suf\<rparr>, logfile := lf,
             written := written sr @ sweep_messages sr suf\<rparr>)"
  using assms
proof (induction suf arbitrary: sr pre fuel)
  case Nil
  then have "(cache sr)\<lparr>requests := pre\<rparr> = cache sr"
    by simp
  then show ?case
    by (intro exI [of _ "logfile sr"]) simp
next
  case (Cons r suf)
  from Cons.prems(5) obtain n where n: "fuel = Suc n" "length suf \<le> n"
    by (cases fuel) auto
  have d: "rq_ptr r \<notin> rq_ptr ` set pre" "rq_ptr r \<notin> rq_ptr ` set suf"
    using Cons.prems(3) by auto
  have r: "rq_packets r \<noteq> []" "sr_get_interface (if_list sr) (pk_iface (hd (rq_packets r))) \<noteq> None"
    "\<not> req_expired sr r"
    using Cons.prems(4) by auto
  from handle_arpreq_swept [OF Cons.prems(1,2) d r] obtain lf where
    h: "handle_arpreq (Suc depth) sr (rq_ptr r)
      = Inr (sr\<lparr>cache := (cache sr)\<lparr>requests := pre @ swept sr r # suf\<rparr>, logfile := lf,
             written := written sr @ sweep_messages sr [r]\<rparr>)"
    by blast
  define sr1 where "sr1 = sr\<lparr>cache := (cache sr)\<lparr>requests := pre @ swept sr r # suf\<rparr>, logfile := lf,
             written := written sr @ sweep_messages sr [r]\<rparr>"
  have "config_ok sr1" "requests (cache sr1) = (pre @ [swept sr r]) @ suf"
    "distinct (map rq_ptr ((pre @ [swept sr r]) @ suf))"
    "\<forall>r \<in> set suf. rq_packets r \<noteq> [] \<and> \<not> req_expired sr1 r
      \<and> sr_get_interface (if_list sr1) (pk_iface (hd (rq_packets r))) \<noteq> None"
    using Cons.prems(1,3,4) by (auto simp: sr1_def config_ok_def req_expired_def req_due_def)
  from Cons.IH [OF this n(2)] obtain lf' where
    ih: "sweep_loop (Suc depth) n sr1 (case suf of [] \<Rightarrow> None | r # _ \<Rightarrow> Some (rq_ptr r))
      = Inr (sr1\<lparr>cache := (cache sr1)\<lparr>requests := (pre @ [swept sr r]) @ map (swept sr1) suf\<rparr>,
          logfile := lf', written := written sr1 @ sweep_messages sr1 suf\<rparr>)"
    by blast
  have "swept sr1 = swept sr" "sweep_messages sr1 suf = sweep_messages sr suf"
    by (auto simp: sr1_def swept_def req_due_def intro!: sweep_messages_cong)
  moreover have "sweep_loop (Suc depth) fuel sr (Some (rq_ptr r))
      = sweep_loop (Suc depth) n sr1 (case suf of [] \<Rightarrow> None | r # _ \<Rightarrow> Some (rq_ptr r))"
    using h d Cons.prems(2) by (simp add: n(1) deref_req_at next_req_at sr1_def)
  ultimately show ?case
    using ih by (auto simp: sr1_def)
qed

lemma expire_requests [simp]: "requests (expire_entries c t) = requests c"
  by (simp add: expire_entries_def)

lemma timeout_turn_eq:
  assumes "ready sr" "ifaces_known sr"
  shows "\<exists>lf. sr_arpcache_timeout_turn (Suc depth) sr = Inr (sr\<lparr>
     cache := (expire_entries (cache sr) (clock_sec sr))\<lparr>requests := map (swept sr) (requests (cache sr))\<rparr>,
     logfile := lf, written := written sr @ sweep_messages sr (requests (cache sr))\<rparr>)"
proof -
  let ?s = "sr\<lparr>cache := expire_entries (cache sr) (clock_sec sr)\<rparr>"
  let ?rs = "requests (cache sr)"
  have inv: "arp_inv (cache sr)"
    using assms(1) by (simp add: ready_def)
  have "\<forall>r \<in> set ?rs. rq_packets r \<noteq> []"
    using arp_invD(5) [OF inv] by (simp add: wf_req_def)
  moreover from this have "\<forall>r \<in> set ?rs.
      sr_get_interface (if_list sr) (pk_iface (hd (rq_packets r))) \<noteq> None"
    using assms(2) by (simp add: ifaces_known_def)
  ultimately have "\<forall>r \<in> set ?rs. rq_packets r \<noteq> [] \<and> \<not> req_expired ?s r
      \<and> sr_get_interface (if_list ?s) (pk_iface (hd (rq_packets r))) \<noteq> None"
    using assms(1) by (simp add: ready_def no_expired_def req_expired_def req_due_def)
  moreover have "config_ok ?s" "requests (cache ?s) = [] @ ?rs" "distinct (map rq_ptr ([] @ ?rs))"
    using assms(1) arp_invD(4) [OF inv] by (simp_all add: ready_def config_ok_def)
  ultimately obtain lf where
    "sweep_loop (Suc depth) (length ?rs) ?s (case ?rs of [] \<Rightarrow> None | r # _ \<Rightarrow> Some (rq_ptr r))
      = Inr (?s\<lparr>cache := (cache ?s)\<lparr>requests := [] @ map (swept ?s) ?rs\<rparr>, logfile := lf,
             written := written ?s @ sweep_messages ?s ?rs\<rparr>)"
    using sweep_loop_swept [of ?s "[]" ?rs "length ?rs" depth] by auto
  moreover have "swept ?s = swept sr" "sweep_messages ?s ?rs = sweep_messages sr ?rs"
    by (auto simp: swept_def req_due_def intro!: sweep_messages_cong)
  ultimately show ?thesis
    by (auto simp: sr_arpcache_timeout_turn_def sr_arpcache_sweepreqs_def)
qed

section \<open>A request out of retries\<close>

lemma handle_arpreq_expired:
  assumes "arp_inv (cache sr)" "deref_req (requests (cache sr)) p = Some q" "req_expired sr q"
  shows "\<exists>f. handle_arpreq depth sr p = Inl f"
proof (cases depth)
  case (Suc d)
  have "q \<in> set (requests (cache sr))"
    using assms(2) req_ptr.lookup_in_set by blast
  then obtain pkt pkts where "rq_packets q = pkt # pkts"
    using arp_invD(5) [OF assms(1)] by (metis list.exhaust wf_req_def)
  then show ?thesis
    using assms(2,3) Suc
    by (cases "send_icmp_body (handle_arpreq d) sr (pk_buf pkt) (pk_len pkt)
          icmp_type_dest_unreachable icmp_dest_unreachable_host")
       (auto simp: handle_arpreq_body_def req_expired_def req_due_def)
qed simp

text \<open>When the error for the first packet can be sent, the fault is the read of the freed node.\<close>

lemma handle_arpreq_use_after_free:
  assumes "deref_req (requests (cache sr)) p = Some q" "req_expired sr q" "rq_packets q = pkt # pkts"
    and "send_icmp_msg depth sr (pk_buf pkt) (pk_len pkt) icmp_type_dest_unreachable
      icmp_dest_unreachable_host = Inr sr1"
  shows "handle_arpreq (Suc depth) sr p = Inl UseAfterFree"
  using assms by (simp add: handle_arpreq_body_def req_expired_def req_due_def send_icmp_msg_def)

end
