(* ===== verification/Sample.thy ===== *)
theory Sample
  imports Router
begin

text \<open>
  One concrete router, the topology of \<^verbatim>\<open>assignment-3\<close> (\<^verbatim>\<open>IP_CONFIG\<close> and \<^verbatim>\<open>rtable\<close>): three
  interfaces, three host routes, a client and two servers.  The concrete instances of the
  properties run on it.
\<close>

definition ip4 :: "u8 \<Rightarrow> u8 \<Rightarrow> u8 \<Rightarrow> u8 \<Rightarrow> u32" where
  "ip4 a b c d = le32 a b c d"

definition client_ip :: u32 where "client_ip = ip4 10 0 1 100"
definition server1_ip :: u32 where "server1_ip = ip4 192 168 2 2"
definition server2_ip :: u32 where "server2_ip = ip4 172 64 3 10"

text \<open>The name \<^verbatim>\<open>eth\<close>\<open>n\<close> and the address of interface \<open>n\<close>.\<close>

definition eth_name :: "u8 \<Rightarrow> bytes" where
  "eth_name n = strncpy sr_IFACE_NAMELEN [101, 116, 104, 48 + n]"

definition eth_mac :: "u8 \<Rightarrow> bytes" where
  "eth_mac n = [2, 0, 0, 0, 0, n]"

definition host_mac :: "u8 \<Rightarrow> bytes" where
  "host_mac n = [6, 0, 0, 0, 0, n]"

definition sample_ifs :: "sr_if list" where
  "sample_ifs =
     [\<lparr>if_name = eth_name 1, if_addr = eth_mac 1, if_ip = ip4 192 168 2 1, if_speed = 0\<rparr>,
      \<lparr>if_name = eth_name 2, if_addr = eth_mac 2, if_ip = ip4 172 64 3 1, if_speed = 0\<rparr>,
      \<lparr>if_name = eth_name 3, if_addr = eth_mac 3, if_ip = ip4 10 0 1 1, if_speed = 0\<rparr>]"

definition host_route :: "u32 \<Rightarrow> u8 \<Rightarrow> sr_rt" where
  "host_route ip n = \<lparr>dest = ip, gw = ip, mask_addr = 0xFFFFFFFF, rt_interface = eth_name n\<rparr>"

definition sample_routes :: "sr_rt list" where
  "sample_routes = [host_route client_ip 3, host_route server1_ip 1, host_route server2_ip 2]"

definition sample_router :: sr_instance where
  "sample_router = \<lparr>sockfd = 3, user = replicate 32 0, host = replicate 32 0, template = replicate 30 0, topo_id = 0,
     if_list = sample_ifs, routing_table = sample_routes,
     cache = \<lparr>entries = replicate SR_ARPCACHE_SZ zero_entry, requests = [], next_ptr = 1\<rparr>,
     logfile = None, clock_sec = 1000, clock_usec = 0, heap_junk = (\<lambda>n. replicate n 0xA5),
     sock_write = (\<lambda>b. int (length b)), written = []\<rparr>"

text \<open>The router after it has learned where a server is.\<close>

definition learned :: "u32 \<Rightarrow> u8 \<Rightarrow> sr_instance" where
  "learned ip n = sample_router\<lparr>cache :=
     fst (sr_arpcache_insert (cache sample_router) (host_mac n) ip 1000)\<rparr>"

text \<open>
  An IP frame from \<open>src\<close> to \<open>dst\<close> with a correct header checksum, as it arrives at \<^verbatim>\<open>eth3\<close>.
\<close>

definition sample_ip_hdr :: "u8 \<Rightarrow> u8 \<Rightarrow> nat \<Rightarrow> u32 \<Rightarrow> u32 \<Rightarrow> sr_ip_hdr" where
  "sample_ip_hdr ttl proto n src dst =
     \<lparr>ip_hl = 5, ip_v = 4, ip_tos = 0, ip_len = htons (word_of_nat (20 + n)), ip_id = htons 7,
      ip_off = 0, ip_ttl = ttl, ip_p = proto, ip_sum = 0, ip_src = src, ip_dst = dst\<rparr>"

definition sample_frame :: "u8 \<Rightarrow> u8 \<Rightarrow> u32 \<Rightarrow> u32 \<Rightarrow> bytes \<Rightarrow> bytes" where
  "sample_frame ttl proto src dst payload =
     (let h = sample_ip_hdr ttl proto (length payload) src dst in
      enc_eth \<lparr>ether_dhost = eth_mac 3, ether_shost = host_mac 9, ether_type = htons ethertype_ip\<rparr>
      @ enc_ip (h\<lparr>ip_sum := cksum_value (enc_ip h)\<rparr>) @ payload)"

text \<open>An ARP frame.\<close>

definition sample_arp :: "u16 \<Rightarrow> bytes \<Rightarrow> u32 \<Rightarrow> bytes \<Rightarrow> u32 \<Rightarrow> bytes" where
  "sample_arp opcode sha sip tha tip =
     enc_eth \<lparr>ether_dhost = replicate 6 0xFF, ether_shost = sha, ether_type = htons ethertype_arp\<rparr>
     @ enc_arp \<lparr>ar_hrd = htons 1, ar_pro = htons ethertype_ip, ar_hln = 6, ar_pln = 4,
         ar_op = htons opcode, ar_sha = sha, ar_sip = sip, ar_tha = tha, ar_tip = tip\<rparr>"

end
