(* ===== verification/Sample_Facts.thy ===== *)
theory Sample_Facts
  imports Sweep Sample
begin

text \<open>
  The sample router meets the hypotheses of the router's properties: its configuration is complete,
  its ARP cache satisfies the invariant, and its tables answer as the topology says.
\<close>

section \<open>The sample router satisfies the hypotheses\<close>

lemma sample_config: "config_ok (sample_router\<lparr>cache := c\<rparr>)"
proof -
  have "\<forall>i \<in> set sample_ifs. wf_if i" "printable sample_ifs" "\<forall>e \<in> set sample_routes.
      sr_get_interface sample_ifs (rt_interface e) \<noteq> None"
    by code_simp+
  then show ?thesis
    by (simp add: config_ok_def sample_router_def)
qed

lemma learned_config: "config_ok (learned ip n)"
  unfolding learned_def by (rule sample_config)

lemma sample_arp_inv: "arp_inv (cache sample_router)"
  by (simp add: sample_router_def arp_inv_def zero_entry_def)

lemma learned_arp_inv: "arp_inv (cache (learned ip n))"
  unfolding learned_def
  using insert_inv [OF sample_arp_inv, of "host_mac n" ip 1000]
  by (cases "sr_arpcache_insert (cache sample_router) (host_mac n) ip 1000") (simp add: host_mac_def)

lemma learned_ready: "ready (learned ip n)"
proof -
  have "requests (cache (learned ip n)) = []"
    by (simp add: learned_def sample_router_def sr_arpcache_insert_def)
  then show ?thesis
    unfolding ready_def using sample_config learned_arp_inv
    by (simp add: no_expired_def) (simp add: learned_def)
qed

lemma sample_ready: "ready sample_router"
proof -
  have "config_ok sample_router"
    using sample_config [of "cache sample_router"] by simp
  then show ?thesis
    using sample_arp_inv by (simp add: ready_def no_expired_def) (simp add: sample_router_def)
qed

definition sample_eth :: sr_ethernet_hdr where
  "sample_eth = \<lparr>ether_dhost = eth_mac 3, ether_shost = host_mac 9, ether_type = htons ethertype_ip\<rparr>"

lemma wf_sample_eth: "wf_eth sample_eth" "ether_type sample_eth = htons ethertype_ip"
  by (simp_all add: sample_eth_def wf_eth_def eth_mac_def host_mac_def)

definition sample_hdr :: "u8 \<Rightarrow> u8 \<Rightarrow> u32 \<Rightarrow> sr_ip_hdr" where
  "sample_hdr ttl proto dst = with_checksum (sample_ip_hdr ttl proto 8 client_ip dst)"

lemma sample_hdr_valid: "ip_valid (sample_hdr ttl proto dst)"
  by (simp add: sample_hdr_def) (simp add: sample_ip_hdr_def)

definition sample_data :: bytes where "sample_data = [8, 0, 0, 0, 1, 2, 3, 4]"

lemma sample_length: "length (ip_frame sample_eth h sample_data) < 2 ^ 31"
  using wf_sample_eth by (simp add: sizeof_defs sample_data_def)

text \<open>The server behind \<^verbatim>\<open>eth1\<close>, and the client behind \<^verbatim>\<open>eth3\<close>, as the router sees them.\<close>

definition eth_if :: "u8 \<Rightarrow> u32 \<Rightarrow> sr_if" where
  "eth_if n ip = \<lparr>if_name = eth_name n, if_addr = eth_mac n, if_ip = ip, if_speed = 0\<rparr>"

lemma eth_if_simps [simp]: "if_name (eth_if n ip) = eth_name n" "if_addr (eth_if n ip) = eth_mac n"
  "if_ip (eth_if n ip) = ip"
  by (simp_all add: eth_if_def)

definition host_entry :: "u32 \<Rightarrow> u8 \<Rightarrow> sr_arpentry" where
  "host_entry ip n = \<lparr>en_mac = host_mac n, en_ip = ip, en_added = 1000, en_valid = 1\<rparr>"

lemma host_entry_mac [simp]: "en_mac (host_entry ip n) = host_mac n"
  by (simp add: host_entry_def)

lemma host_route_simps [simp]: "gw (host_route ip n) = ip" "rt_interface (host_route ip n) = eth_name n"
  by (simp_all add: host_route_def)

lemma learned_fields [simp]: "if_list (learned ip n) = sample_ifs"
  "routing_table (learned ip n) = sample_routes" "written (learned ip n) = []"
  "if_list sample_router = sample_ifs" "routing_table sample_router = sample_routes"
  "clock_sec sample_router = 1000" "written sample_router = []"
  by (simp_all add: learned_def sample_router_def)

lemma sample_route_facts:
  "longest_prefix_matching sample_routes server1_ip = Some (host_route server1_ip 1)"
  "longest_prefix_matching sample_routes client_ip = Some (host_route client_ip 3)"
  "sr_get_interface sample_ifs (eth_name 1) = Some (eth_if 1 (ip4 192 168 2 1))"
  "sr_get_interface sample_ifs (eth_name 3) = Some (eth_if 3 (ip4 10 0 1 1))"
  "if_by_ip sample_ifs server1_ip = None" "server1_ip \<noteq> 0"
  "if_by_ip sample_ifs (ip4 10 0 1 1) = Some (eth_if 3 (ip4 10 0 1 1))" "ip4 10 0 1 1 \<noteq> 0"
  by code_simp+

lemma learned_lookup:
  "sr_arpcache_lookup (cache (learned server1_ip 4)) server1_ip = Some (host_entry server1_ip 4)"
  "sr_arpcache_lookup (cache (learned client_ip 9)) client_ip = Some (host_entry client_ip 9)"
  "sr_arpcache_lookup (cache sample_router) server1_ip = None"
  by code_simp+

lemma sample_hdr_simps [simp]: "ip_dst (sample_hdr ttl proto dst) = dst"
  "ip_ttl (sample_hdr ttl proto dst) = ttl" "ip_p (sample_hdr ttl proto dst) = proto"
  "ip_src (sample_hdr ttl proto dst) = client_ip" "ip_hl (sample_hdr ttl proto dst) = 5"
  by (simp_all add: sample_hdr_def with_checksum_def sample_ip_hdr_def)

end
