(* ===== verification/Forwarding_Properties.thy ===== *)
theory Forwarding_Properties
  imports Sample_Facts
begin

text \<open>
  Forwarding: what \<^verbatim>\<open>sr_handlepacket\<close> does with a datagram for another host.  Each property has an
  instance on the sample topology, a client behind \<^verbatim>\<open>eth3\<close> and a server behind \<^verbatim>\<open>eth1\<close>.
\<close>

section \<open>Forwarding\<close>

text \<open>
  C1. A valid datagram for another host, with TTL left and a route whose next hop is in the ARP
  cache, is written exactly once, for the interface of the longest matching route, with the next
  hop's MAC and the interface's MAC as Ethernet addresses, the TTL one less, a new checksum, and
  every other byte unchanged; nothing else of the router's state changes but the log.
\<close>

theorem forward_hit:
  assumes "config_ok sr" "arp_inv (cache sr)"
    and "wf_eth e" "ether_type e = htons ethertype_ip" "ip_valid h" "1 < ip_ttl h"
    and "ip_dst h \<noteq> 0" "if_by_ip (if_list sr) (ip_dst h) = None"
    and "longest_prefix_matching (routing_table sr) (ip_dst h) = Some r"
    and "sr_get_interface (if_list sr) (rt_interface r) = Some i"
    and "sr_arpcache_lookup (cache sr) (gw r) = Some a"
    and "length (ip_frame e h p) < 2 ^ 31"
  shows "\<exists>sr'. sr_handlepacket depth sr (ip_frame e h p) (length (ip_frame e h p)) iface = Inr sr'
    \<and> emitted sr (if_name i) (readdress (en_mac a) (if_addr i) (ip_frame e (forwarded h) p)) sr'"
proof -
  have ttl: "\<not> ip_ttl h \<le> 1"
    using assms(6) by simp
  have len: "length (ip_frame e (forwarded h) p) = length (ip_frame e h p)"
    "sizeof_eth + sizeof_ip \<le> length (ip_frame e h p)" "frame_len (length (ip_frame e (forwarded h) p))"
    using assms(3,12) by (simp_all add: frame_len_def)
  have "sr_handlepacket depth sr (ip_frame e h p) (length (ip_frame e h p)) iface
      = send_or_queue (handle_arpreq depth) sr (ip_frame e (forwarded h) p)
          (length (ip_frame e (forwarded h) p)) (gw r) (Some i)"
    using assms ttl len
    by (simp add: handlepacket_ip handle_ip_valid forward_valid del: length_ip_frame)
  then show ?thesis
    using send_or_queue_sends [OF assms(2,10) config_okD(2) [OF assms(1,10)] len(3) assms(11)] by simp
qed

lemma forward_hit_witness:
  "\<exists>sr'. sr_handlepacket 1 (learned server1_ip 4) (ip_frame sample_eth (sample_hdr 64 1 server1_ip) sample_data)
      (length (ip_frame sample_eth (sample_hdr 64 1 server1_ip) sample_data)) (eth_name 3) = Inr sr'
    \<and> emitted (learned server1_ip 4) (eth_name 1)
        (readdress (host_mac 4) (eth_mac 1)
          (ip_frame sample_eth (forwarded (sample_hdr 64 1 server1_ip)) sample_data)) sr'"
  using forward_hit [where h = "sample_hdr 64 1 server1_ip" and r = "host_route server1_ip 1"
      and i = "eth_if 1 (ip4 192 168 2 1)" and a = "host_entry server1_ip 4" and depth = 1
      and iface = "eth_name 3", OF learned_config learned_arp_inv wf_sample_eth sample_hdr_valid
      _ _ _ _ _ _ sample_length]
  by (simp add: sample_route_facts learned_lookup del: length_ip_frame)

text \<open>
  C2. The same datagram when the next hop is not in the ARP cache waits, TTL and checksum already
  updated, at the head of the queue for that hop; the address table and the other queues stay as
  they are; and one ARP request for the hop is written when more than a second has passed since the
  last one (at once for a new hop), and nothing otherwise.
\<close>

theorem forward_miss:
  assumes "config_ok sr" "arp_inv (cache sr)"
    and "wf_eth e" "ether_type e = htons ethertype_ip" "ip_valid h" "1 < ip_ttl h"
    and "ip_dst h \<noteq> 0" "if_by_ip (if_list sr) (ip_dst h) = None"
    and "longest_prefix_matching (routing_table sr) (ip_dst h) = Some r"
    and "sr_get_interface (if_list sr) (rt_interface r) = Some i"
    and "sr_arpcache_lookup (cache sr) (gw r) = None"
    and "\<not> req_expired sr (queue_target (cache sr) (gw r))"
    and "length (ip_frame e h p) < 2 ^ 31"
  shows "\<exists>sr'. sr_handlepacket (Suc depth) sr (ip_frame e h p) (length (ip_frame e h p)) iface = Inr sr'
    \<and> parked sr (gw r) i (ip_frame e (forwarded h) p) sr'"
proof -
  have ttl: "\<not> ip_ttl h \<le> 1"
    using assms(6) by simp
  have len: "length (ip_frame e (forwarded h) p) = length (ip_frame e h p)"
    "sizeof_eth + sizeof_ip \<le> length (ip_frame e h p)" "frame_len (length (ip_frame e (forwarded h) p))"
    using assms(3,13) by (simp_all add: frame_len_def)
  have "sr_handlepacket (Suc depth) sr (ip_frame e h p) (length (ip_frame e h p)) iface
      = send_or_queue (handle_arpreq (Suc depth)) sr (ip_frame e (forwarded h) p)
          (length (ip_frame e (forwarded h) p)) (gw r) (Some i)"
    using assms ttl len
    by (simp add: handlepacket_ip handle_ip_valid forward_valid del: length_ip_frame handle_arpreq.simps)
  then show ?thesis
    using send_or_queue_parks [OF assms(1,2,10) len(3) assms(11,12)] by simp
qed

lemma forward_miss_witness:
  "\<exists>sr'. sr_handlepacket (Suc 0) sample_router (ip_frame sample_eth (sample_hdr 64 1 server1_ip) sample_data)
      (length (ip_frame sample_eth (sample_hdr 64 1 server1_ip) sample_data)) (eth_name 3) = Inr sr'
    \<and> parked sample_router server1_ip (eth_if 1 (ip4 192 168 2 1))
        (ip_frame sample_eth (forwarded (sample_hdr 64 1 server1_ip)) sample_data) sr'"
  using forward_miss [where h = "sample_hdr 64 1 server1_ip" and r = "host_route server1_ip 1"
      and i = "eth_if 1 (ip4 192 168 2 1)" and depth = 0 and sr = sample_router
      and iface = "eth_name 3", OF _ _ wf_sample_eth sample_hdr_valid
      _ _ _ _ _ _ target_not_expired sample_length] sample_ready
  by (simp add: sample_route_facts learned_lookup ready_def del: length_ip_frame)

text \<open>
  A datagram whose header checksum is wrong changes nothing: no message, no queue, no table.
\<close>

lemma bad_checksum_dropped:
  assumes "wf_eth e" "ether_type e = htons ethertype_ip" "ip_hl h = 5" "ip_sum h \<noteq> ip_checksum h"
  shows "sr_handlepacket depth sr (ip_frame e h p) len iface = Inr sr"
  using assms by (simp add: handlepacket_ip handle_ip_bad_checksum)

lemma bad_checksum_dropped_witness:
  "sr_handlepacket 1 sample_router
     (ip_frame sample_eth ((sample_hdr 64 1 server1_ip)\<lparr>ip_ttl := 63\<rparr>) sample_data) 42 (eth_name 3)
   = Inr sample_router"
proof (rule bad_checksum_dropped [OF wf_sample_eth])
  show "ip_hl ((sample_hdr 64 1 server1_ip)\<lparr>ip_ttl := 63\<rparr>) = 5"
    by simp
  show "ip_sum ((sample_hdr 64 1 server1_ip)\<lparr>ip_ttl := 63\<rparr>)
      \<noteq> ip_checksum ((sample_hdr 64 1 server1_ip)\<lparr>ip_ttl := 63\<rparr>)"
    by code_simp
qed

section \<open>No fault\<close>

text \<open>
  The frames the handlers are written for: a runt, an ethertype the router does not handle, an ARP
  frame that holds an ARP packet with a target that is not 0.0.0.0, or an IP frame that is too short
  or answerable.
\<close>

definition acceptable :: "bytes \<Rightarrow> bool" where
  "acceptable b \<longleftrightarrow>
     (length b < sizeof_eth \<or>
      (let t = ntohs (ether_type (dec_eth (take sizeof_eth b))) in
       if t = ethertype_arp
       then sizeof_eth + sizeof_arp \<le> length b
         \<and> ar_tip (dec_arp (slice sizeof_eth sizeof_arp b)) \<noteq> 0
       else if t = ethertype_ip
       then length b < sizeof_eth + sizeof_ip
         \<or> answerable (dec_ip (slice sizeof_eth sizeof_ip b)) (drop (sizeof_eth + sizeof_ip) b)
       else True))"

lemma acceptable_ip_frame:
  "wf_eth e \<Longrightarrow> ether_type e = htons ethertype_ip \<Longrightarrow> acceptable (ip_frame e h p) = answerable h p"
  by (simp add: acceptable_def frame_simps eth.dec_enc proto_consts)
     (simp add: ip_frame_def slice_def ip.dec_enc)

lemma acceptable_arp_frame:
  "wf_eth e \<Longrightarrow> wf_arp a \<Longrightarrow> ether_type e = htons ethertype_arp \<Longrightarrow>
   acceptable (arp_frame e a p) = (ar_tip a \<noteq> 0)"
  by (simp add: acceptable_def frame_simps eth.dec_enc proto_consts)
     (simp add: arp_frame_def slice_def arp.dec_enc)

lemma eth_type_split:
  assumes "wf_eth e" "b = enc_eth e @ r"
  shows "dec_eth (take sizeof_eth b) = e" "read_eth b = Inr e"
  using assms by (simp_all add: eth.dec_enc read_eth_frame)

lemma returns_arp:
  assumes "ready sr" "acceptable b" "length b < 2 ^ 31" "sr_get_interface (if_list sr) iface = Some i"
    and "\<not> length b < sizeof_eth" "read_eth b = Inr e" "dec_eth (take sizeof_eth b) = e"
    and "ntohs (ether_type e) = ethertype_arp"
  shows "\<exists>sr'. sr_handlepacket (Suc depth) sr b (length b) iface = Inr sr'"
proof -
  have "sizeof_eth + sizeof_arp \<le> length b"
    using assms(2,5,7,8) by (simp add: acceptable_def Let_def)
  from arp_frame_split [OF this] obtain e' a p where f: "wf_eth e'" "wf_arp a" "b = arp_frame e' a p"
    by blast
  then have type: "ether_type e' = htons ethertype_arp"
    using assms(6,8) by (metis frame_access(2) htons_htons sum.inject(2))
  show ?thesis
    using assms f type acceptable_arp_frame [OF f(1,2) type]
    by (simp add: handlepacket_arp handle_arp_total [OF assms(1) f(1,2)] del: length_arp_frame)
qed

lemma returns_ip:
  assumes "ready sr" "acceptable b" "length b < 2 ^ 31" "sr_get_interface (if_list sr) iface = Some i"
    and "\<not> length b < sizeof_eth + sizeof_ip" "read_eth b = Inr e" "ntohs (ether_type e) = ethertype_ip"
  shows "\<exists>sr'. sr_handlepacket (Suc depth) sr b (length b) iface = Inr sr'"
proof -
  have long: "\<not> length b < sizeof_eth"
    using assms(5) by simp
  obtain e' h p where f: "wf_eth e'" "b = ip_frame e' h p"
    using ip_frame_split [of b] assms(5) by auto
  then have type: "ether_type e' = htons ethertype_ip"
    using assms(6,7) by (metis frame_access(1) htons_htons sum.inject(2))
  have "answerable h p" "frame_len (length b)"
    using assms(2,3) long acceptable_ip_frame [OF f(1) type] f(2) by (simp_all add: frame_len_def)
  then show ?thesis
    using handle_ip_total [OF assms(1) f(1), of h p] f type long
    by (simp add: handlepacket_ip del: length_ip_frame)
qed

text \<open>
  C3. The router returns on every acceptable frame: no access outside a buffer, no null or dangling
  pointer, no failed assertion, and one level of the recursion between \<^verbatim>\<open>handle_arpreq\<close> and
  \<^verbatim>\<open>send_icmp_msg\<close> is enough, as long as the configuration is complete and no ARP request has run
  out of retries.
\<close>

theorem handlepacket_returns:
  assumes "ready sr" "acceptable b" "length b < 2 ^ 31"
    and "sr_get_interface (if_list sr) iface = Some i"
  shows "\<exists>sr'. sr_handlepacket (Suc depth) sr b (length b) iface = Inr sr'"
proof (cases "length b < sizeof_eth")
  case False
  then obtain e where e: "wf_eth e" "b = enc_eth e @ drop sizeof_eth b"
    using eth_split [of b] by auto
  note t = eth_type_split [OF e]
  consider (arp) "ntohs (ether_type e) = ethertype_arp" | (ip) "ntohs (ether_type e) = ethertype_ip"
    | (other) "ntohs (ether_type e) \<noteq> ethertype_arp" "ntohs (ether_type e) \<noteq> ethertype_ip"
    by blast
  then show ?thesis
  proof cases
    case arp
    then show ?thesis
      by (rule returns_arp [OF assms False t(2,1)])
  next
    case ip
    then show ?thesis
      using returns_ip [OF assms _ t(2)] t(2) False
      by (cases "length b < sizeof_eth + sizeof_ip")
         (simp_all add: sr_handlepacket_def handle_ip_def Let_def proto_consts)
  next
    case other
    then show ?thesis
      using t(2) False by (simp add: sr_handlepacket_def Let_def)
  qed
qed (simp add: sr_handlepacket_def)

lemma handlepacket_returns_witness:
  "\<exists>sr'. sr_handlepacket (Suc 0) sample_router (sample_frame 1 17 client_ip server1_ip sample_data)
     (length (sample_frame 1 17 client_ip server1_ip sample_data)) (eth_name 3) = Inr sr'"
proof (rule handlepacket_returns [OF sample_ready])
  show "acceptable (sample_frame 1 17 client_ip server1_ip sample_data)"
    by code_simp
  have "length (sample_frame 1 17 client_ip server1_ip sample_data) = 42"
    by code_simp
  then show "length (sample_frame 1 17 client_ip server1_ip sample_data) < 2 ^ 31"
    by simp
  show "sr_get_interface (if_list sample_router) (eth_name 3) = Some (eth_if 3 (ip4 10 0 1 1))"
    by (simp add: sample_route_facts)
qed

end
