(* ===== verification/Icmp_Properties.thy ===== *)
theory Icmp_Properties
  imports Sample_Facts
begin

text \<open>
  The router as a source of datagrams: ICMP errors about datagrams it cannot deliver and replies to
  echo requests.
\<close>

section \<open>Errors\<close>

text \<open>
  C7. A valid datagram whose TTL has run out is answered, when there is a resolved way back to its
  source, by exactly one ICMP time exceeded message to that source: 70 bytes, with the first 28
  bytes of the datagram quoted, and with an IP header and an ICMP message whose checksums both
  verify.
\<close>

theorem ttl_exceeded_answered:
  assumes "config_ok sr" "arp_inv (cache sr)"
    and "wf_eth e" "ether_type e = htons ethertype_ip" "ip_valid h" "ip_ttl h \<le> 1" "8 \<le> length p"
    and "way_back sr (ip_src h) = Some (r, i)" "sr_arpcache_lookup (cache sr) (gw r) = Some a"
  shows "\<exists>sr' g m. sr_handlepacket depth sr (ip_frame e h p) (length (ip_frame e h p)) iface = Inr sr'
    \<and> emitted sr (if_name i)
        (ip_frame (eth_to (en_mac a) (if_addr i) zero_eth) g (enc_icmp_t3 m)) sr'
    \<and> ip_src g = if_ip i \<and> ip_dst g = ip_src h \<and> ip_ttl g = 255 \<and> ip_p g = ip_protocol_icmp
    \<and> ip_len g = htons 56 \<and> oc_sum (enc_ip g) = 65535
    \<and> icmp_type m = icmp_type_time_exceeded \<and> icmp_code m = 0
    \<and> icmp_data m = take 28 (enc_ip h @ p) \<and> oc_sum (enc_icmp_t3 m) = 65535"
proof -
  let ?f = "icmp_error_frame icmp_type_time_exceeded 0 h p i"
  define d where "d = take 28 (enc_ip h @ p)"
  define c where "c = t3_hdr icmp_type_time_exceeded 0 d"
  define m where "m = c\<lparr>icmp_sum := cksum_value (enc_icmp_t3 c)\<rparr>"
  define g where "g = with_checksum (icmp_error_ip h 0 i)"
  have hl: "ip_hl h = 5"
    using assms(5) by (simp add: ip_valid_def)
  have i: "sr_get_interface (if_list sr) (rt_interface r) = Some i"
    using assms(8) by (simp add: way_back_Some)
  have d: "length d = 28"
    using assms(7) by (simp add: d_def sizeof_ip_def)
  have frame: "?f = ip_frame zero_eth g (enc_icmp_t3 m)"
    by (simp add: icmp_error_frame_def icmp_error_body_def t3_message_def ip_frame_def g_def m_def c_def
        d_def)
  have len: "frame_len (length ?f)" "sizeof_eth + sizeof_ip \<le> length (ip_frame e h p)"
    using assms(3,7) by (simp_all add: length_icmp_error_frame frame_len_def sizeof_eth_def)
  have "sr_handlepacket depth sr (ip_frame e h p) (length (ip_frame e h p)) iface
      = send_or_queue (handle_arpreq depth) sr ?f (length ?f) (gw r) (Some i)"
    using assms(3-6) len(2) send_icmp_error [OF assms(1,3) hl assms(7) _ assms(8)]
    by (simp add: handlepacket_ip handle_ip_valid del: length_ip_frame)
  moreover have "readdress (en_mac a) (if_addr i) ?f
      = ip_frame (eth_to (en_mac a) (if_addr i) zero_eth) g (enc_icmp_t3 m)"
    unfolding frame ip_frame_def by (simp add: readdress_at)
  ultimately have "\<exists>sr'. sr_handlepacket depth sr (ip_frame e h p) (length (ip_frame e h p)) iface = Inr sr'
      \<and> emitted sr (if_name i) (ip_frame (eth_to (en_mac a) (if_addr i) zero_eth) g (enc_icmp_t3 m)) sr'"
    using send_or_queue_sends [OF assms(2) i config_okD(2) [OF assms(1) i] len(1) assms(9)] by simp
  moreover have "ip_src g = if_ip i" "ip_dst g = ip_src h" "ip_ttl g = 255" "ip_p g = ip_protocol_icmp"
    "ip_len g = htons 56"
    using hl
    by (simp_all add: g_def with_checksum_def icmp_error_ip_def icmp_consts ip_hdr_bytes_5 sizeof_defs)
  moreover have "oc_sum (enc_ip g) = 65535"
    unfolding g_def by (rule with_checksum_verifies)
  moreover have "icmp_type m = icmp_type_time_exceeded" "icmp_code m = 0" "icmp_data m = d"
    "oc_sum (enc_icmp_t3 m) = 65535"
    using t3_message_verifies [OF d, of icmp_type_time_exceeded 0]
    by (simp_all add: m_def c_def t3_hdr_def t3_message_def)
  ultimately show ?thesis
    unfolding d_def by blast
qed

lemma ttl_exceeded_answered_witness:
  "\<exists>sr' g m. sr_handlepacket 1 (learned client_ip 9) (ip_frame sample_eth (sample_hdr 1 17 server1_ip) sample_data)
      (length (ip_frame sample_eth (sample_hdr 1 17 server1_ip) sample_data)) (eth_name 3) = Inr sr'
    \<and> emitted (learned client_ip 9) (eth_name 3)
        (ip_frame (eth_to (host_mac 9) (eth_mac 3) zero_eth) g (enc_icmp_t3 m)) sr'
    \<and> ip_src g = ip4 10 0 1 1 \<and> ip_dst g = client_ip \<and> ip_ttl g = 255 \<and> ip_p g = ip_protocol_icmp
    \<and> ip_len g = htons 56 \<and> oc_sum (enc_ip g) = 65535
    \<and> icmp_type m = icmp_type_time_exceeded \<and> icmp_code m = 0
    \<and> icmp_data m = take 28 (enc_ip (sample_hdr 1 17 server1_ip) @ sample_data)
    \<and> oc_sum (enc_icmp_t3 m) = 65535"
proof -
  have "8 \<le> length sample_data"
    by (simp add: sample_data_def)
  moreover have "way_back (learned client_ip 9) (ip_src (sample_hdr 1 17 server1_ip))
      = Some (host_route client_ip 3, eth_if 3 (ip4 10 0 1 1))"
    by (simp add: way_back_Some sample_route_facts)
  moreover have "sr_arpcache_lookup (cache (learned client_ip 9)) (gw (host_route client_ip 3))
      = Some (host_entry client_ip 9)" "ip_ttl (sample_hdr 1 17 server1_ip) \<le> 1"
    by (simp_all add: learned_lookup)
  ultimately show ?thesis
    using ttl_exceeded_answered [of "learned client_ip 9" sample_eth "sample_hdr 1 17 server1_ip"
        sample_data "host_route client_ip 3" "eth_if 3 (ip4 10 0 1 1)" "host_entry client_ip 9" 1
        "eth_name 3"] learned_config learned_arp_inv wf_sample_eth sample_hdr_valid
    by (simp del: length_ip_frame take_append)
qed



section \<open>Echo\<close>



end
