(* ===== verification/Arp_Properties.thy ===== *)
theory Arp_Properties
  imports Sample_Facts
begin

text \<open>
  The router's ARP: answering requests, learning addresses, retrying requests, and the invariant of
  every state the router can reach.
\<close>

definition sample_arp_eth :: sr_ethernet_hdr where
  "sample_arp_eth = \<lparr>ether_dhost = eth_mac 1, ether_shost = host_mac 4, ether_type = htons ethertype_arp\<rparr>"

definition sample_arp_hdr :: "u16 \<Rightarrow> sr_arp_hdr" where
  "sample_arp_hdr opcode = \<lparr>ar_hrd = htons 1, ar_pro = htons ethertype_ip, ar_hln = 6, ar_pln = 4,
     ar_op = htons opcode, ar_sha = host_mac 4, ar_sip = server1_ip, ar_tha = eth_mac 1,
     ar_tip = ip4 10 0 1 1\<rparr>"

lemma wf_sample_arp: "wf_eth sample_arp_eth" "ether_type sample_arp_eth = htons ethertype_arp"
  "wf_arp (sample_arp_hdr opcode)"
  by (simp_all add: sample_arp_eth_def sample_arp_hdr_def wf_eth_def wf_arp_def eth_mac_def host_mac_def)

lemma sample_arp_simps [simp]: "ar_tip (sample_arp_hdr opcode) = ip4 10 0 1 1"
  "ar_op (sample_arp_hdr opcode) = htons opcode" "ar_sip (sample_arp_hdr opcode) = server1_ip"
  "ar_sha (sample_arp_hdr opcode) = host_mac 4"
  by (simp_all add: sample_arp_hdr_def)

section \<open>Answering and learning\<close>

text \<open>
  C10. An ARP request for an address of the router, received on one of its interfaces, is answered by
  exactly one ARP reply on that interface, to the sender's MAC, from the interface's MAC and IP
  address, with the sender's addresses as the target; nothing else changes.
\<close>

theorem arp_request_answered:
  assumes "config_ok sr" "wf_eth e" "ether_type e = htons ethertype_arp" "wf_arp a" "ar_tip a \<noteq> 0"
    and "if_by_ip (if_list sr) (ar_tip a) = Some own" "ar_op a = htons arp_op_request"
    and "sr_get_interface (if_list sr) iface = Some i" "length (arp_frame e a p) < 2 ^ 31"
  shows "\<exists>sr'. sr_handlepacket depth sr (arp_frame e a p) (length (arp_frame e a p)) iface = Inr sr'
    \<and> emitted sr (if_name i)
        (arp_frame \<lparr>ether_dhost = ether_shost e, ether_shost = if_addr i, ether_type = htons ethertype_arp\<rparr>
          \<lparr>ar_hrd = htons arp_hrd_ethernet, ar_pro = htons ethertype_ip, ar_hln = 6, ar_pln = 4,
           ar_op = htons arp_op_reply, ar_sha = if_addr i, ar_sip = if_ip i, ar_tha = ar_sha a,
           ar_tip = ar_sip a\<rparr> p) sr'"
proof -
  have "\<not> length (arp_frame e a p) < sizeof_eth"
    using assms(2,4) by simp
  then show ?thesis
    using handle_arp_request [OF assms(2,4,5) _ assms(7,8) config_okD(2) [OF assms(1,8)] assms(9)]
      assms(2,3,6)
    by (simp add: handlepacket_arp arp_reply_frame_def arp_reply_hdr_def del: length_arp_frame)
qed

lemma arp_request_answered_witness:
  "\<exists>sr'. sr_handlepacket 1 sample_router (arp_frame sample_arp_eth (sample_arp_hdr 1) [])
      (length (arp_frame sample_arp_eth (sample_arp_hdr 1) [])) (eth_name 3) = Inr sr'
    \<and> emitted sample_router (eth_name 3)
        (arp_frame \<lparr>ether_dhost = ether_shost sample_arp_eth, ether_shost = eth_mac 3,
                    ether_type = htons ethertype_arp\<rparr>
          \<lparr>ar_hrd = htons arp_hrd_ethernet, ar_pro = htons ethertype_ip, ar_hln = 6, ar_pln = 4,
           ar_op = htons arp_op_reply, ar_sha = eth_mac 3, ar_sip = ip4 10 0 1 1, ar_tha = host_mac 4,
           ar_tip = server1_ip\<rparr> []) sr'"
proof -
  have "config_ok sample_router" "length (arp_frame sample_arp_eth (sample_arp_hdr 1) []) < 2 ^ 31"
    using sample_ready wf_sample_arp by (simp_all add: ready_def sizeof_defs)
  then show ?thesis
    using arp_request_answered [of sample_router sample_arp_eth "sample_arp_hdr 1"
        "eth_if 3 (ip4 10 0 1 1)" "eth_name 3" "eth_if 3 (ip4 10 0 1 1)" "[]" 1] wf_sample_arp
    by (simp add: sample_route_facts arp_op_request_def del: length_arp_frame)
qed

text \<open>
  C11. An ARP reply to the router empties the queue for the sender's address: every packet that
  waited is written in queue order for the interface it waited for, readdressed to the learned MAC;
  the other queues stay; and the sender's address resolves to its MAC from then on when it did not
  resolve before and the table has a free slot, while no other address resolves differently.
\<close>

theorem arp_reply_learned:
  assumes "config_ok sr" "arp_inv (cache sr)" "wf_eth e" "ether_type e = htons ethertype_arp"
    and "wf_arp a" "ar_tip a \<noteq> 0" "if_by_ip (if_list sr) (ar_tip a) = Some own"
    and "ar_op a = htons arp_op_reply"
  shows "\<exists>sr'. sr_handlepacket depth sr (arp_frame e a p) (length (arp_frame e a p)) iface = Inr sr'
    \<and> written sr' = written sr @ flushed (if_list sr) (ar_sha a)
        (case waiting (cache sr) (ar_sip a) of None \<Rightarrow> [] | Some qs \<Rightarrow> qs)
    \<and> waiting (cache sr') = (waiting (cache sr))(ar_sip a := None)
    \<and> (has_room (cache sr) \<and> cache_map (cache sr) (ar_sip a) = None \<longrightarrow>
         cache_map (cache sr') = (cache_map (cache sr))(ar_sip a \<mapsto> ar_sha a))
    \<and> (\<forall>ip. ip \<noteq> ar_sip a \<longrightarrow> cache_map (cache sr') ip = cache_map (cache sr) ip)"
proof -
  have "\<not> length (arp_frame e a p) < sizeof_eth" "length (ar_sha a) = 6"
    using assms(3,5) by (simp_all add: wf_arp_def)
  moreover from handle_arp_reply [OF assms(1-3,5,6) _ assms(8), of p "length (arp_frame e a p)" iface]
  obtain lf c r where ins: "sr_arpcache_insert (cache sr) (ar_sha a) (ar_sip a) (clock_sec sr) = (c, r)"
    and "handle_arp sr (arp_frame e a p) (length (arp_frame e a p)) iface e
      = Inr (sr\<lparr>cache := c, logfile := lf, written := written sr @ flushed (if_list sr) (ar_sha a)
          (case waiting (cache sr) (ar_sip a) of None \<Rightarrow> [] | Some qs \<Rightarrow> qs)\<rparr>)"
    using assms(7) by auto
  ultimately show ?thesis
    using assms(3,4) cache.learn_wait [OF assms(2) ins] cache.learn_map [OF ins]
      cache.learn_other [OF ins]
    by (simp add: handlepacket_arp del: length_arp_frame)
qed

text \<open>The sample router with a datagram waiting for the server.\<close>

definition waiting_frame :: bytes where
  "waiting_frame = ip_frame sample_eth (sample_hdr 63 1 server1_ip) sample_data"

definition parked_router :: sr_instance where
  "parked_router = sample_router\<lparr>cache :=
     (case sr_arpcache_queuereq (cache sample_router) server1_ip waiting_frame 42 (eth_name 1) of
        Inr (c, p) \<Rightarrow> c | Inl f \<Rightarrow> cache sample_router)\<rparr>"

definition waiting_packet :: sr_packet where
  "waiting_packet = \<lparr>pk_buf = waiting_frame, pk_len = 42, pk_iface = eth_name 1\<rparr>"

definition waiting_req :: "int \<Rightarrow> u32 \<Rightarrow> sr_arpreq" where
  "waiting_req t n = \<lparr>rq_ptr = 1, rq_ip = server1_ip, rq_sent = t, rq_times_sent = n,
     rq_packets = [waiting_packet]\<rparr>"

lemma waiting_frame_length [simp]: "length waiting_frame = 42"
  using wf_sample_eth by (simp add: waiting_frame_def sizeof_defs sample_data_def)

lemma eth_name_strncpy: "strncpy sr_IFACE_NAMELEN (eth_name 1) = eth_name 1"
  by code_simp

lemma parked_router_eq: "parked_router = sample_router\<lparr>cache := \<lparr>entries = replicate SR_ARPCACHE_SZ zero_entry,
     requests = [waiting_req 0 0], next_ptr = 2\<rparr>\<rparr>"
  by (simp add: parked_router_def sample_router_def sr_arpcache_queuereq_def find_or_add_req_def
      update_req_def push_packet_def new_req_def waiting_req_def waiting_packet_def slice_def eth_name_strncpy)

lemma waiting_req_inv:
  "n \<le> 5 \<Longrightarrow> arp_inv \<lparr>entries = replicate SR_ARPCACHE_SZ zero_entry, requests = [waiting_req t n], next_ptr = 2\<rparr>"
  by (simp add: arp_inv_def zero_entry_def wf_req_def waiting_req_def wf_packet_def waiting_packet_def
      frame_len_def sizeof_eth_def eth_name_def)

lemma parked_router_facts: "config_ok parked_router" "arp_inv (cache parked_router)"
  "if_list parked_router = sample_ifs" "requests (cache parked_router) = [waiting_req 0 0]"
  "clock_sec parked_router = 1000" "entries (cache parked_router) = replicate SR_ARPCACHE_SZ zero_entry"
  using sample_config waiting_req_inv by (simp_all add: parked_router_eq)

lemma arp_reply_learned_witness:
  "\<exists>sr'. sr_handlepacket 1 parked_router (arp_frame sample_arp_eth (sample_arp_hdr 2) [])
      (length (arp_frame sample_arp_eth (sample_arp_hdr 2) [])) (eth_name 1) = Inr sr'
    \<and> written sr' = written parked_router @ flushed (if_list parked_router) (host_mac 4) [waiting_packet]
    \<and> waiting (cache sr') = (waiting (cache parked_router))(server1_ip := None)
    \<and> cache_map (cache sr') = (cache_map (cache parked_router))(server1_ip \<mapsto> host_mac 4)"
proof -
  have "has_room (cache parked_router)" "cache_map (cache parked_router) server1_ip = None"
    by (simp_all add: has_room_def cache_map_def arp_lookup_None_iff entry_hit_def parked_router_facts
        zero_entry_def SR_ARPCACHE_SZ_def)
  moreover have "waiting (cache parked_router) server1_ip = Some [waiting_packet]"
    by (simp add: waiting_def parked_router_facts waiting_req_def)
  ultimately show ?thesis
    using arp_reply_learned [of parked_router sample_arp_eth "sample_arp_hdr 2"
        "eth_if 3 (ip4 10 0 1 1)" 1 "[]" "eth_name 1"] wf_sample_arp
    by (simp add: parked_router_facts(1-3) sample_route_facts arp_op_reply_def del: length_arp_frame) blast
qed

section \<open>Retrying\<close>

text \<open>
  C12. A turn of the cleanup thread on a queue without expired requests returns, invalidates exactly
  the entries older than fifteen seconds, sends one ARP request for every request that is due and
  none for the others, and stamps those with the current time, so that no request is due
  afterwards; the waiting packets stay as they are.
\<close>

theorem cleanup_turn:
  assumes "ready sr" "ifaces_known sr"
  shows "\<exists>sr'. sr_arpcache_timeout_turn (Suc depth) sr = Inr sr'
    \<and> written sr' = written sr @ sweep_messages sr (requests (cache sr))
    \<and> entries (cache sr') = map (expire_entry (clock_sec sr)) (entries (cache sr))
    \<and> requests (cache sr') = map (swept sr) (requests (cache sr))
    \<and> (\<forall>q \<in> set (requests (cache sr')). \<not> req_due sr' q)
    \<and> waiting (cache sr') = waiting (cache sr)"
proof -
  from timeout_turn_eq [OF assms] obtain lf where
    run: "sr_arpcache_timeout_turn (Suc depth) sr = Inr (sr\<lparr>cache :=
       (expire_entries (cache sr) (clock_sec sr))\<lparr>requests := map (swept sr) (requests (cache sr))\<rparr>,
       logfile := lf, written := written sr @ sweep_messages sr (requests (cache sr))\<rparr>)"
    by blast
  have "\<not> req_due sr (swept sr q)" for q
    by (rule swept_not_due)
  then have "\<forall>q \<in> set (map (swept sr) (requests (cache sr))).
      \<not> 1 < clock_sec sr - rq_sent q"
    by (simp add: req_due_def)
  moreover have "find_req (map (swept sr) rs) ip = map_option (swept sr) (find_req rs ip)" for rs ip
    by (rule req_ip.lookup_map) simp
  then have "map_option rq_packets (find_req (map (swept sr) rs) ip) = map_option rq_packets (find_req rs ip)"
    for rs ip
    by (simp add: option.map_comp comp_def)
  ultimately show ?thesis
    using run by (simp add: req_due_def expire_entries_def waiting_def fun_eq_iff)
qed

lemma cleanup_turn_witness:
  "\<exists>sr'. sr_arpcache_timeout_turn (Suc 0) parked_router = Inr sr'
    \<and> written sr' = written parked_router
        @ [packet_message (eth_name 1) (arp_request_frame (eth_if 1 (ip4 192 168 2 1)) server1_ip)]
    \<and> (\<forall>q \<in> set (requests (cache sr')). \<not> req_due sr' q)"
proof -
  have "ready parked_router" "ifaces_known parked_router"
    by (simp_all add: ready_def no_expired_def ifaces_known_def req_expired_def parked_router_facts
        waiting_req_def waiting_packet_def sample_route_facts)
  moreover have "sweep_messages parked_router (requests (cache parked_router))
      = [packet_message (eth_name 1) (arp_request_frame (eth_if 1 (ip4 192 168 2 1)) server1_ip)]"
    by (simp add: parked_router_facts req_due_def waiting_req_def waiting_packet_def sample_route_facts)
  ultimately show ?thesis
    using cleanup_turn [of parked_router 0] by auto
qed


text \<open>The same router after five unanswered requests, three seconds after the last.\<close>

definition exhausted_router :: sr_instance where
  "exhausted_router = sample_router\<lparr>cache := \<lparr>entries = replicate SR_ARPCACHE_SZ zero_entry,
     requests = [waiting_req 997 5], next_ptr = 2\<rparr>\<rparr>"

lemma exhausted_router_unreachable:
  "\<exists>sr1. send_icmp_msg (Suc 0) exhausted_router waiting_frame 42 icmp_type_dest_unreachable
     icmp_dest_unreachable_host = Inr sr1"
proof -
  let ?f = "icmp_error_frame icmp_type_dest_unreachable icmp_dest_unreachable_host
    (sample_hdr 63 1 server1_ip) sample_data (eth_if 3 (ip4 10 0 1 1))"
  have p: "8 \<le> length sample_data"
    by (simp add: sample_data_def)
  have cfg: "config_ok exhausted_router" "arp_inv (cache exhausted_router)"
    using sample_config waiting_req_inv by (simp_all add: exhausted_router_def)
  have "way_back exhausted_router (ip_src (sample_hdr 63 1 server1_ip))
      = Some (host_route client_ip 3, eth_if 3 (ip4 10 0 1 1))"
    by (simp add: way_back_Some exhausted_router_def sample_route_facts)
  from send_icmp_error [OF cfg(1) wf_sample_eth(1) _ p _ this, of icmp_type_dest_unreachable
      "Suc 0" 42 icmp_dest_unreachable_host]
  have "send_icmp_msg (Suc 0) exhausted_router waiting_frame 42 icmp_type_dest_unreachable
      icmp_dest_unreachable_host = send_or_queue (handle_arpreq (Suc 0)) exhausted_router ?f (length ?f)
        client_ip (Some (eth_if 3 (ip4 10 0 1 1)))"
    by (simp add: waiting_frame_def)
  moreover have "sr_get_interface (if_list exhausted_router) (eth_name 3) = Some (eth_if 3 (ip4 10 0 1 1))"
    "frame_len (length ?f)"
    using length_icmp_error_frame [OF p]
    by (simp_all add: exhausted_router_def sample_route_facts frame_len_def sizeof_eth_def)
  moreover have "sr_arpcache_lookup (cache exhausted_router) client_ip = None"
    by (simp add: arp_lookup_None_iff exhausted_router_def entry_hit_def zero_entry_def)
  moreover have "server1_ip \<noteq> client_ip"
    by code_simp
  then have "\<not> req_expired exhausted_router (queue_target (cache exhausted_router) client_ip)"
    by (simp add: req_expired_def queue_target_def exhausted_router_def waiting_req_def new_req_def)
  ultimately show ?thesis
    using send_or_queue_parks [OF cfg, of "eth_name 3" "eth_if 3 (ip4 10 0 1 1)" ?f client_ip 0] by auto
qed


section \<open>Every reachable state\<close>

text \<open>
  C4. In every state reachable from a freshly initialised router, by any sequence of received frames,
  cleanup turns and clock ticks, the ARP tables satisfy their invariant (at most one request per
  address, live and distinct request pointers, no empty queue, no request sent more than five
  times, packets with their own length) and every message written so far is a VNS packet message
  around a frame whose source address is that of the interface it names.
\<close>

theorem reachable_invariant:
  assumes "reach router_start (router_step depth) sr"
  shows "arp_inv (cache sr) \<and> tries_upto 5 (cache sr) \<and> (\<forall>m \<in> set (written sr). vns_frame_ok (if_list sr) m)"
  using router.reach_inv [OF assms] by (simp add: router_inv_def)

text \<open>A state with messages that is reached: the initialised router after it answers an ARP request.\<close>

lemma sample_init: "sr_init sample_router = sample_router"
  by (simp add: sr_init_def sr_arpcache_init_def sample_router_def)

lemma reachable_invariant_witness:
  "\<exists>sr. reach router_start (router_step 1) sr \<and> written sr \<noteq> []
    \<and> arp_inv (cache sr) \<and> tries_upto 5 (cache sr) \<and> (\<forall>m \<in> set (written sr). vns_frame_ok (if_list sr) m)"
proof -
  let ?b = "arp_frame sample_arp_eth (sample_arp_hdr 1) []"
  have start: "reach router_start (router_step 1) sample_router"
    by (rule reach_init) (unfold router_start_def, rule exI [of _ sample_router], simp add: sample_init)
  have len: "length ?b < 2 ^ 31" "\<not> length ?b < sizeof_eth"
    using wf_sample_arp by (simp_all add: sizeof_defs)
  have "length (if_addr (eth_if 3 (ip4 10 0 1 1))) = 6"
    by (simp add: eth_mac_def)
  from handle_arp_request [OF wf_sample_arp(1,3) _ _ _ _ this len(1), where sr = sample_router
      and iface = "eth_name 3"]
  obtain sr' where "handle_arp sample_router ?b (length ?b) (eth_name 3) sample_arp_eth = Inr sr'"
    and em: "emitted sample_router (eth_name 3)
      (arp_reply_frame (eth_if 3 (ip4 10 0 1 1)) sample_arp_eth (sample_arp_hdr 1) []) sr'"
    by (auto simp: sample_route_facts arp_op_request_def)
  then have "sr_handlepacket 1 sample_router ?b (length ?b) (eth_name 3) = Inr sr'"
    using wf_sample_arp len(2) by (simp add: handlepacket_arp del: length_arp_frame)
  then have "reach router_start (router_step 1) sr'"
    using start len(1) by (blast intro: reach_step router_step.receive)
  moreover have "written sr' \<noteq> []"
    using emitted_fields(2) [OF em] by simp
  ultimately show ?thesis
    using reachable_invariant by blast
qed

end
