(* ===== verification/Router_Threads.thy ===== *)
theory Router_Threads
  imports Arp_Properties
begin

text \<open>
  The router's two threads between the two calls that end \<^verbatim>\<open>sr_forward_ip_packet\<close> and
  \<^verbatim>\<open>send_icmp_msg\<close>, and inside the second of them: \<^verbatim>\<open>sr_arpcache_queuereq\<close> takes the lock of the cache
  and returns a pointer to the request, and \<^verbatim>\<open>handle_arpreq\<close> follows the pointer without the lock.  The
  cleanup thread may take any number of turns before \<^verbatim>\<open>handle_arpreq\<close> tests the request, between the test
  and the sending of the ARP request, and between that and the counting of the try.

  A state is the router's state and where the main thread is.
\<close>

section \<open>The parts of a retry\<close>

text \<open>Sending the ARP request; \<open>None\<close> when the interface is not found.\<close>

definition arpreq_send :: "sr_instance \<Rightarrow> nat \<Rightarrow> sr_instance option res" where
  "arpreq_send sr req =
     (case deref_req (requests (cache sr)) req of
        None \<Rightarrow> Inl UseAfterFree
      | Some request \<Rightarrow>
        (case rq_packets request of
           [] \<Rightarrow> Inl NullDeref
         | packet # _ \<Rightarrow>
           (case sr_get_interface (if_list sr) (pk_iface packet) of
              None \<Rightarrow> Inr None
            | Some interface \<Rightarrow>
              (let len = sizeof_eth + sizeof_arp in
               bindE (arp_request_packet (heap_junk sr len) interface (rq_ip request)) (\<lambda>arpreq.
               bindE (sr_send_packet sr arpreq len (if_name interface)) (\<lambda>(_, sr').
               Inr (Some sr')))))))"

text \<open>Counting the try: \<open>now\<close> is the time read at the start of \<^verbatim>\<open>handle_arpreq\<close>.\<close>

definition arpreq_update :: "int \<Rightarrow> sr_instance \<Rightarrow> nat \<Rightarrow> sr_instance res" where
  "arpreq_update now sr req =
     (case deref_req (requests (cache sr)) req of
        None \<Rightarrow> Inl UseAfterFree
      | Some _ \<Rightarrow> Inr (sr\<lparr>cache := update_req req
          (\<lambda>r. r\<lparr>rq_sent := now, rq_times_sent := rq_times_sent r + 1\<rparr>) (cache sr)\<rparr>))"

text \<open>Without interruption the parts are \<^verbatim>\<open>handle_arpreq\<close>.\<close>

lemma handle_arpreq_parts:
  assumes "deref_req (requests (cache sr)) p = Some q" "req_due sr q" "\<not> rq_times_sent q \<ge> 5"
  shows "handle_arpreq (Suc depth) sr p = bindE (arpreq_send sr p) (\<lambda>sent.
    case sent of None \<Rightarrow> Inr sr | Some sr' \<Rightarrow> arpreq_update (clock_sec sr) sr' p)"
proof -
  have counted: "arpreq_update (clock_sec sr) s p = Inr (s\<lparr>cache := update_req p
      (\<lambda>r. r\<lparr>rq_sent := clock_sec sr, rq_times_sent := rq_times_sent r + 1\<rparr>) (cache s)\<rparr>)"
    if "sr_send_packet sr b n i = Inr (k, s)" for s b n i k
    using frames_cache [OF send_frames [OF that]] assms(1) by (simp add: arpreq_update_def)
  show ?thesis
    using assms by (cases "rq_packets q")
      (auto simp: arpreq_send_def handle_arpreq_body_def req_due_def bindE_assoc Let_def counted
        bindE_def split: option.split sum.split)
qed

section \<open>The threads\<close>

datatype main_at = Idle | Queued nat | Sending nat int | Counting nat int

type_synonym shared = "sr_instance \<times> main_at"

inductive threads_step :: "nat \<Rightarrow> shared \<Rightarrow> shared \<Rightarrow> bool" for depth :: nat where
  receive: "len < 2 ^ 31 \<Longrightarrow> sr_handlepacket depth sr buf len iface = Inr sr' \<Longrightarrow>
    threads_step depth (sr, Idle) (sr', Idle)"
| queue: "frame_len len \<Longrightarrow> sr_arpcache_queuereq (cache sr) ip packet len iface = Inr (c, req) \<Longrightarrow>
    threads_step depth (sr, Idle) (sr\<lparr>cache := c\<rparr>, Queued req)"
| not_due: "deref_req (requests (cache sr)) req = Some request \<Longrightarrow> \<not> req_due sr request \<Longrightarrow>
    threads_step depth (sr, Queued req) (sr, Idle)"
| give_up: "deref_req (requests (cache sr)) req = Some request \<Longrightarrow> req_expired sr request \<Longrightarrow>
    handle_arpreq depth sr req = Inr sr' \<Longrightarrow> threads_step depth (sr, Queued req) (sr', Idle)"
| retry: "deref_req (requests (cache sr)) req = Some request \<Longrightarrow> req_due sr request \<Longrightarrow> \<not> req_expired sr request \<Longrightarrow>
    threads_step depth (sr, Queued req) (sr, Sending req (clock_sec sr))"
| no_interface: "arpreq_send sr req = Inr None \<Longrightarrow> threads_step depth (sr, Sending req now) (sr, Idle)"
| send: "arpreq_send sr req = Inr (Some sr') \<Longrightarrow>
    threads_step depth (sr, Sending req now) (sr', Counting req now)"
| count: "arpreq_update now sr req = Inr sr' \<Longrightarrow> threads_step depth (sr, Counting req now) (sr', Idle)"
| cleanup: "sr_arpcache_timeout_turn depth sr = Inr sr' \<Longrightarrow> threads_step depth (sr, m) (sr', m)"
| clock: "clock_sec sr \<le> t \<Longrightarrow> threads_step depth (sr, m) (sr\<lparr>clock_sec := t, clock_usec := u\<rparr>, m)"

inductive_cases threads_stepE: "threads_step depth s s'"

definition threads_start :: "shared \<Rightarrow> bool" where
  "threads_start s \<longleftrightarrow> router_start (fst s) \<and> config_ok (fst s) \<and> snd s = Idle"

section \<open>What the cleanup thread leaves alone\<close>

text \<open>The requests on the queue, and those that have not been sent more than five times.\<close>

definition live :: "sr_instance \<Rightarrow> nat set" where
  "live sr = rq_ptr ` set (requests (cache sr))"

definition untired :: "sr_instance \<Rightarrow> nat \<Rightarrow> bool" where
  "untired sr p \<longleftrightarrow> (\<forall>r \<in> set (requests (cache sr)). rq_ptr r = p \<longrightarrow> rq_times_sent r \<le> 5)"

definition keeps_requests :: "sr_instance \<Rightarrow> sr_instance \<Rightarrow> bool" where
  "keeps_requests sr sr' \<longleftrightarrow> live sr' = live sr \<and> (\<forall>p. untired sr p \<longrightarrow> untired sr' p)"

lemma live_deref: "p \<in> live sr \<longleftrightarrow> (\<exists>q. deref_req (requests (cache sr)) p = Some q)"
  using req_ptr.lookup_None_keys [of "requests (cache sr)" p] by (auto simp: live_def)

lemma keeps_requests_cache: "requests (cache sr') = requests (cache sr) \<Longrightarrow> keeps_requests sr sr'"
  by (simp add: keeps_requests_def live_def untired_def)

lemma keeps_requests_trans: "keeps_requests a b \<Longrightarrow> keeps_requests b c \<Longrightarrow> keeps_requests a c"
  by (simp add: keeps_requests_def)

lemma waits:
  assumes "arp_inv (cache sr)" "deref_req (requests (cache sr)) p = Some q"
  shows "rq_packets q \<noteq> []"
  using arp_invD(5) [OF assms(1)] req_ptr.lookup_in_set [OF assms(2)] by (simp add: wf_req_def)

lemma live_update:
  assumes "\<And>r. rq_ptr (f r) = rq_ptr r"
  shows "live (sr\<lparr>cache := update_req p f c\<rparr>) = live (sr\<lparr>cache := c\<rparr>)"
proof -
  from assms have "map rq_ptr (requests (update_req p f c)) = map rq_ptr (requests c)"
    by (simp add: update_req_def)
  then show ?thesis
    unfolding live_def list.set_map [symmetric] by simp
qed

lemma bump_keeps_requests:
  assumes "arp_inv (cache sr)" "deref_req (requests (cache sr)) p = Some q" "\<not> rq_times_sent q \<ge> 5"
    and "cache s = cache sr"
  shows "keeps_requests sr (s\<lparr>cache := update_req p
    (\<lambda>r. r\<lparr>rq_sent := t, rq_times_sent := rq_times_sent r + 1\<rparr>) (cache s)\<rparr>)"
proof -
  let ?f = "\<lambda>r. r\<lparr>rq_sent := t, rq_times_sent := rq_times_sent r + 1\<rparr>"
  have "live (s\<lparr>cache := update_req p ?f (cache s)\<rparr>) = live sr"
    by (subst live_update) (simp_all add: live_def assms(4))
  moreover have "rq_times_sent r + 1 \<le> 5" if "r \<in> set (requests (cache sr))" "rq_ptr r = p" for r
    using deref_unique [OF assms(1,2) that] times_sent_step [OF assms(3)] by simp
  ultimately show ?thesis
    by (auto simp: keeps_requests_def untired_def update_req_def assms(4))
qed

text \<open>
  Giving up on a request is the only thing that frees one, and it does not return as long as a packet
  waits on it: then it reads a freed packet.
\<close>

lemma handle_arpreq_keeps_requests:
  assumes "arp_inv (cache sr)" "handle_arpreq depth sr p = Inr sr'"
  shows "keeps_requests sr sr'"
proof -
  obtain d where d: "depth = Suc d"
    using assms(2) by (cases depth) auto
  obtain q where q: "deref_req (requests (cache sr)) p = Some q"
    using assms(2) d by (auto simp: handle_arpreq_body_def split: option.splits)
  have sent: "cache s = cache sr" if "sr_send_packet sr b n i = Inr (k, s)" for s b n i k
    by (rule frames_cache [OF send_frames [OF that]])
  show ?thesis
    using assms(2) waits [OF assms(1) q]
    by (auto simp: d handle_arpreq_body_def q bindE_eq_Inr Let_def keeps_requests_cache
        intro!: bump_keeps_requests [OF assms(1) q] sent
        dest!: host_unreachable_Inr split: if_splits option.splits list.splits)
qed

lemma sweep_keeps_requests:
  "arp_inv (cache sr) \<Longrightarrow> sweep_loop depth fuel sr p = Inr sr' \<Longrightarrow> keeps_requests sr sr'"
proof (induction depth fuel sr p rule: sweep_loop.induct)
  case (3 depth fuel sr p)
  then obtain r sr1 where r: "deref_req (requests (cache sr)) p = Some r"
    and h: "handle_arpreq depth sr p = Inr sr1"
    and rest: "sweep_loop depth fuel sr1 (next_req (requests (cache sr)) p) = Inr sr'"
    by (auto simp: bindE_eq_Inr split: option.splits)
  have inv: "arp_inv (cache sr1)"
    using ensuresD [OF harq.harq_evolves [OF "3.prems"(1)] h] "3.prems"(1) by (rule evolves_inv)
  show ?case
    using handle_arpreq_keeps_requests [OF "3.prems"(1) h] "3.IH" [OF r refl inv rest]
    by (rule keeps_requests_trans)
qed (simp_all add: keeps_requests_cache)

lemma timeout_keeps_requests:
  assumes "arp_inv (cache sr)" "sr_arpcache_timeout_turn depth sr = Inr sr'"
  shows "keeps_requests sr sr'"
proof -
  let ?s = "sr\<lparr>cache := expire_entries (cache sr) (clock_sec sr)\<rparr>"
  have "arp_inv (cache ?s)"
    using assms(1) by (simp add: expire_inv)
  from sweep_keeps_requests [OF this] assms(2) have "keeps_requests ?s sr'"
    unfolding sr_arpcache_timeout_turn_def sr_arpcache_sweepreqs_def by blast
  moreover have "keeps_requests sr ?s"
    by (simp add: keeps_requests_cache)
  ultimately show ?thesis
    by (rule keeps_requests_trans [rotated])
qed

section \<open>The invariant\<close>

text \<open>The request the main thread works on, and the one it has found due for a retry.\<close>

fun held :: "main_at \<Rightarrow> nat option" where
  "held Idle = None"
| "held (Queued p) = Some p"
| "held (Sending p now) = Some p"
| "held (Counting p now) = Some p"

fun retrying :: "main_at \<Rightarrow> nat option" where
  "retrying (Sending p now) = Some p"
| "retrying (Counting p now) = Some p"
| "retrying _ = None"

definition threads_inv :: "shared \<Rightarrow> bool" where
  "threads_inv s \<longleftrightarrow> arp_inv (cache (fst s)) \<and> config_ok (fst s) \<and> tries_upto 6 (cache (fst s))
     \<and> set_option (held (snd s)) \<subseteq> live (fst s) \<and> (\<forall>p \<in> set_option (retrying (snd s)). untired (fst s) p)"

lemma threads_evolve:
  assumes "threads_inv (sr, m)" "evolves sr sr'"
    and "set_option (held m') \<subseteq> live sr'" "\<forall>p \<in> set_option (retrying m'). untired sr' p"
  shows "threads_inv (sr', m')"
  using assms by (auto simp: threads_inv_def evolves_config evolves_inv evolves_tries [of sr sr' 6])

lemma threads_same:
  assumes "threads_inv (sr, m)" "evolves sr sr'" "keeps_requests sr sr'"
  shows "threads_inv (sr', m)"
  using assms by (intro threads_evolve [OF assms(1,2)]) (auto simp: threads_inv_def keeps_requests_def)

lemma arpreq_send_evolves:
  assumes "arpreq_send sr p = Inr (Some sr')"
  shows "evolves sr sr'" "cache sr' = cache sr"
proof -
  obtain b n i k where "sr_send_packet sr b n i = Inr (k, sr')"
    using assms by (auto simp: arpreq_send_def bindE_eq_Inr Let_def split: option.splits list.splits)
  from send_frames [OF this] show "evolves sr sr'" "cache sr' = cache sr"
    by (auto intro: frames_evolves dest: frames_cache)
qed

lemma one_more_try: "(t :: u32) \<le> 5 \<Longrightarrow> t + 1 \<le> 6"
proof (cases "t = 5")
  case False
  assume "t \<le> 5"
  with False have "t + 1 \<le> 5"
    by (intro times_sent_step) auto
  then show ?thesis
    by (rule order_trans) simp
qed simp

lemma threads_count:
  assumes "threads_inv (sr, Counting p now)" "arpreq_update now sr p = Inr sr'"
  shows "threads_inv (sr', Idle)"
proof -
  let ?f = "\<lambda>r. r\<lparr>rq_sent := now, rq_times_sent := rq_times_sent r + 1\<rparr>"
  have sr': "sr' = sr\<lparr>cache := update_req p ?f (cache sr)\<rparr>"
    using assms(2) by (auto simp: arpreq_update_def split: option.splits)
  have inv: "arp_inv (cache sr)" "config_ok sr" "tries_upto 6 (cache sr)" "untired sr p"
    using assms(1) by (simp_all add: threads_inv_def)
  have "tries_upto 6 (update_req p ?f (cache sr))"
    using inv(3,4) by (intro tries_update) (auto simp: untired_def one_more_try)
  with inv bump_inv [OF inv(1)] show ?thesis
    by (simp add: threads_inv_def sr' config_ok_def)
qed

text \<open>A step of the main thread that leaves it without a request.\<close>

lemma threads_idle: "threads_inv (sr, m) \<Longrightarrow> evolves sr sr' \<Longrightarrow> threads_inv (sr', Idle)"
  by (rule threads_evolve) simp_all

lemma threads_arp: "threads_inv (sr, m) \<Longrightarrow> arp_inv (cache sr)"
  by (simp add: threads_inv_def)

lemma threads_queue:
  assumes "threads_inv (sr, Idle)" "frame_len len" "sr_arpcache_queuereq (cache sr) ip packet len iface = Inr (c, p)"
  shows "threads_inv (sr\<lparr>cache := c\<rparr>, Queued p)"
proof -
  have len: "len \<le> length packet"
    using assms(2,3) by (auto simp: sr_arpcache_queuereq_def bindE_eq_Inr load_eq_Inr split: prod.splits if_splits)
  note queued = threads_arp [OF assms(1)] assms(2) len assms(3)
  have "p \<in> live (sr\<lparr>cache := c\<rparr>)"
    using queuereq_deref [OF queued] by (simp add: live_deref)
  moreover have "evolves sr (sr\<lparr>cache := c\<rparr>)"
    using queuereq_inv [OF queued] tries_queue [OF assms(3)] by (intro evolves_cache)
  ultimately show ?thesis
    by (intro threads_evolve [OF assms(1)]) simp_all
qed

lemma threads_retry:
  assumes "threads_inv (sr, Queued p)" "deref_req (requests (cache sr)) p = Some q" "\<not> 5 \<le> rq_times_sent q"
  shows "threads_inv (sr, Sending p now)"
proof -
  have "untired sr p"
    using deref_unique [OF threads_arp [OF assms(1)] assms(2)] assms(3) by (auto simp: untired_def)
  then show ?thesis
    using assms(1) by (simp add: threads_inv_def)
qed

lemma threads_send:
  assumes "threads_inv (sr, Sending p now)" "arpreq_send sr p = Inr (Some sr')"
  shows "threads_inv (sr', Counting p now)"
proof -
  note sent = arpreq_send_evolves [OF assms(2)]
  have "threads_inv (sr', Sending p now)"
    by (rule threads_same [OF assms(1) sent(1)]) (simp add: keeps_requests_cache sent(2))
  then show ?thesis
    by (simp add: threads_inv_def)
qed

lemma threads_step_inv: "threads_step depth s s' \<Longrightarrow> threads_inv s \<Longrightarrow> threads_inv s'"
proof (induction rule: threads_step.induct)
  case (receive len sr buf iface sr')
  then show ?case
    using threads_idle [OF _ ensuresD [OF handlepacket_evolves]] threads_arp by blast
next
  case (queue len sr ip packet iface c req)
  then show ?case
    using threads_queue by blast
next
  case (not_due sr req request)
  then show ?case
    using threads_idle evolves_refl by blast
next
  case (give_up sr req request sr')
  then show ?case
    using threads_idle [OF _ ensuresD [OF harq.harq_evolves]] threads_arp by blast
next
  case (retry sr req request)
  then show ?case
    using threads_retry by (simp add: req_expired_def)
next
  case (no_interface sr req now)
  then show ?case
    using threads_idle evolves_refl by blast
next
  case (send sr req sr' now)
  then show ?case
    using threads_send by blast
next
  case (count now sr req sr')
  then show ?case
    using threads_count by blast
next
  case (cleanup sr sr' m)
  note arp = threads_arp [OF cleanup(2)]
  show ?case
    by (rule threads_same [OF cleanup(2) ensuresD [OF timeout_evolves [OF arp] cleanup(1)]
          timeout_keeps_requests [OF arp cleanup(1)]])
next
  case (clock sr t m u)
  then show ?case
    by (simp add: threads_inv_def config_ok_def live_def untired_def)
qed

interpretation threads: inductive_invariant threads_start "threads_step depth" threads_inv for depth
proof unfold_locales
  show "threads_inv s" if "threads_start s" for s
    using that by (auto simp: threads_start_def threads_inv_def router_start_def sr_init_def init_inv tries_init)
  show "threads_inv s'" if "threads_inv s" "threads_step depth s s'" for s s'
    using threads_step_inv that by blast
qed

section \<open>The pointer is good\<close>

text \<open>What is left of \<^verbatim>\<open>handle_arpreq\<close> returns; \<open>depth\<close> is for giving up.\<close>

definition handling_returns :: "nat \<Rightarrow> sr_instance \<Rightarrow> main_at \<Rightarrow> bool" where
  "handling_returns depth sr m =
     (case m of
        Idle \<Rightarrow> True
      | Queued p \<Rightarrow> (\<exists>q. deref_req (requests (cache sr)) p = Some q
          \<and> (req_expired sr q \<or> (\<exists>sr'. handle_arpreq (Suc depth) sr p = Inr sr')))
      | Sending p now \<Rightarrow> (\<exists>r. arpreq_send sr p = Inr r)
      | Counting p now \<Rightarrow> (\<exists>sr'. arpreq_update now sr p = Inr sr'))"

lemma arpreq_send_returns:
  assumes "config_ok sr" "deref_req (requests (cache sr)) p = Some q" "rq_packets q \<noteq> []"
  shows "\<exists>r. arpreq_send sr p = Inr r"
proof -
  obtain pkt pkts where pkts: "rq_packets q = pkt # pkts"
    using assms(3) by (cases "rq_packets q") auto
  show ?thesis
  proof (cases "sr_get_interface (if_list sr) (pk_iface pkt)")
    case None
    then show ?thesis
      using assms(2) pkts by (simp add: arpreq_send_def)
  next
    case (Some i)
    then obtain k sr1 where "arp_request_packet (heap_junk sr (sizeof_eth + sizeof_arp)) i (rq_ip q) = Inr (arp_request_frame i (rq_ip q))"
      "sr_send_packet sr (arp_request_frame i (rq_ip q)) (sizeof_eth + sizeof_arp) (if_name i) = Inr (k, sr1)"
      using retry_sends [OF assms(1)] by blast
    with Some show ?thesis
      using assms(2) pkts by (simp add: arpreq_send_def)
  qed
qed

lemma handle_arpreq_returns:
  assumes "config_ok sr" "deref_req (requests (cache sr)) p = Some q" "rq_packets q \<noteq> []" "\<not> req_expired sr q"
  shows "\<exists>sr'. handle_arpreq (Suc depth) sr p = Inr sr'"
proof (cases "req_due sr q")
  case False
  then show ?thesis
    using handle_arpreq_wait [OF assms(2)] by blast
next
  case True
  then have parts: "handle_arpreq (Suc depth) sr p = bindE (arpreq_send sr p) (\<lambda>sent.
      case sent of None \<Rightarrow> Inr sr | Some sr' \<Rightarrow> arpreq_update (clock_sec sr) sr' p)"
    using assms(4) by (intro handle_arpreq_parts [OF assms(2)]) (simp_all add: req_expired_def)
  obtain r where "arpreq_send sr p = Inr r"
    using arpreq_send_returns [OF assms(1-3)] by blast
  with parts show ?thesis
    using assms(2) arpreq_send_evolves(2) by (cases r) (auto simp: arpreq_update_def)
qed

text \<open>
  C13. Whatever the cleanup thread does while the main thread holds a request without the lock, from
  queueing the frame to counting the try, the request stays on the queue with a frame waiting on it, and
  each part of the handling returns, unless the request is found out of retries; and no request is
  ever sent more than six times (one more than when the handling is not interrupted).  The request is
  not freed only because giving up on one with a waiting frame never returns: were that mended, the lock
  would be needed here.
\<close>

theorem unlocked_request_is_live:
  assumes "reach threads_start (threads_step depth) (sr, m)"
  shows "handling_returns d sr m \<and> tries_upto 6 (cache sr)
    \<and> (\<forall>p \<in> set_option (held m). \<exists>q. deref_req (requests (cache sr)) p = Some q \<and> rq_packets q \<noteq> [])"
proof -
  have inv: "arp_inv (cache sr)" "config_ok sr" "tries_upto 6 (cache sr)" "set_option (held m) \<subseteq> live sr"
    using threads.reach_inv [OF assms] by (simp_all add: threads_inv_def)
  then have good: "\<exists>q. deref_req (requests (cache sr)) p = Some q \<and> rq_packets q \<noteq> []" if "held m = Some p" for p
    using that waits [OF inv(1)] by (auto simp: live_deref)
  have "handling_returns d sr m"
  proof (cases m)
    case (Queued p)
    then obtain q where "deref_req (requests (cache sr)) p = Some q" "rq_packets q \<noteq> []"
      using good by auto
    then show ?thesis
      using handle_arpreq_returns [OF inv(2)] Queued by (auto simp: handling_returns_def)
  next
    case (Sending p now)
    then show ?thesis
      using good arpreq_send_returns [OF inv(2)] by (auto simp: handling_returns_def)
  next
    case (Counting p now)
    then show ?thesis
      using good by (auto simp: handling_returns_def arpreq_update_def)
  qed (simp add: handling_returns_def)
  with inv(3) good show ?thesis
    by (cases "held m") auto
qed

section \<open>Six tries\<close>

text \<open>The sample router with one request waiting, sent \<open>n\<close> times, last at \<open>t\<close>; the time is \<open>now\<close>.\<close>

definition retried :: "sr_instance \<Rightarrow> int \<Rightarrow> u32 \<Rightarrow> int \<Rightarrow> bool" where
  "retried sr t n now \<longleftrightarrow> config_ok sr \<and> arp_inv (cache sr) \<and> if_list sr = sample_ifs
     \<and> requests (cache sr) = [waiting_req t n] \<and> clock_sec sr = now"

lemma retried_tick: "retried sr t n now \<Longrightarrow> now \<le> now' \<Longrightarrow> reach threads_start (threads_step d) (sr, m) \<Longrightarrow>
    \<exists>sr'. retried sr' t n now' \<and> reach threads_start (threads_step d) (sr', m)"
  by (intro exI [of _ "sr\<lparr>clock_sec := now', clock_usec := 0\<rparr>"])
    (auto simp: retried_def config_ok_def intro: reach_step threads_step.clock)

lemma retried_cleanup:
  assumes "retried sr t n now" "now - t > 1" "n < 5" "reach threads_start (threads_step (Suc d)) (sr, m)"
  shows "\<exists>sr'. retried sr' now (n + 1) now \<and> reach threads_start (threads_step (Suc d)) (sr', m)"
proof -
  have "ready sr" "ifaces_known sr"
    using assms(1,3) by (simp_all add: retried_def ready_def no_expired_def ifaces_known_def req_expired_def
        waiting_req_def waiting_packet_def sample_route_facts not_le)
  from timeout_turn_eq [OF this, of d] obtain lf where
    run: "sr_arpcache_timeout_turn (Suc d) sr = Inr (sr\<lparr>cache :=
      (expire_entries (cache sr) (clock_sec sr))\<lparr>requests := map (swept sr) (requests (cache sr))\<rparr>,
      logfile := lf, written := written sr @ sweep_messages sr (requests (cache sr))\<rparr>)" (is "_ = Inr ?sr'")
    by blast
  have inv: "arp_inv (cache ?sr')"
    by (rule evolves_inv [OF ensuresD [OF timeout_evolves run]]) (use assms(1) in \<open>simp_all add: retried_def\<close>)
  have "swept sr (waiting_req t n) = waiting_req now (n + 1)"
    using assms(1,2) by (simp add: swept_def req_due_def bump_def waiting_req_def retried_def)
  moreover have "config_ok ?sr'"
    by (rule evolves_config [OF ensuresD [OF timeout_evolves run]]) (use assms(1) in \<open>simp_all add: retried_def\<close>)
  ultimately have "retried ?sr' now (n + 1) now"
    using assms(1) inv by (simp add: retried_def)
  then show ?thesis
    using reach_step [OF assms(4) threads_step.cleanup [OF run]] by blast
qed

lemma parked_reach: "reach threads_start (threads_step 1) (parked_router, Queued 1)"
proof -
  have "router_start sample_router"
    unfolding router_start_def by (rule exI [of _ sample_router]) (simp add: sample_init)
  then have "reach threads_start (threads_step 1) (sample_router, Idle)"
    using sample_ready by (intro reach_init) (simp add: threads_start_def ready_def)
  moreover have "frame_len 42"
    by (simp add: frame_len_def sizeof_eth_def)
  moreover have "sr_arpcache_queuereq (cache sample_router) server1_ip waiting_frame 42 (eth_name 1)
      = Inr (cache parked_router, 1)"
    by (simp add: parked_router_eq sample_router_def sr_arpcache_queuereq_def find_or_add_req_def
        update_req_def push_packet_def new_req_def waiting_req_def waiting_packet_def slice_def eth_name_strncpy)
  moreover have "sample_router\<lparr>cache := cache parked_router\<rparr> = parked_router"
    by (simp add: parked_router_eq)
  ultimately show ?thesis
    by (metis reach_step threads_step.queue)
qed

text \<open>
  Four turns of the cleanup thread, a fifth while the main thread is about to count its own try: the
  request is sent twice in the same second, and counted six times.
\<close>

lemma retried_send:
  assumes "retried sr t n now"
  shows "\<exists>sr'. arpreq_send sr 1 = Inr (Some sr') \<and> retried sr' t n now"
proof -
  have facts: "config_ok sr" "deref_req (requests (cache sr)) 1 = Some (waiting_req t n)" "if_list sr = sample_ifs"
    "rq_packets (waiting_req t n) = [waiting_packet]" "sr_get_interface sample_ifs (pk_iface waiting_packet) \<noteq> None"
    using assms by (simp_all add: retried_def waiting_req_def waiting_packet_def sample_route_facts)
  obtain r where r: "arpreq_send sr 1 = Inr r"
    using arpreq_send_returns [OF facts(1,2)] facts(4) by auto
  then obtain sr' where sr': "arpreq_send sr 1 = Inr (Some sr')"
    using facts by (auto simp: arpreq_send_def bindE_eq_Inr Let_def split: option.splits)
  have "retried sr' t n now"
    using assms arpreq_send_evolves [OF sr'] evolves_config [OF arpreq_send_evolves(1) [OF sr']]
      evolves_fields [OF arpreq_send_evolves(1) [OF sr']] by (simp add: retried_def)
  with sr' show ?thesis
    by blast
qed

lemma six_tries: "\<exists>sr. reach threads_start (threads_step 1) (sr, Idle) \<and> requests (cache sr) = [waiting_req 1008 6]"
proof -
  let ?reach = "\<lambda>sr m. reach threads_start (threads_step (Suc 0)) (sr, m)"
  have "retried parked_router 0 0 1000"
    by (simp add: retried_def parked_router_facts)
  then obtain s1 where s1: "retried s1 1000 1 1000" "?reach s1 (Queued 1)"
    using retried_cleanup [of parked_router 0 0 1000 0 "Queued 1"] parked_reach by auto
  have again: "\<exists>sr'. retried sr' (now + 2) (n + 1) (now + 2) \<and> ?reach sr' m"
    if "retried sr now n now" "n < 5" "?reach sr m" for sr now n m
    using retried_tick [OF that(1) _ that(3), of "now + 2"] retried_cleanup [OF _ _ that(2)] by fastforce
  obtain s2 where s2: "retried s2 1002 2 1002" "?reach s2 (Queued 1)"
    using again [OF s1(1) _ s1(2)] by auto
  obtain s3 where s3: "retried s3 1004 3 1004" "?reach s3 (Queued 1)"
    using again [OF s2(1) _ s2(2)] by auto
  obtain s4 where s4: "retried s4 1006 4 1006" "?reach s4 (Queued 1)"
    using again [OF s3(1) _ s3(2)] by auto
  obtain s5 where s5: "retried s5 1006 4 1008" "?reach s5 (Queued 1)"
    using retried_tick [OF s4(1) _ s4(2), of 1008] by auto
  then have "?reach s5 (Sending 1 1008)"
    using threads_step.retry [of s5 1 "waiting_req 1006 4" "Suc 0"]
    by (intro reach_step [OF s5(2)]) (simp add: retried_def waiting_req_def req_due_def req_expired_def)
  moreover obtain s6 where s6: "arpreq_send s5 1 = Inr (Some s6)" "retried s6 1006 4 1008"
    using retried_send [OF s5(1)] by blast
  ultimately have "?reach s6 (Counting 1 1008)"
    by (blast intro: reach_step threads_step.send)
  then obtain s7 where s7: "retried s7 1008 5 1008" "?reach s7 (Counting 1 1008)"
    using retried_cleanup [OF s6(2)] by auto
  let ?s8 = "s7\<lparr>cache := update_req 1 (\<lambda>r. r\<lparr>rq_sent := 1008, rq_times_sent := rq_times_sent r + 1\<rparr>) (cache s7)\<rparr>"
  have "arpreq_update 1008 s7 1 = Inr ?s8" "requests (cache ?s8) = [waiting_req 1008 6]"
    using s7(1) by (simp_all add: arpreq_update_def retried_def waiting_req_def update_req_def)
  then show ?thesis
    using reach_step [OF s7(2) threads_step.count] by auto
qed

lemma unlocked_request_is_live_witness:
  "\<exists>sr :: sr_instance. requests (cache sr) = [waiting_req 1008 6] \<and> tries_upto 6 (cache sr) \<and> handling_returns 0 parked_router (Queued 1)"
proof -
  obtain sr where sr: "reach threads_start (threads_step 1) (sr, Idle)" "requests (cache sr) = [waiting_req 1008 6]"
    using six_tries by blast
  show ?thesis
    using sr(2) unlocked_request_is_live [OF sr(1), of 0] unlocked_request_is_live [OF parked_reach, of 0]
    by (intro exI [of _ sr]) simp
qed

end
