(* ===== verification/Sha1.thy ===== *)
theory Sha1
  imports Prelude
begin

text \<open>
  SHA-1 of \<^verbatim>\<open>sha1.c\<close>, the streaming interface the authentication uses.  The \<^verbatim>\<open>unsigned\<close> members are
  32-bit words, so the masks with \<^verbatim>\<open>0xFFFFFFFF\<close> are identities; a write to \<^verbatim>\<open>Message_Block\<close> is
  checked against its 64 bytes.
\<close>

unbundle bit_operations_syntax

section \<open>The code\<close>

record SHA1Context =
  Message_Digest :: "u32 list"
  Length_Low :: u32
  Length_High :: u32
  Message_Block :: bytes
  Message_Block_Index :: nat
  Computed :: bool
  Corrupted :: bool

definition SHA1CircularShift :: "nat \<Rightarrow> u32 \<Rightarrow> u32" where
  "SHA1CircularShift bits w = (push_bit bits w AND 0xFFFFFFFF) OR drop_bit (32 - bits) w"

definition SHA1_init :: "u32 list" where
  "SHA1_init = [0x67452301, 0xEFCDAB89, 0x98BADCFE, 0x10325476, 0xC3D2E1F0]"

text \<open>\<^verbatim>\<open>SHA1Reset\<close> leaves \<^verbatim>\<open>Message_Block\<close> as it is.\<close>

definition SHA1Reset :: "SHA1Context \<Rightarrow> SHA1Context" where
  "SHA1Reset context = context\<lparr>Length_Low := 0, Length_High := 0, Message_Block_Index := 0,
     Message_Digest := SHA1_init, Computed := False, Corrupted := False\<rparr>"

text \<open>The message schedule: sixteen words from the block, then the expansion loop.\<close>

definition W_block :: "bytes \<Rightarrow> nat \<Rightarrow> u32" where
  "W_block block t =
     push_bit 24 (ucast (block ! (t * 4))) OR push_bit 16 (ucast (block ! (t * 4 + 1)))
     OR push_bit 8 (ucast (block ! (t * 4 + 2))) OR ucast (block ! (t * 4 + 3))"

definition W_next :: "nat \<Rightarrow> u32 list \<Rightarrow> u32 list" where
  "W_next t W = W @ [SHA1CircularShift 1 (W ! (t - 3) XOR W ! (t - 8) XOR W ! (t - 14) XOR W ! (t - 16))]"

definition W_words :: "bytes \<Rightarrow> u32 list" where
  "W_words block = fold W_next [16..<80] (map (W_block block) [0..<16])"

text \<open>The round that the bodies of the four loops share, with the function and the constant of each.\<close>

type_synonym sha1_regs = "u32 \<times> u32 \<times> u32 \<times> u32 \<times> u32"

definition sha1_round ::
    "(u32 \<Rightarrow> u32 \<Rightarrow> u32 \<Rightarrow> u32) \<Rightarrow> u32 \<Rightarrow> u32 list \<Rightarrow> nat \<Rightarrow> sha1_regs \<Rightarrow> sha1_regs" where
  "sha1_round f k W t regs = (case regs of (A, B, C, D, E) \<Rightarrow>
     (SHA1CircularShift 5 A + f B C D + E + W ! t + k, A, SHA1CircularShift 30 B, C, D))"

definition sha1_loops :: "u32 list \<Rightarrow> sha1_regs \<Rightarrow> sha1_regs" where
  "sha1_loops W regs =
     (let regs = fold (sha1_round (\<lambda>B C D. (B AND C) OR (NOT B AND D)) 0x5A827999 W) [0..<20] regs;
          regs = fold (sha1_round (\<lambda>B C D. B XOR C XOR D) 0x6ED9EBA1 W) [20..<40] regs;
          regs = fold (sha1_round (\<lambda>B C D. (B AND C) OR (B AND D) OR (C AND D)) 0x8F1BBCDC W) [40..<60] regs
      in fold (sha1_round (\<lambda>B C D. B XOR C XOR D) 0xCA62C1D6 W) [60..<80] regs)"

definition SHA1ProcessMessageBlock :: "SHA1Context \<Rightarrow> SHA1Context" where
  "SHA1ProcessMessageBlock context =
     (let W = W_words (Message_Block context);
          H = Message_Digest context
      in case sha1_loops W (H ! 0, H ! 1, H ! 2, H ! 3, H ! 4) of (A, B, C, D, E) \<Rightarrow>
        context\<lparr>Message_Digest := [H ! 0 + A, H ! 1 + B, H ! 2 + C, H ! 3 + D, H ! 4 + E],
                Message_Block_Index := 0\<rparr>)"

text \<open>\<^verbatim>\<open>Message_Block[Message_Block_Index++] = b\<close>.\<close>

definition put_byte :: "SHA1Context \<Rightarrow> u8 \<Rightarrow> SHA1Context res" where
  "put_byte context b =
     bindE (store (Message_Block context) (Message_Block_Index context) [b]) (\<lambda>block.
     Inr (context\<lparr>Message_Block := block, Message_Block_Index := Message_Block_Index context + 1\<rparr>))"

text \<open>The length counter, in bits; it corrupts the context when it wraps.\<close>

definition count_byte :: "SHA1Context \<Rightarrow> SHA1Context" where
  "count_byte context =
     (let low = Length_Low context + 8 in
      if low \<noteq> 0 then context\<lparr>Length_Low := low\<rparr>
      else let high = Length_High context + 1 in
        context\<lparr>Length_Low := low, Length_High := high,
          Corrupted := (Corrupted context \<or> high = 0)\<rparr>)"

fun input_loop :: "SHA1Context \<Rightarrow> bytes \<Rightarrow> SHA1Context res" where
  "input_loop context [] = Inr context"
| "input_loop context (b # bs) =
     (if Corrupted context then Inr context
      else bindE (put_byte context b) (\<lambda>context.
        let context = count_byte context in
        input_loop (if Message_Block_Index context = 64 then SHA1ProcessMessageBlock context
                    else context) bs))"

definition SHA1Input :: "SHA1Context \<Rightarrow> bytes \<Rightarrow> u32 \<Rightarrow> SHA1Context res" where
  "SHA1Input context message_array len =
     (if len = 0 then Inr context
      else if Computed context \<or> Corrupted context then Inr (context\<lparr>Corrupted := True\<rparr>)
      else bindE (load message_array 0 (unat len)) (input_loop context))"

text \<open>The loops of \<^verbatim>\<open>SHA1PadMessage\<close> write zeros up to an index.\<close>

function pad_to :: "nat \<Rightarrow> SHA1Context \<Rightarrow> SHA1Context res" where
  "pad_to n context =
     (if Message_Block_Index context < n
      then (case put_byte context 0 of Inl f \<Rightarrow> Inl f | Inr context' \<Rightarrow> pad_to n context')
      else Inr context)"
  by pat_completeness auto

lemma put_byte_index: "put_byte c b = Inr c' \<Longrightarrow> Message_Block_Index c' = Message_Block_Index c + 1"
  by (auto simp: put_byte_def bindE_eq_Inr)

termination pad_to
  by (relation "measure (\<lambda>(n, c). n - Message_Block_Index c)") (auto dest: put_byte_index)

declare pad_to.simps [simp del]

definition length_octets :: "SHA1Context \<Rightarrow> bytes" where
  "length_octets context =
     [ucast (drop_bit 24 (Length_High context)), ucast (drop_bit 16 (Length_High context)),
      ucast (drop_bit 8 (Length_High context)), ucast (Length_High context),
      ucast (drop_bit 24 (Length_Low context)), ucast (drop_bit 16 (Length_Low context)),
      ucast (drop_bit 8 (Length_Low context)), ucast (Length_Low context)]"

definition SHA1PadMessage :: "SHA1Context \<Rightarrow> SHA1Context res" where
  "SHA1PadMessage context =
     bindE
       (if Message_Block_Index context > 55
        then bindE (put_byte context 0x80) (\<lambda>context.
             bindE (pad_to 64 context) (\<lambda>context.
             pad_to 56 (SHA1ProcessMessageBlock context)))
        else bindE (put_byte context 0x80) (pad_to 56)) (\<lambda>context.
     bindE (store (Message_Block context) 56 (length_octets context)) (\<lambda>block.
     Inr (SHA1ProcessMessageBlock (context\<lparr>Message_Block := block\<rparr>))))"

definition SHA1Result :: "SHA1Context \<Rightarrow> (bool \<times> SHA1Context) res" where
  "SHA1Result context =
     (if Corrupted context then Inr (False, context)
      else if \<not> Computed context
      then bindE (SHA1PadMessage context) (\<lambda>context. Inr (True, context\<lparr>Computed := True\<rparr>))
      else Inr (True, context))"

section \<open>The standard\<close>

text \<open>
  FIPS 180-1: functions and constants by round number, the message schedule as a recursive sequence,
  one loop of eighty rounds, and padding as a function of the whole message.
\<close>

definition fips_f :: "nat \<Rightarrow> u32 \<Rightarrow> u32 \<Rightarrow> u32 \<Rightarrow> u32" where
  "fips_f t B C D =
     (if t < 20 then (B AND C) OR (NOT B AND D)
      else if t < 40 then B XOR C XOR D
      else if t < 60 then (B AND C) OR (B AND D) OR (C AND D)
      else B XOR C XOR D)"

definition fips_K :: "nat \<Rightarrow> u32" where
  "fips_K t = (if t < 20 then 0x5A827999 else if t < 40 then 0x6ED9EBA1
     else if t < 60 then 0x8F1BBCDC else 0xCA62C1D6)"

fun fips_W :: "bytes \<Rightarrow> nat \<Rightarrow> u32" where
  "fips_W M t =
     (if t < 16
      then word_of_nat (unat (M ! (t * 4)) * 2 ^ 24 + unat (M ! (t * 4 + 1)) * 2 ^ 16
             + unat (M ! (t * 4 + 2)) * 2 ^ 8 + unat (M ! (t * 4 + 3)))
      else word_rotl 1 (fips_W M (t - 3) XOR fips_W M (t - 8) XOR fips_W M (t - 14) XOR fips_W M (t - 16)))"

definition fips_round :: "bytes \<Rightarrow> nat \<Rightarrow> sha1_regs \<Rightarrow> sha1_regs" where
  "fips_round M t regs = (case regs of (A, B, C, D, E) \<Rightarrow>
     (word_rotl 5 A + fips_f t B C D + E + fips_W M t + fips_K t, A, word_rotl 30 B, C, D))"

definition fips_compress :: "bytes \<Rightarrow> u32 list \<Rightarrow> u32 list" where
  "fips_compress M H =
     (case fold (fips_round M) [0..<80] (H ! 0, H ! 1, H ! 2, H ! 3, H ! 4) of (A, B, C, D, E) \<Rightarrow>
       [H ! 0 + A, H ! 1 + B, H ! 2 + C, H ! 3 + D, H ! 4 + E])"

fun chunks :: "bytes \<Rightarrow> bytes list" where
  "chunks m = (if length m < 64 then [] else take 64 m # chunks (drop 64 m))"

definition be64 :: "nat \<Rightarrow> bytes" where
  "be64 n = map (\<lambda>i. word_of_nat (n div 256 ^ (7 - i))) [0..<8]"

definition fips_pad :: "bytes \<Rightarrow> bytes" where
  "fips_pad m = m @ 0x80 # replicate ((119 - length m mod 64) mod 64) 0 @ be64 (8 * length m)"

definition fips_sha1 :: "bytes \<Rightarrow> u32 list" where
  "fips_sha1 m = fold fips_compress (chunks (fips_pad m)) SHA1_init"

declare chunks.simps [simp del] fips_W.simps [simp del]

section \<open>The compression function\<close>

lemma and_ones [simp]: "(w :: u32) AND 0xFFFFFFFF = w"
proof -
  have "(0xFFFFFFFF :: u32) = - 1"
    by simp
  then show ?thesis
    by (simp only: and.right_neutral)
qed

lemma shift_rotl:
  assumes "0 < n" "n < 32"
  shows "SHA1CircularShift n w = word_rotl n w"
proof (rule bit_word_eqI)
  fix k :: nat
  assume "k < LENGTH(32)"
  then have k: "k < 32"
    by simp
  have rot: "bit (word_rotl n w) k = bit w ((k + (32 - n)) mod 32)"
    using k assms by (simp add: bit_word_rotl_iff)
  show "bit (SHA1CircularShift n w) k \<longleftrightarrow> bit (word_rotl n w) k"
  proof (cases "k < n")
    case True
    then have "(k + (32 - n)) mod 32 = k + (32 - n)"
      using assms(2) by simp
    then show ?thesis
      unfolding rot using True k by (simp add: SHA1CircularShift_def bit_simps add.commute)
  next
    case False
    then have "k + (32 - n) = (k - n) + 32"
      using assms(2) by linarith
    then have "(k + (32 - n)) mod 32 = ((k - n) + 32) mod 32"
      by (rule arg_cong)
    also have "\<dots> = k - n"
      using k by simp
    finally have "(k + (32 - n)) mod 32 = k - n" .
    moreover have "\<not> bit w (32 - n + k)"
      using False assms(2) by (auto dest: bit_imp_le_length)
    ultimately show ?thesis
      unfolding rot using False k by (simp add: SHA1CircularShift_def bit_simps)
  qed
qed

lemma unat_be32: "unat (push_bit 24 (ucast (a :: u8)) OR push_bit 16 (ucast (b :: u8))
    OR push_bit 8 (ucast (c :: u8)) OR ucast (d :: u8) :: u32)
  = unat a * 2 ^ 24 + unat b * 2 ^ 16 + unat c * 2 ^ 8 + unat d"
proof -
  let ?a = "push_bit 24 (ucast a) :: u32" and ?b = "push_bit 16 (ucast b) :: u32"
  let ?c = "push_bit 8 (ucast c) :: u32" and ?d = "ucast d :: u32"
  have disj: "?a AND (?b OR ?c OR ?d) = 0" "?b AND (?c OR ?d) = 0" "?c AND ?d = 0"
    by (rule bit_word_eqI; auto simp: bit_simps dest: bit_imp_le_length)+
  have sum: "?a OR ?b OR ?c OR ?d = ?a + (?b + (?c + ?d))"
    by (simp only: disjunctive_add_eq_or disj)
  have push: "push_bit n (ucast x :: u32) = word_of_nat (unat x * 2 ^ n)" for x :: u8 and n
    by (simp add: push_bit_eq_mult mult.commute)
  have "?a OR ?b OR ?c OR ?d
      = word_of_nat (unat a * 2 ^ 24 + unat b * 2 ^ 16 + unat c * 2 ^ 8 + unat d)"
    unfolding sum unfolding push by simp
  moreover have "unat a * 2 ^ 24 + unat b * 2 ^ 16 + unat c * 2 ^ 8 + unat d < 2 ^ 32"
    using unat_u8_less [of a] unat_u8_less [of b] unat_u8_less [of c] unat_u8_less [of d] by simp
  ultimately show ?thesis
    by (simp only: unat_of_nat) (simp add: take_bit_nat_eq_self)
qed

lemma W_block_fips:
  assumes "t < 16"
  shows "W_block M t = fips_W M t"
proof -
  have "W_block M t = word_of_nat (unat (W_block M t))"
    by simp
  also have "\<dots> = fips_W M t"
    unfolding W_block_def unat_be32 by (subst fips_W.simps) (use assms in simp)
  finally show ?thesis .
qed

text \<open>The expansion loop produces the schedule in order.\<close>

lemma W_words_prefix:
  "n \<le> 64 \<Longrightarrow> fold W_next [16..<16 + n] (map (W_block M) [0..<16]) = map (fips_W M) [0..<16 + n]"
proof (induction n)
  case 0
  show ?case
    by (simp add: W_block_fips)
next
  case (Suc n)
  let ?t = "16 + n"
  have "[0..<17 + n] = [0..<16 + n] @ [16 + n]"
    using upt_Suc_append [of 0 "16 + n"] by simp
  then have "W_next ?t (map (fips_W M) [0..<?t]) = map (fips_W M) [0..<Suc ?t]"
    by (simp add: W_next_def shift_rotl fips_W.simps [of M ?t])
  moreover have "[16..<17 + n] = [16..<16 + n] @ [16 + n]"
    using upt_Suc_append [of 16 "16 + n"] by simp
  ultimately show ?case
    using Suc by simp
qed

lemma W_words_eq: "W_words M = map (fips_W M) [0..<80]"
  using W_words_prefix [of 64 M] by (simp add: W_words_def)

lemma sha1_round_fips:
  "t < 80 \<Longrightarrow> fips_f t = f \<Longrightarrow> fips_K t = k \<Longrightarrow> sha1_round f k (W_words M) t = fips_round M t"
  by (rule ext) (auto simp: sha1_round_def fips_round_def W_words_eq shift_rotl nth_append)

lemma fold_rounds_cong:
  "(\<And>t. t \<in> set ts \<Longrightarrow> r t = r' t) \<Longrightarrow> fold r ts s = fold r' ts s"
  by (rule fold_cong) simp_all

lemma sha1_loops_fips: "sha1_loops (W_words M) regs = fold (fips_round M) [0..<80] regs"
proof -
  have split: "[0..<80] = [0..<20] @ [20..<40] @ [40..<60] @ [60..<80]"
    using upt_add_eq_append [of 0 20 60] upt_add_eq_append [of 20 40 40] upt_add_eq_append [of 40 60 20]
    by simp
  have "fold (sha1_round (\<lambda>B C D. (B AND C) OR (NOT B AND D)) 0x5A827999 (W_words M)) [0..<20] s
      = fold (fips_round M) [0..<20] s"
    "fold (sha1_round (\<lambda>B C D. B XOR C XOR D) 0x6ED9EBA1 (W_words M)) [20..<40] s
      = fold (fips_round M) [20..<40] s"
    "fold (sha1_round (\<lambda>B C D. (B AND C) OR (B AND D) OR (C AND D)) 0x8F1BBCDC (W_words M)) [40..<60] s
      = fold (fips_round M) [40..<60] s"
    "fold (sha1_round (\<lambda>B C D. B XOR C XOR D) 0xCA62C1D6 (W_words M)) [60..<80] s
      = fold (fips_round M) [60..<80] s" for s
    by (intro fold_rounds_cong sha1_round_fips; auto simp: fips_f_def fips_K_def fun_eq_iff)+
  then show ?thesis
    by (simp only: split fold_append comp_def sha1_loops_def Let_def)
qed

lemma process_block_fips:
  "SHA1ProcessMessageBlock context = context\<lparr>Message_Digest :=
     fips_compress (Message_Block context) (Message_Digest context), Message_Block_Index := 0\<rparr>"
  by (simp add: SHA1ProcessMessageBlock_def fips_compress_def Let_def sha1_loops_fips
      split: prod.split)

section \<open>Streaming\<close>

text \<open>
  \<open>absorbed c m\<close>: the context has taken in the message \<open>m\<close>: the full blocks are compressed, the rest
  lies at the start of the block buffer, and the two counters hold the length in bits.
\<close>

definition absorbed :: "SHA1Context \<Rightarrow> bytes \<Rightarrow> bool" where
  "absorbed c m \<longleftrightarrow> (\<exists>full rest. m = full @ rest \<and> length full mod 64 = 0 \<and> length rest < 64
     \<and> length (Message_Block c) = 64 \<and> Message_Block_Index c = length rest
     \<and> take (length rest) (Message_Block c) = rest
     \<and> Message_Digest c = fold fips_compress (chunks full) SHA1_init
     \<and> unat (Length_High c) * 2 ^ 32 + unat (Length_Low c) = 8 * length m
     \<and> \<not> Computed c \<and> \<not> Corrupted c)"

lemma chunks_append: "length m mod 64 = 0 \<Longrightarrow> chunks (m @ x) = chunks m @ chunks x"
proof (induction m rule: chunks.induct)
  case (1 m)
  show ?case
  proof (cases "length m < 64")
    case True
    with "1.prems" have "m = []"
      by simp
    then show ?thesis
      by (simp add: chunks.simps [of "[]"])
  next
    case False
    then have "length (drop 64 m) mod 64 = 0"
      using "1.prems" by (simp add: le_mod_geq)
    with "1.IH" False show ?thesis
      by (subst (1 2) chunks.simps) simp
  qed
qed

lemma chunks_block: "length b = 64 \<Longrightarrow> chunks b = [b]"
  by (simp add: chunks.simps)

lemma chunks_Nil [simp]: "chunks [] = []"
  by (simp add: chunks.simps)

lemma reset_absorbed: "length (Message_Block c) = 64 \<Longrightarrow> absorbed (SHA1Reset c) []"
  by (simp add: absorbed_def SHA1Reset_def)

text \<open>Counting one byte more, while the length stays below \<open>2 ^ 64\<close> bits.\<close>

lemma count_byte_fields [simp]: "Message_Block (count_byte c) = Message_Block c"
  "Message_Block_Index (count_byte c) = Message_Block_Index c"
  "Message_Digest (count_byte c) = Message_Digest c" "Computed (count_byte c) = Computed c"
  by (simp_all add: count_byte_def Let_def)

lemma count_byte_counts:
  assumes "unat (Length_High c) * 2 ^ 32 + unat (Length_Low c) = 8 * n" "8 * (n + 1) < 2 ^ 64"
  shows "unat (Length_High (count_byte c)) * 2 ^ 32 + unat (Length_Low (count_byte c)) = 8 * (n + 1)"
    and "Corrupted (count_byte c) = Corrupted c"
proof -
  let ?h = "unat (Length_High c)" and ?l = "unat (Length_Low c)"
  have l: "?l < 4294967296"
    by (rule unat_u32_less)
  have low: "unat (Length_Low c + 8) = (?l + 8) mod 4294967296"
    by (simp add: unat_word_ariths)
  have "8 dvd ?h * 2 ^ 32 + ?l" "8 dvd ?h * (2 :: nat) ^ 32"
    using assms(1) by simp_all
  then have "8 dvd ?l"
    using dvd_add_right_iff by blast
  then have cases: "?l + 8 < 4294967296 \<or> ?l = 4294967288"
    using l by presburger
  have both: "unat (Length_High (count_byte c)) * 2 ^ 32 + unat (Length_Low (count_byte c)) = 8 * (n + 1)
      \<and> Corrupted (count_byte c) = Corrupted c"
  proof (cases "?l = 4294967288")
    case False
    then have "unat (Length_Low c + 8) = ?l + 8"
      using low cases by simp
    moreover from this have "Length_Low c + 8 \<noteq> 0"
      by (metis add_is_0 unsigned_0 zero_neq_numeral)
    ultimately show ?thesis
      using assms(1) by (simp add: count_byte_def Let_def)
  next
    case True
    then have "unat (Length_Low c + 8) = 0"
      using low by simp
    then have "Length_Low c + 8 = 0"
      by (simp only: unsigned_eq_0_iff)
    moreover have h: "?h + 1 < 4294967296"
      using assms True by simp
    then have "unat (Length_High c + 1) = ?h + 1"
      by (simp add: unat_word_ariths)
    moreover from this have "Length_High c + 1 \<noteq> 0"
      by (metis add_is_0 unsigned_0 one_neq_zero)
    ultimately show ?thesis
      using assms(1) True by (simp add: count_byte_def Let_def)
  qed
  then show "unat (Length_High (count_byte c)) * 2 ^ 32 + unat (Length_Low (count_byte c)) = 8 * (n + 1)"
    "Corrupted (count_byte c) = Corrupted c"
    by blast+
qed

lemma take_Suc_patch: "i < length b \<Longrightarrow> take (Suc i) (patch i [x] b) = take i b @ [x]"
  by (simp add: patch_def take_Suc_conv_app_nth nth_append)

lemma absorbedE:
  assumes "absorbed c m"
  obtains full rest where "m = full @ rest" "length full mod 64 = 0" "length rest < 64"
    "length (Message_Block c) = 64" "Message_Block_Index c = length rest"
    "take (length rest) (Message_Block c) = rest"
    "Message_Digest c = fold fips_compress (chunks full) SHA1_init"
    "unat (Length_High c) * 2 ^ 32 + unat (Length_Low c) = 8 * length m"
    "\<not> Computed c" "\<not> Corrupted c"
  using assms unfolding absorbed_def by (elim exE conjE) (rule that)

text \<open>One turn of the input loop.\<close>

definition input_byte :: "SHA1Context \<Rightarrow> u8 \<Rightarrow> SHA1Context" where
  "input_byte c b =
     (let c' = count_byte (c\<lparr>Message_Block := patch (Message_Block_Index c) [b] (Message_Block c),
                             Message_Block_Index := Message_Block_Index c + 1\<rparr>)
      in if Message_Block_Index c' = 64 then SHA1ProcessMessageBlock c' else c')"

lemma input_byte_absorbed:
  assumes "absorbed c m" "8 * (length m + 1) < 2 ^ 64"
  shows "absorbed (input_byte c b) (m @ [b])"
proof -
  from assms(1) obtain full rest where m: "m = full @ rest" "length full mod 64 = 0" "length rest < 64"
    and c: "length (Message_Block c) = 64" "Message_Block_Index c = length rest"
      "take (length rest) (Message_Block c) = rest"
      "Message_Digest c = fold fips_compress (chunks full) SHA1_init"
      "unat (Length_High c) * 2 ^ 32 + unat (Length_Low c) = 8 * length m"
      "\<not> Computed c" "\<not> Corrupted c"
    by (rule absorbedE)
  let ?block = "patch (length rest) [b] (Message_Block c)"
  let ?c = "count_byte (c\<lparr>Message_Block := ?block, Message_Block_Index := length rest + 1\<rparr>)"
  have block: "length ?block = 64" "take (Suc (length rest)) ?block = rest @ [b]"
    using c m(3) by (simp_all add: length_simps take_Suc_patch)
  have count: "unat (Length_High ?c) * 2 ^ 32 + unat (Length_Low ?c) = 8 * length (m @ [b])"
    "\<not> Corrupted ?c"
    using count_byte_counts [of "c\<lparr>Message_Block := ?block, Message_Block_Index := length rest + 1\<rparr>"
        "length m"] c(5,7) assms(2) by simp_all
  show ?thesis
  proof (cases "length rest = 63")
    case False
    then have "input_byte c b = ?c" "length (rest @ [b]) < 64"
      using c(2) m(3) by (simp_all add: input_byte_def Let_def)
    then show ?thesis
      unfolding absorbed_def
      by (intro exI [of _ full] exI [of _ "rest @ [b]"]) (use m(1,2) c(4,6) block count in simp)
  next
    case True
    then have "?block = rest @ [b]"
      using block by simp
    moreover have "chunks (full @ rest @ [b]) = chunks full @ [rest @ [b]]"
      using m(2) True by (simp add: chunks_append chunks_block)
    moreover have "length (full @ rest @ [b]) = length full + 64"
      using True by simp
    then have "length (full @ rest @ [b]) mod 64 = 0"
      using m(2) by simp
    moreover have "input_byte c b = ?c\<lparr>Message_Digest := fips_compress ?block (Message_Digest c),
        Message_Block_Index := 0\<rparr>"
      using True c(2) by (simp add: input_byte_def Let_def process_block_fips)
    ultimately show ?thesis
      unfolding absorbed_def
      by (intro exI [of _ "full @ rest @ [b]"] exI [of _ "[]"])
         (use m(1) c(4,6) block(1) count in simp)
  qed
qed

lemma input_loop_absorbed:
  assumes "absorbed c m" "8 * length (m @ bs) < 2 ^ 64"
  shows "\<exists>c'. input_loop c bs = Inr c' \<and> absorbed c' (m @ bs)"
  using assms
proof (induction bs arbitrary: c m)
  case Nil
  then show ?case
    by simp
next
  case (Cons b bs)
  have c: "\<not> Corrupted c" "length (Message_Block c) = 64" "Message_Block_Index c < 64"
    using Cons.prems(1) by (auto simp: absorbed_def)
  have "absorbed (input_byte c b) (m @ [b])"
    using Cons.prems by (intro input_byte_absorbed) simp_all
  from Cons.IH [OF this] Cons.prems(2) obtain c' where
    "input_loop (input_byte c b) bs = Inr c'" "absorbed c' ((m @ [b]) @ bs)"
    by auto
  moreover have "input_loop c (b # bs) = input_loop (input_byte c b) bs"
    using c by (simp add: put_byte_def input_byte_def Let_def)
  ultimately show ?case
    by simp
qed

lemma input_absorbed:
  assumes "absorbed c m" "8 * (length m + unat len) < 2 ^ 64" "unat len \<le> length bs"
  shows "\<exists>c'. SHA1Input c bs len = Inr c' \<and> absorbed c' (m @ take (unat len) bs)"
proof (cases "len = 0")
  case True
  with assms(1) show ?thesis
    by (simp add: SHA1Input_def)
next
  case False
  have "\<not> Computed c" "\<not> Corrupted c"
    using assms(1) by (auto simp: absorbed_def)
  with False assms show ?thesis
    using input_loop_absorbed [OF assms(1), of "take (unat len) bs"]
    by (simp add: SHA1Input_def slice_def min_def)
qed

section \<open>Padding\<close>

lemma pad_to_eq:
  assumes "length (Message_Block c) = 64" "Message_Block_Index c \<le> n" "n \<le> 64"
  shows "pad_to n c = Inr (c\<lparr>Message_Block := patch (Message_Block_Index c)
      (replicate (n - Message_Block_Index c) 0) (Message_Block c), Message_Block_Index := n\<rparr>)"
  using assms
proof (induction "n - Message_Block_Index c" arbitrary: c)
  case 0
  then show ?case
    by (simp add: pad_to.simps)
next
  case (Suc k)
  let ?i = "Message_Block_Index c"
  let ?c = "c\<lparr>Message_Block := patch ?i [0] (Message_Block c), Message_Block_Index := ?i + 1\<rparr>"
  have i: "?i < n" "k = n - Message_Block_Index ?c" "n - ?i = Suc k"
    using Suc.hyps(2) by simp_all
  have "pad_to n c = pad_to n ?c"
    using i Suc.prems by (subst pad_to.simps) (simp add: put_byte_def)
  also have "\<dots> = Inr (?c\<lparr>Message_Block := patch (?i + 1) (replicate k 0) (Message_Block ?c),
      Message_Block_Index := n\<rparr>)"
    using Suc.hyps(1) [OF i(2)] Suc.prems i by (simp add: length_simps)
  also have "patch (?i + 1) (replicate k 0) (Message_Block ?c) = patch ?i (replicate (Suc k) 0) (Message_Block c)"
    using Suc.prems i by (simp add: patch_def min_def)
  finally show ?case
    unfolding i(3) by simp
qed

text \<open>The two counters, written big endian, are the length in 64 bits.\<close>

lemma ucast_of_nat_eq: "unat (w :: u32) mod 256 = n mod 256 \<Longrightarrow> (ucast w :: u8) = word_of_nat n"
proof -
  assume "unat w mod 256 = n mod 256"
  then have "(word_of_nat (unat w) :: u8) = word_of_nat n"
    by (simp only: word_of_nat_eq_iff) (simp add: take_bit_eq_mod)
  then show ?thesis
    by simp
qed

lemma unat_drop: "unat (drop_bit k (w :: u32)) = unat w div 2 ^ k"
  by (simp only: unat_drop_bit_eq) (simp add: drop_bit_eq_div)

lemma length_octets_be64:
  assumes "unat (Length_High c) * 2 ^ 32 + unat (Length_Low c) = n"
  shows "length_octets c = be64 n"
proof -
  let ?h = "unat (Length_High c)" and ?l = "unat (Length_Low c)"
  have l: "?l < 2 ^ 32"
    using unat_u32_less [of "Length_Low c"] by simp
  have n: "n = ?h * 2 ^ 32 + ?l"
    using assms by simp
  have "?h * 2 ^ 32 + ?l = ?l + 2 ^ 32 * ?h"
    by simp
  then have high: "n div 2 ^ 32 = ?h"
    unfolding n using l by (simp only: div_mult_self2) simp
  have hi: "n div 2 ^ (32 + k) = ?h div 2 ^ k" for k
    by (simp only: power_add div_mult2_eq high)
  have low: "n div 2 ^ k mod 256 = ?l div 2 ^ k mod 256" if "k \<le> 24" for k
  proof -
    have "(2 :: nat) ^ 32 = 2 ^ k * 2 ^ (32 - k)" "(2 :: nat) ^ (32 - k) = 256 * 2 ^ (24 - k)"
      using that power_add [of "2 :: nat" k "32 - k"] power_add [of "2 :: nat" 8 "24 - k"] by simp_all
    then have "n = 2 ^ k * (256 * (2 ^ (24 - k) * ?h)) + ?l"
      unfolding n by (simp add: mult.assoc mult.commute mult.left_commute)
    then have "n div 2 ^ k = 256 * (2 ^ (24 - k) * ?h) + ?l div 2 ^ k"
      by simp
    then show ?thesis
      by simp
  qed
  have be: "be64 n = [word_of_nat (n div 2 ^ (32 + 24)), word_of_nat (n div 2 ^ (32 + 16)),
      word_of_nat (n div 2 ^ (32 + 8)), word_of_nat (n div 2 ^ (32 + 0)), word_of_nat (n div 2 ^ 24),
      word_of_nat (n div 2 ^ 16), word_of_nat (n div 2 ^ 8), word_of_nat (n div 2 ^ 0)]"
    by (simp add: be64_def upt_rec [of _ 8])
  show ?thesis
    unfolding length_octets_def be
    by (intro arg_cong2 [where f = Cons] ucast_of_nat_eq refl; simp only: unat_drop hi low)
       (simp_all add: low [of 0, simplified])
qed

lemma length_octets_simps [simp]: "length_octets (c\<lparr>Message_Block := b\<rparr>) = length_octets c"
  "length_octets (c\<lparr>Message_Block_Index := i\<rparr>) = length_octets c"
  "length_octets (c\<lparr>Message_Digest := d\<rparr>) = length_octets c"
  by (simp_all add: length_octets_def)

text \<open>The padding of a rest \<open>r\<close> of a message whose length in bits is in the context.\<close>

lemma pad_two_blocks:
  assumes "length (Message_Block c) = 64" "Message_Block_Index c = length r" "take (length r) (Message_Block c) = r"
    and "length r < 64" "length r > 55" "length_octets c = l" "length l = 8"
  shows "\<exists>c1. SHA1PadMessage c = Inr c1 \<and> Message_Digest c1
    = fips_compress (replicate 56 0 @ l) (fips_compress (r @ 0x80 # replicate (63 - length r) 0) (Message_Digest c))"
proof -
  let ?b = "patch (length r) [0x80] (Message_Block c)"
  let ?B1 = "r @ 0x80 # replicate (63 - length r) 0" and ?B2 = "replicate 56 0 @ l"
  have put: "put_byte c 0x80 = Inr (c\<lparr>Message_Block := ?b, Message_Block_Index := length r + 1\<rparr>)"
    using assms(1,2,4) by (simp add: put_byte_def)
  have fill: "patch (length r + 1) (replicate (63 - length r) 0) ?b = ?B1"
    using assms(1,3,4) by (simp add: patch_append patch_to_end)
  have B1: "length ?B1 = 64"
    using assms(4) by simp
  let ?c1 = "c\<lparr>Message_Block := ?B1,
      Message_Digest := fips_compress ?B1 (Message_Digest c), Message_Block_Index := 0\<rparr>"
  have "pad_to 64 (c\<lparr>Message_Block := ?b, Message_Block_Index := length r + 1\<rparr>)
      = Inr (c\<lparr>Message_Block := ?B1, Message_Block_Index := 64\<rparr>)"
    using assms(1,4) fill by (subst pad_to_eq) (simp_all add: length_simps)
  moreover have "pad_to 56 ?c1 = Inr (?c1\<lparr>Message_Block := patch 0 (replicate 56 0) ?B1,
      Message_Block_Index := 56\<rparr>)"
    using B1 by (subst pad_to_eq) simp_all
  moreover have "patch 56 l (patch 0 (replicate 56 0) ?B1) = ?B2"
    using B1 assms(7) by (simp add: patch_append patch_to_end)
  moreover have "length_octets (?c1\<lparr>Message_Block := patch 0 (replicate 56 0) ?B1, Message_Block_Index := 56\<rparr>) = l"
    using assms(6) by (simp add: length_octets_def)
  ultimately have "SHA1PadMessage c = Inr (SHA1ProcessMessageBlock (?c1\<lparr>Message_Block := ?B2,
      Message_Block_Index := 56\<rparr>))"
    using put assms(2,5,7) B1 by (simp add: SHA1PadMessage_def process_block_fips length_simps)
  then show ?thesis
    by (simp add: process_block_fips)
qed

lemma pad_one_block:
  assumes "length (Message_Block c) = 64" "Message_Block_Index c = length r" "take (length r) (Message_Block c) = r"
    and "\<not> length r > 55" "length_octets c = l" "length l = 8"
  shows "\<exists>c1. SHA1PadMessage c = Inr c1
    \<and> Message_Digest c1 = fips_compress (r @ 0x80 # replicate (55 - length r) 0 @ l) (Message_Digest c)"
proof -
  let ?b = "patch (length r) [0x80] (Message_Block c)"
  let ?B = "r @ 0x80 # replicate (55 - length r) 0 @ l"
  let ?p = "patch (length r) (0x80 # replicate (55 - length r) 0) (Message_Block c)"
  have put: "put_byte c 0x80 = Inr (c\<lparr>Message_Block := ?b, Message_Block_Index := length r + 1\<rparr>)"
    using assms(1,2,4) by (simp add: put_byte_def)
  have "pad_to 56 (c\<lparr>Message_Block := ?b, Message_Block_Index := length r + 1\<rparr>)
      = Inr (c\<lparr>Message_Block := ?p, Message_Block_Index := 56\<rparr>)"
    using assms(1,4) by (subst pad_to_eq) (simp_all add: length_simps patch_append)
  moreover have "patch 56 l ?p = ?B"
    using assms(1,3,4,6) by (simp add: patch_append patch_to_end)
  moreover have "length_octets (c\<lparr>Message_Block := ?p, Message_Block_Index := 56\<rparr>) = l"
    using assms(5) by (simp add: length_octets_def)
  ultimately have "SHA1PadMessage c = Inr (SHA1ProcessMessageBlock (c\<lparr>Message_Block_Index := 56,
      Message_Block := ?B\<rparr>))"
    using assms(1,2,4,6) put by (simp add: SHA1PadMessage_def length_simps)
  then show ?thesis
    using assms(4,6) by (simp add: process_block_fips)
qed

text \<open>The blocks of the padded message.\<close>

lemma fips_pad_blocks:
  assumes "length full mod 64 = 0" "length r < 64"
  shows "fips_pad (full @ r) = full @ (if length r > 55
      then (r @ 0x80 # replicate (63 - length r) 0) @ (replicate 56 0 @ be64 (8 * length (full @ r)))
      else r @ 0x80 # replicate (55 - length r) 0 @ be64 (8 * length (full @ r)))"
proof -
  obtain q where "length full = 64 * q"
    using assms(1) by (metis mod_0_imp_dvd dvdE)
  then have mod: "length (full @ r) mod 64 = length r"
    using assms(2) by simp
  show ?thesis
  proof (cases "length r > 55")
    case True
    then have "(119 - length r) mod 64 = (63 - length r) + 56"
      using assms(2) by simp
    with True show ?thesis
      unfolding fips_pad_def mod by (simp only: replicate_add) simp
  next
    case False
    then have "(119 - length r) mod 64 = 55 - length r"
      using le_mod_geq [of 64 "119 - length r"] by simp
    with False show ?thesis
      unfolding fips_pad_def mod by simp
  qed
qed

lemma result_absorbed:
  assumes "absorbed c m" "8 * length m < 2 ^ 64"
  shows "\<exists>c'. SHA1Result c = Inr (True, c') \<and> Message_Digest c' = fips_sha1 m \<and> Computed c'"
proof -
  from assms(1) obtain full r where m: "m = full @ r" "length full mod 64 = 0" "length r < 64"
    and c: "length (Message_Block c) = 64" "Message_Block_Index c = length r" "take (length r) (Message_Block c) = r"
      "Message_Digest c = fold fips_compress (chunks full) SHA1_init"
      "unat (Length_High c) * 2 ^ 32 + unat (Length_Low c) = 8 * length m"
      "\<not> Computed c" "\<not> Corrupted c"
    by (rule absorbedE)
  let ?l = "be64 (8 * length m)"
  have l: "length_octets c = ?l" "length ?l = 8"
    using length_octets_be64 [OF c(5)] by (simp_all add: be64_def)
  have chunks: "chunks (full @ x) = chunks full @ chunks x" for x
    by (rule chunks_append [OF m(2)])
  note pad = fips_pad_blocks [OF m(2,3), folded m(1)]
  obtain c1 where "SHA1PadMessage c = Inr c1" "Message_Digest c1 = fips_sha1 m"
  proof (cases "length r > 55")
    case True
    let ?B1 = "r @ 0x80 # replicate (63 - length r) 0" and ?B2 = "replicate 56 0 @ ?l"
    have "length ?B1 = 64" "length ?B2 = 64"
      using m(3) l(2) by simp_all
    then have "fips_sha1 m = fips_compress ?B2 (fips_compress ?B1 (Message_Digest c))"
      using True pad chunks_append [of ?B1 ?B2] by (simp add: fips_sha1_def chunks chunks_block c(4))
    then show thesis
      using pad_two_blocks [OF c(1-3) m(3) True l] that by auto
  next
    case False
    let ?B = "r @ 0x80 # replicate (55 - length r) 0 @ ?l"
    have "length ?B = 64"
      using False l(2) by simp
    then have "fips_sha1 m = fips_compress ?B (Message_Digest c)"
      using False pad by (simp add: fips_sha1_def chunks chunks_block c(4))
    then show thesis
      using pad_one_block [OF c(1-3) False l] that by auto
  qed
  then show ?thesis
    using c(6,7) by (simp add: SHA1Result_def)
qed

end
