(* ===== verification/Vns_Comm.thy ===== *)
theory Vns_Comm
  imports Router Sha1 C_Text
begin

text \<open>
  The receiving side of \<^verbatim>\<open>sr_vns_comm.c\<close>: reading one message from the server's stream, checking
  that it is the expected one, and dispatching on its type; and the start of a session.

  The environment is a record of its own.  The socket is the stream of bytes the server sends and a
  schedule of what successive \<^verbatim>\<open>recv\<close>/\<^verbatim>\<open>read\<close> calls do: deliver at most so many bytes, be interrupted
  (\<^verbatim>\<open>EINTR\<close>), or fail; an exhausted schedule is a call that blocks.  \<open>auth_key_file\<close> is the contents of
  the key file, \<open>fopen_w\<close> says which files can be opened for writing, \<open>files\<close> are those written;
  \<open>if_junk\<close>, \<open>stack_junk\<close> and \<open>sha1_junk\<close> are what uninitialised variables hold.  \<open>dns\<close> is \<^verbatim>\<open>gethostbyname\<close>,
  \<open>new_socket\<close> and \<open>connect_result\<close> are what \<^verbatim>\<open>socket\<close> and \<^verbatim>\<open>connect\<close> return, and \<open>closed_fds\<close> are the
  descriptors closed.
\<close>

datatype rx_event = Ready nat | Interrupted | RxError

record vns_env =
  rx_stream :: bytes
  rx_events :: "rx_event list"
  auth_key_file :: "bytes option"
  fopen_w :: "bytes \<Rightarrow> bool"
  files :: "(bytes \<times> bytes) list"
  if_junk :: sr_if
  stack_junk :: bytes
  sha1_junk :: SHA1Context
  dns :: "bytes \<Rightarrow> bytes option"
  new_socket :: int
  connect_result :: "int \<Rightarrow> u16 \<Rightarrow> bytes \<Rightarrow> int"
  closed_fds :: "int list"

section \<open>Reading from the socket\<close>

datatype rx_result = Rx_done bytes bytes "rx_event list" | Rx_failed bytes "rx_event list" | Rx_blocked

text \<open>
  The shape of both read loops: \<open>n\<close> bytes wanted, \<open>acc\<close> read so far.  An end of file is a read of no
  bytes, after which the loop tries again.
\<close>

fun rx_loop :: "nat \<Rightarrow> bytes \<Rightarrow> bytes \<Rightarrow> rx_event list \<Rightarrow> rx_result" where
  "rx_loop n acc stream [] =
     (if length acc < n then Rx_blocked else Rx_done acc stream [])"
| "rx_loop n acc stream (ev # evs) =
     (if \<not> length acc < n then Rx_done acc stream (ev # evs)
      else case ev of
        Interrupted \<Rightarrow> rx_loop n acc stream evs
      | RxError \<Rightarrow> Rx_failed stream evs
      | Ready k \<Rightarrow>
          (let got = take (min k (n - length acc)) stream in
           rx_loop n (acc @ got) (drop (length got) stream) evs))"

section \<open>The handlers of the message types\<close>

definition sr_arp_req_not_for_us :: "sr_instance \<Rightarrow> bytes \<Rightarrow> nat \<Rightarrow> bytes \<Rightarrow> bool res" where
  "sr_arp_req_not_for_us sr packet len interface =
     (if len < sizeof_eth + sizeof_arp then Inr False
      else case sr_get_interface (if_list sr) interface of
        None \<Rightarrow> Inl AssertFailed
      | Some iface \<Rightarrow>
          bindE (read_eth packet) (\<lambda>e_hdr.
          if ether_type e_hdr \<noteq> htons ethertype_arp then Inr False
          else bindE (read_arp packet) (\<lambda>a_hdr.
            Inr (ar_op a_hdr = htons arp_op_request \<and> ar_tip a_hdr \<noteq> if_ip iface))))"

text \<open>One hardware entry, by the cases of the \<^verbatim>\<open>switch\<close>; the last only prints the key.\<close>

definition hw_step :: "sr_if \<Rightarrow> sr_if list \<Rightarrow> c_hw_entry \<Rightarrow> sr_if list res" where
  "hw_step junk is e =
     (if ntohl (mKey e) = HWFIXEDIP then Inr is
      else if ntohl (mKey e) = HWINTERFACE then Inr (sr_add_interface junk is (hw_value e))
      else if ntohl (mKey e) = HWSPEED then Inr is
      else if ntohl (mKey e) = HWSUBNET then Inr is
      else if ntohl (mKey e) = HWMASK then Inr is
      else if ntohl (mKey e) = HWETHIP
      then (case hw_value e of
              a # b # c # d # _ \<Rightarrow> sr_set_ether_ip is (le32 a b c d)
            | _ \<Rightarrow> Inl OutOfBounds)
      else if ntohl (mKey e) = HWETHER then sr_set_ether_addr is (hw_value e)
      else Inr is)"

fun hw_loop :: "sr_if \<Rightarrow> bytes \<Rightarrow> nat list \<Rightarrow> sr_if list \<Rightarrow> sr_if list res" where
  "hw_loop junk buf [] is = Inr is"
| "hw_loop junk buf (i # ids) is =
     bindE (read_struct dec_hw_entry sizeof_hw_entry buf (hw_info_at + i * sizeof_hw_entry)) (\<lambda>e.
     bindE (hw_step junk is e) (hw_loop junk buf ids))"

text \<open>\<^verbatim>\<open>num_entries\<close> is computed in \<^verbatim>\<open>size_t\<close> and converted to \<^verbatim>\<open>int\<close>.\<close>

definition hw_num_entries :: "u32 \<Rightarrow> int" where
  "hw_num_entries len = sint (word_of_int ((int (unat len) - 8) mod 2 ^ 64 div 36) :: u32)"

definition sr_handle_hwinfo :: "sr_if \<Rightarrow> sr_instance \<Rightarrow> bytes \<Rightarrow> (int \<times> sr_instance) res" where
  "sr_handle_hwinfo junk sr hwinfo =
     bindE (load hwinfo 0 4) (\<lambda>l.
     let num_entries = hw_num_entries (ntohl (le32 (l ! 0) (l ! 1) (l ! 2) (l ! 3))) in
     bindE (hw_loop junk hwinfo [0..<nat num_entries] (if_list sr)) (\<lambda>is.
     bindE (sr_print_if_list is) (\<lambda>_.
     Inr (num_entries, sr\<lparr>if_list := is\<rparr>))))"

text \<open>\<^verbatim>\<open>"rtable."\<close> and the host id are joined in an array of \<^verbatim>\<open>7+IDSIZE+1\<close> bytes.\<close>

definition rtable_prefix :: bytes where
  "rtable_prefix = [114, 116, 97, 98, 108, 101, 46]"

definition sr_handle_rtable :: "vns_env \<Rightarrow> bytes \<Rightarrow> (bool \<times> vns_env) res" where
  "sr_handle_rtable env rtable =
     bindE (load rtable 0 8) (\<lambda>h.
     bindE (string_at (drop sizeof_base rtable)) (\<lambda>mVirtualHostID.
     let fn = rtable_prefix @ mVirtualHostID;
         len = ntohl (le32 (h ! 0) (h ! 1) (h ! 2) (h ! 3)) in
     if 7 + IDSIZE + 1 < length fn + 1 then Inl OutOfBounds
     else if fopen_w env fn
     then bindE (load rtable rtable_at (unat (len - 8 - word_of_nat IDSIZE))) (\<lambda>text.
          Inr (True, env\<lparr>files := files env @ [(fn, text)]\<rparr>))
     else Inr (False, env)))"

definition AUTH_KEY_LEN :: nat where "AUTH_KEY_LEN = 64"
definition SHA1_LEN :: nat where "SHA1_LEN = 20"

definition auth_key_buffer :: "vns_env \<Rightarrow> bytes \<Rightarrow> bytes" where
  "auth_key_buffer env text =
     (let l = fgets_line AUTH_KEY_LEN text @ [0] in l @ drop (length l) (stack_junk env))"

definition digest_octets :: "u32 list \<Rightarrow> bytes" where
  "digest_octets ws = concat (map (\<lambda>w. bytes32 (htonl w)) ws)"

definition auth_reply_message :: "bytes \<Rightarrow> u32 list \<Rightarrow> bytes" where
  "auth_reply_message username ws =
     enc_auth_reply (word_of_nat (sizeof_auth_reply + length username + SHA1_LEN))
       (word_of_nat (length username)) @ username @ digest_octets ws"

definition sr_handle_auth_request :: "vns_env \<Rightarrow> sr_instance \<Rightarrow> bytes \<Rightarrow> (bool \<times> sr_instance) res" where
  "sr_handle_auth_request env sr req =
     (case auth_key_file env of
        None \<Rightarrow> Inr (False, sr)
      | Some text \<Rightarrow>
        if text = [] then Inr (False, sr)
        else
          bindE (load req 0 8) (\<lambda>h.
          let len = ntohl (le32 (h ! 0) (h ! 1) (h ! 2) (h ! 3)) in
          bindE (SHA1Input (SHA1Reset (sha1_junk env)) (drop salt_at req) (len - 8)) (\<lambda>sha1.
          bindE (SHA1Input sha1 (auth_key_buffer env text) (word_of_nat AUTH_KEY_LEN)) (\<lambda>sha1.
          bindE (SHA1Result sha1) (\<lambda>(ok, sha1).
          if \<not> ok then Inr (False, sr)
          else
            bindE (string_at (user sr)) (\<lambda>username.
            let m = auth_reply_message username (Message_Digest sha1) in
            Inr (sock_write sr m = int (length m), sr\<lparr>written := written sr @ [m]\<rparr>)))))))"

text \<open>The message prints the user's name and, after a failure, the reason the server gives.\<close>

definition sr_handle_auth_status :: "sr_instance \<Rightarrow> bytes \<Rightarrow> u8 res" where
  "sr_handle_auth_status sr status =
     bindE (load status auth_ok_at 1) (\<lambda>b.
     bindE (string_at (user sr)) (\<lambda>_.
     if hd b \<noteq> 0 then Inr (hd b)
     else bindE (string_at (drop (auth_ok_at + 1) status)) (\<lambda>_. Inr (hd b))))"

section \<open>Reading a message\<close>

text \<open>
  A frame for the router.  The length passed on is \<^verbatim>\<open>len - 38 + 14\<close> computed in \<^verbatim>\<open>size_t\<close> and
  narrowed to \<^verbatim>\<open>unsigned int\<close>; the interface name is read from the message buffer up to its NUL.
\<close>

definition vns_packet :: "nat \<Rightarrow> sr_instance \<Rightarrow> bytes \<Rightarrow> int \<Rightarrow> sr_instance res" where
  "vns_packet depth sr buf len =
     (let packet = drop sizeof_packet_header buf;
          plen = unat (word_of_int (len - int sizeof_packet_ethernet_header + int sizeof_eth) :: u32);
          iface = drop sizeof_base buf
      in bindE (sr_arp_req_not_for_us sr packet plen iface) (\<lambda>skip.
         if skip then Inr sr
         else
           bindE (load buf 0 4) (\<lambda>l.
           bindE (sr_log_packet sr packet
                   (ntohl (le32 (l ! 0) (l ! 1) (l ! 2) (l ! 3)) - word_of_nat sizeof_packet_header)) (\<lambda>sr.
           sr_handlepacket depth sr packet plen iface))))"

lemma plen_eq: "len - int sizeof_packet_ethernet_header + int sizeof_eth = len - 38 + 14"
  by (simp add: sizeof_eth_def)

text \<open>
  The texts of \<^verbatim>\<open>VNSCLOSE\<close> and \<^verbatim>\<open>VNSBANNER\<close> are printed with \<^verbatim>\<open>%s\<close>: they must have a terminator.
\<close>

definition vns_dispatch ::
    "nat \<Rightarrow> vns_env \<Rightarrow> sr_instance \<Rightarrow> bytes \<Rightarrow> int \<Rightarrow> u32 \<Rightarrow> (int \<times> sr_instance \<times> vns_env) res" where
  "vns_dispatch depth env sr buf len command =
     (if command = VNSPACKET
      then bindE (vns_packet depth sr buf len) (\<lambda>sr. Inr (1, sr, env))
      else if command = VNSCLOSE then bindE (string_at (drop error_message_at buf)) (\<lambda>_. Inr (0, sr, env))
      else if command = VNSBANNER then bindE (string_at (drop banner_message_at buf)) (\<lambda>_. Inr (1, sr, env))
      else if command = VNSHWINFO
      then bindE (sr_handle_hwinfo (if_junk env) sr buf) (\<lambda>(_, sr).
           if sr_verify_routing_table (if_list sr) (routing_table sr) \<noteq> 0 then Inr (- 1, sr, env)
           else Inr (1, sr, env))
      else if command = VNS_RTABLE
      then bindE (sr_handle_rtable env buf) (\<lambda>(ok, env). Inr (if ok then 1 else - 1, sr, env))
      else if command = VNS_AUTH_REQUEST
      then bindE (sr_handle_auth_request env sr buf) (\<lambda>(ok, sr). Inr (if ok then 1 else - 1, sr, env))
      else if command = VNS_AUTH_STATUS
      then bindE (sr_handle_auth_status sr buf) (\<lambda>ok. Inr (if ok \<noteq> 0 then 1 else - 1, sr, env))
      else Inr (1, sr, env))"

definition sr_read_from_server_expect ::
    "nat \<Rightarrow> u32 \<Rightarrow> vns_env \<Rightarrow> sr_instance \<Rightarrow> (int \<times> sr_instance \<times> vns_env) res" where
  "sr_read_from_server_expect depth expected_cmd env sr =
     (case rx_loop 4 [] (rx_stream env) (rx_events env) of
        Rx_blocked \<Rightarrow> Inl Blocked
      | Rx_failed stream evs \<Rightarrow> Inr (- 1, sr, env\<lparr>rx_stream := stream, rx_events := evs\<rparr>)
      | Rx_done b stream evs \<Rightarrow>
        (let len = sint (ntohl (le32 (b ! 0) (b ! 1) (b ! 2) (b ! 3))) in
         if len > 10000 \<or> len < 0
         then Inr (- 1, sr, env\<lparr>rx_stream := stream, rx_events := evs\<rparr>)
         else
           bindE (store (heap_junk sr (nat len)) 0 (bytes32 (htonl (word_of_int len)))) (\<lambda>buf.
           case rx_loop (nat (len - 4)) [] stream evs of
             Rx_blocked \<Rightarrow> Inl Blocked
           | Rx_failed stream evs \<Rightarrow> Inr (- 1, sr, env\<lparr>rx_stream := stream, rx_events := evs\<rparr>)
           | Rx_done body stream evs \<Rightarrow>
             bindE (store buf 4 body) (\<lambda>buf.
             bindE (load buf 4 4) (\<lambda>t.
             let command = ntohl (le32 (t ! 0) (t ! 1) (t ! 2) (t ! 3));
                 env = env\<lparr>rx_stream := stream, rx_events := evs\<rparr> in
             bindE (store buf 4 (bytes32 command)) (\<lambda>buf.
             if expected_cmd \<noteq> 0 \<and> command \<noteq> expected_cmd \<and> command \<noteq> VNSCLOSE
             then Inr (- 1, sr, env)
             else vns_dispatch depth env sr buf len command))))))"

definition sr_read_from_server ::
    "nat \<Rightarrow> vns_env \<Rightarrow> sr_instance \<Rightarrow> (int \<times> sr_instance \<times> vns_env) res" where
  "sr_read_from_server depth = sr_read_from_server_expect depth 0"

text \<open>The main loop of \<^verbatim>\<open>main\<close>; the fuel bounds the number of messages.\<close>

fun sr_main_loop :: "nat \<Rightarrow> nat \<Rightarrow> vns_env \<Rightarrow> sr_instance \<Rightarrow> (int \<times> sr_instance \<times> vns_env) res" where
  "sr_main_loop 0 depth env sr = Inl NoFuel"
| "sr_main_loop (Suc fuel) depth env sr =
     bindE (sr_read_from_server depth env sr) (\<lambda>(ret, sr, env).
     if ret = 1 then sr_main_loop fuel depth env sr else Inr (ret, sr, env))"

section \<open>Starting a session\<close>

definition open_message :: "sr_instance \<Rightarrow> bytes" where
  "open_message sr =
     (if length (cstr (template sr)) > 0
      then enc_open_template (strncpy 30 (template sr)) (strncpy IDSIZE (host sr))
      else enc_open \<lparr>op_topoID = htons (topo_id sr), op_host = strncpy IDSIZE (host sr),
             op_uid = strncpy IDSIZE (user sr)\<rparr>)"

text \<open>The session once the connection stands: authentication, then the request to open.\<close>

definition negotiate ::
    "nat \<Rightarrow> vns_env \<Rightarrow> sr_instance \<Rightarrow> (int \<times> sr_instance \<times> vns_env) res" where
  "negotiate depth env sr =
        bindE (sr_read_from_server_expect depth VNS_AUTH_REQUEST env sr) (\<lambda>(r, sr, env).
        if r \<noteq> 1 then Inr (- 1, sr, env)
        else
          bindE (sr_read_from_server_expect depth VNS_AUTH_STATUS env sr) (\<lambda>(r, sr, env).
          if r \<noteq> 1 then Inr (- 1, sr, env)
          else
            bindE (string_at (template sr)) (\<lambda>name.
            let m = open_message sr;
                sr' = sr\<lparr>written := written sr @ [m]\<rparr> in
            if sock_write sr m \<noteq> int (length m) then Inr (- 1, sr', env)
            else if length name > 0
            then bindE (sr_read_from_server_expect depth VNS_RTABLE env sr') (\<lambda>(r, sr, env).
                 Inr (if r \<noteq> 1 then - 1 else 0, sr, env))
            else Inr (0, sr', env))))"

definition sr_connect_to_server ::
    "nat \<Rightarrow> vns_env \<Rightarrow> sr_instance \<Rightarrow> u16 \<Rightarrow> bytes \<Rightarrow> (int \<times> sr_instance \<times> vns_env) res" where
  "sr_connect_to_server depth env sr port server =
     (case dns env (cstr server) of
        None \<Rightarrow> Inr (- 1, sr, env)
      | Some h_addr \<Rightarrow>
          let sr = sr\<lparr>sockfd := new_socket env\<rparr> in
          if sockfd sr < 0 then Inr (- 1, sr, env)
          else if connect_result env (sockfd sr) (htons port) h_addr < 0
          then Inr (- 1, sr, env\<lparr>closed_fds := sockfd sr # closed_fds env\<rparr>)
          else negotiate depth env sr)"

definition server_up :: "vns_env \<Rightarrow> u16 \<Rightarrow> bytes \<Rightarrow> bool" where
  "server_up env port server \<longleftrightarrow> 0 \<le> new_socket env
     \<and> (\<exists>h_addr. dns env (cstr server) = Some h_addr \<and> 0 \<le> connect_result env (new_socket env) (htons port) h_addr)"

lemma connect_server_up:
  "server_up env port server \<Longrightarrow>
   sr_connect_to_server depth env sr port server = negotiate depth env (sr\<lparr>sockfd := new_socket env\<rparr>)"
  by (auto simp: server_up_def sr_connect_to_server_def)

end
