(* ===== verification/Write_Results.thy ===== *)
theory Write_Results
  imports Router_Invariant Vns_Comm
begin

text \<open>
  The results of \<^verbatim>\<open>write\<close> on the server's socket.  \<^verbatim>\<open>sr_send_packet\<close> returns -1 when a frame could not be
  written; none of its callers looks at the result.  Two runs of a handler, from states that differ in
  the results of \<^verbatim>\<open>write\<close> alone, are compared step by step.
\<close>

definition with_write :: "(bytes \<Rightarrow> int) \<Rightarrow> sr_instance \<Rightarrow> sr_instance" where
  "with_write w sr = sr\<lparr>sock_write := w\<rparr>"

lemma with_write_simps [simp]:
  "if_list (with_write w sr) = if_list sr" "routing_table (with_write w sr) = routing_table sr"
  "cache (with_write w sr) = cache sr" "clock_sec (with_write w sr) = clock_sec sr"
  "clock_usec (with_write w sr) = clock_usec sr" "heap_junk (with_write w sr) = heap_junk sr"
  "logfile (with_write w sr) = logfile sr" "written (with_write w sr) = written sr"
  "with_write w sr\<lparr>cache := c\<rparr> = with_write w (sr\<lparr>cache := c\<rparr>)"
  "with_write w sr\<lparr>logfile := lf\<rparr> = with_write w (sr\<lparr>logfile := lf\<rparr>)"
  "with_write w sr\<lparr>written := ms\<rparr> = with_write w (sr\<lparr>written := ms\<rparr>)"
  "with_write w sr\<lparr>clock_sec := t, clock_usec := u\<rparr> = with_write w (sr\<lparr>clock_sec := t, clock_usec := u\<rparr>)"
  by (simp_all add: with_write_def)

section \<open>Two runs side by side\<close>

text \<open>
  \<open>unseen w m m'\<close>: \<open>m'\<close> faults as \<open>m\<close> does, or returns the same state but for \<open>w\<close>.  The rules follow the
  constructs of a handler.
\<close>

definition unseen :: "(bytes \<Rightarrow> int) \<Rightarrow> sr_instance res \<Rightarrow> sr_instance res \<Rightarrow> bool" where
  "unseen w m m' \<longleftrightarrow> m' = map_sum id (with_write w) m"

named_theorems unseen "rules that compare two runs of a handler"

lemma unseen_Inl [unseen]: "unseen w (Inl f) (Inl f)"
  by (simp add: unseen_def)

lemma unseen_Inr [unseen]: "unseen w (Inr sr) (Inr (with_write w sr))"
  by (simp add: unseen_def)

lemma unseen_bind [unseen]: "(\<And>x. unseen w (f x) (f' x)) \<Longrightarrow> unseen w (bindE m f) (bindE m f')"
  by (cases m) (simp_all add: unseen_def)

lemma unseen_then: "unseen w m m' \<Longrightarrow> (\<And>s. unseen w (f s) (f' (with_write w s))) \<Longrightarrow> unseen w (bindE m f) (bindE m' f')"
  by (cases m) (simp_all add: unseen_def)

lemma unseen_if [unseen]:
  "(c \<Longrightarrow> unseen w a a') \<Longrightarrow> (\<not> c \<Longrightarrow> unseen w b b') \<Longrightarrow> unseen w (if c then a else b) (if c then a' else b')"
  by simp

lemma unseen_option [unseen]:
  "unseen w a a' \<Longrightarrow> (\<And>y. unseen w (f y) (f' y)) \<Longrightarrow>
   unseen w (case x of None \<Rightarrow> a | Some y \<Rightarrow> f y) (case x of None \<Rightarrow> a' | Some y \<Rightarrow> f' y)"
  by (cases x) simp_all

lemma unseen_list [unseen]:
  "unseen w a a' \<Longrightarrow> (\<And>y ys. unseen w (f y ys) (f' y ys)) \<Longrightarrow>
   unseen w (case x of [] \<Rightarrow> a | y # ys \<Rightarrow> f y ys) (case x of [] \<Rightarrow> a' | y # ys \<Rightarrow> f' y ys)"
  by (cases x) simp_all

lemma unseen_prod [unseen]:
  "(\<And>y z. unseen w (f y z) (f' y z)) \<Longrightarrow> unseen w (case x of (y, z) \<Rightarrow> f y z) (case x of (y, z) \<Rightarrow> f' y z)"
  by (cases x) simp

lemma unseen_let [unseen]: "unseen w (f a) (f' a) \<Longrightarrow> unseen w (let x = a in f x) (let x = a in f' x)"
  by simp

section \<open>Sending\<close>

lemma log_unseen: "unseen w (sr_log_packet sr buf len) (sr_log_packet (with_write w sr) buf len)"
  unfolding sr_log_packet_def with_write_simps Let_def by (intro unseen)

text \<open>What follows a send sees the state after it, whatever the send returned.\<close>

lemma unseen_send [unseen]:
  assumes "\<And>s. unseen w (f s) (f' (with_write w s))"
  shows "unseen w (bindE (sr_send_packet sr b n i) (\<lambda>(_, s). f s))
    (bindE (sr_send_packet (with_write w sr) b n i) (\<lambda>(_, s). f' s))"
proof (cases "n < sizeof_eth")
  case True
  then show ?thesis
    by (simp add: sr_send_packet_def assms)
next
  case False
  have log: "sr_log_packet (with_write w sr) b k = map_sum id (with_write w) (sr_log_packet sr b k)" for k
    using log_unseen by (simp add: unseen_def)
  show ?thesis
    using False assms by (cases "load b 0 n"; cases "sr_log_packet sr b (word_of_nat n)";
        cases "sr_ether_addrs_match_interface (if_list (projr (sr_log_packet sr b (word_of_nat n)))) b i")
      (auto simp: sr_send_packet_def log Let_def intro: unseen)
qed

section \<open>The handlers\<close>

locale unseeing_handler =
  fixes harq :: "sr_instance \<Rightarrow> nat \<Rightarrow> sr_instance res" and w :: "bytes \<Rightarrow> int"
  assumes harq_unseen: "unseen w (harq sr p) (harq (with_write w sr) p)"
begin

lemma send_or_queue_unseen:
  "unseen w (send_or_queue harq sr packet len ip i) (send_or_queue harq (with_write w sr) packet len ip i)"
  unfolding send_or_queue_def with_write_simps by (intro unseen harq_unseen)

lemma send_icmp_unseen:
  "unseen w (send_icmp_body harq sr packet len type code) (send_icmp_body harq (with_write w sr) packet len type code)"
  unfolding send_icmp_body_def with_write_simps by (intro unseen send_or_queue_unseen)

end

lemma handle_arpreq_body_unseen:
  assumes "\<And>s p n t c. unseen w (sicmp s p n t c) (sicmp (with_write w s) p n t c)"
  shows "unseen w (handle_arpreq_body sicmp sr req) (handle_arpreq_body sicmp (with_write w sr) req)"
proof -
  have loop: "unseen w (host_unreachable_loop sicmp s ps) (host_unreachable_loop sicmp (with_write w s) ps)" for s ps
    by (cases ps) (simp_all, intro unseen, intro unseen_then assms unseen)
  show ?thesis
    unfolding handle_arpreq_body_def with_write_simps Let_def
    by (intro unseen; (rule unseen_then [OF loop])?; simp add: unseen)
qed

lemma handle_arpreq_unseen: "unseen w (handle_arpreq depth sr p) (handle_arpreq depth (with_write w sr) p)"
proof (induction depth arbitrary: sr p)
  case (Suc depth)
  have "unseeing_handler (handle_arpreq depth) w"
    by unfold_locales (rule Suc)
  then show ?case
    by (simp add: handle_arpreq_body_unseen unseeing_handler.send_icmp_unseen)
qed (simp add: unseen)

interpretation harq: unseeing_handler "handle_arpreq depth" w for depth w
  by unfold_locales (rule handle_arpreq_unseen)

lemma send_icmp_msg_unseen:
  "unseen w (send_icmp_msg depth sr packet len type code) (send_icmp_msg depth (with_write w sr) packet len type code)"
  unfolding send_icmp_msg_def by (rule harq.send_icmp_unseen)

lemma forward_unseen:
  "unseen w (sr_forward_ip_packet depth sr packet len) (sr_forward_ip_packet depth (with_write w sr) packet len)"
  unfolding sr_forward_ip_packet_def with_write_simps
  by (intro unseen send_icmp_msg_unseen harq.send_or_queue_unseen)

lemma handle_ip_unseen: "unseen w (handle_ip depth sr buf len) (handle_ip depth (with_write w sr) buf len)"
  unfolding handle_ip_def with_write_simps by (intro unseen send_icmp_msg_unseen forward_unseen)

lemma flush_unseen: "unseen w (flush_packets mac sr ps) (flush_packets mac (with_write w sr) ps)"
proof (induction ps arbitrary: sr)
  case (Cons p ps)
  show ?case
    unfolding flush_packets.simps with_write_simps by (intro unseen Cons.IH)
qed (simp add: unseen)

lemma handle_arp_unseen:
  "unseen w (handle_arp sr buf len iface eth) (handle_arp (with_write w sr) buf len iface eth)"
  unfolding handle_arp_def with_write_simps Let_def
  by (intro unseen unseen_then [OF flush_unseen]; (rule unseen_then [OF flush_unseen])?; simp add: unseen)

lemma handlepacket_unseen:
  "unseen w (sr_handlepacket depth sr buf len iface) (sr_handlepacket depth (with_write w sr) buf len iface)"
  unfolding sr_handlepacket_def Let_def by (intro unseen handle_arp_unseen handle_ip_unseen)

lemma sweep_unseen: "unseen w (sweep_loop depth fuel sr p) (sweep_loop depth fuel (with_write w sr) p)"
proof (induction depth fuel sr p rule: sweep_loop.induct)
  case (3 depth fuel sr p)
  show ?case
    by (cases "deref_req (requests (cache sr)) p") (simp_all add: Let_def unseen, intro unseen_then [OF handle_arpreq_unseen] "3.IH", simp_all)
qed (simp_all add: unseen)

lemma timeout_unseen:
  "unseen w (sr_arpcache_timeout_turn depth sr) (sr_arpcache_timeout_turn depth (with_write w sr))"
  unfolding sr_arpcache_timeout_turn_def sr_arpcache_sweepreqs_def with_write_simps by (rule sweep_unseen)

lemma arp_filter_unseen [simp]:
  "sr_arp_req_not_for_us (with_write w sr) packet len iface = sr_arp_req_not_for_us sr packet len iface"
  by (simp add: sr_arp_req_not_for_us_def)

lemma vns_packet_unseen: "unseen w (vns_packet depth sr buf len) (vns_packet depth (with_write w sr) buf len)"
  unfolding vns_packet_def Let_def arp_filter_unseen
  by (intro unseen unseen_then [OF log_unseen] handlepacket_unseen)

section \<open>Failures go unseen\<close>


end
