(* ===== verification/Sha1_Properties.thy ===== *)
theory Sha1_Properties
  imports Sha1
begin

text \<open>
  The two properties of \<^verbatim>\<open>sha1.c\<close> its client relies on: the digest of the bytes fed in is the
  standard's, however they are divided into calls, and a context in the wrong state refuses input.
\<close>

text \<open>The calls \<^verbatim>\<open>SHA1Input(context, piece, length)\<close> for a list of pieces.\<close>

fun inputs :: "SHA1Context \<Rightarrow> bytes list \<Rightarrow> SHA1Context res" where
  "inputs context [] = Inr context"
| "inputs context (piece # pieces) =
     bindE (SHA1Input context piece (word_of_nat (length piece))) (\<lambda>context. inputs context pieces)"

lemma inputs_absorbed:
  assumes "absorbed c m" "8 * length (m @ concat ps) < 2 ^ 64" "\<forall>p \<in> set ps. length p < 2 ^ 32"
  shows "\<exists>c'. inputs c ps = Inr c' \<and> absorbed c' (m @ concat ps)"
  using assms
proof (induction ps arbitrary: c m)
  case Nil
  then show ?case
    by simp
next
  case (Cons p ps)
  have n: "unat (word_of_nat (length p) :: u32) = length p"
    using Cons.prems(3) by (simp add: unat_of_nat take_bit_nat_eq_self)
  have "8 * (length m + unat (word_of_nat (length p) :: u32)) < 2 ^ 64"
    using Cons.prems(2) by (simp add: n)
  from input_absorbed [OF Cons.prems(1) this, of p] obtain c1 where
    "SHA1Input c p (word_of_nat (length p)) = Inr c1" and c1: "absorbed c1 (m @ p)"
    by (auto simp: n)
  moreover from Cons.IH [OF c1] Cons.prems(2,3) obtain c' where
    "inputs c1 ps = Inr c'" "absorbed c' ((m @ p) @ concat ps)"
    by (auto simp: add.assoc)
  ultimately show ?case
    by simp
qed

text \<open>
  C6. Resetting a context, feeding it a message in any pieces, and asking for the result gives the
  FIPS 180-1 digest of the concatenated pieces, for messages below the standard's
  limit of \<open>2 ^ 64\<close> bits; no write leaves the block buffer.
\<close>

theorem sha1_streaming:
  assumes "length (Message_Block c) = 64" "8 * length (concat ps) < 2 ^ 64"
    and "\<forall>p \<in> set ps. length p < 2 ^ 32"
  shows "\<exists>c1 c2. inputs (SHA1Reset c) ps = Inr c1 \<and> SHA1Result c1 = Inr (True, c2)
    \<and> Message_Digest c2 = fips_sha1 (concat ps)"
proof -
  obtain c1 where "inputs (SHA1Reset c) ps = Inr c1" "absorbed c1 (concat ps)"
    using inputs_absorbed [OF reset_absorbed [OF assms(1)], of ps] assms(2,3) by auto
  then show ?thesis
    using result_absorbed [of c1 "concat ps"] assms(2) by auto
qed

definition fresh_context :: SHA1Context where
  "fresh_context = \<lparr>Message_Digest = [], Length_Low = 0, Length_High = 0,
     Message_Block = replicate 64 0xA5, Message_Block_Index = 0, Computed = False, Corrupted = False\<rparr>"

lemma sha1_streaming_witness:
  "\<exists>c1 c2. inputs (SHA1Reset fresh_context) [[97], [98, 99]] = Inr c1 \<and> SHA1Result c1 = Inr (True, c2)
    \<and> Message_Digest c2 = fips_sha1 [97, 98, 99]"
  using sha1_streaming [of fresh_context "[[97], [98, 99]]"] by (simp add: fresh_context_def)

text \<open>
  The compression the code runs on a block, four loops over a schedule it builds in an array, is
  the standard's: eighty rounds with functions and constants by round number over the recursively
  defined schedule.
\<close>

lemma process_block_is_fips:
  "Message_Digest (SHA1ProcessMessageBlock context)
     = fips_compress (Message_Block context) (Message_Digest context)
   \<and> Message_Block_Index (SHA1ProcessMessageBlock context) = 0"
  by (simp add: process_block_fips)

end
