(* ===== verification/Table_Properties.thy ===== *)
theory Table_Properties
  imports Sample_Facts
begin

text \<open>
  The router's tables and formats: the routing table, the interfaces it names, the ARP cache, the
  Internet checksum, the packed headers, and the packet log.
\<close>

section \<open>Routing table\<close>

text \<open>
  C16. On a table whose masks are prefixes, \<^verbatim>\<open>longest_prefix_matching\<close> returns an entry whose
  destination agrees with the address on the entry's prefix and whose prefix no matching entry
  exceeds; and it returns none only when no entry matches but default routes.
\<close>

theorem lpm_is_longest_prefix:
  assumes "contiguous rt plen"
  shows "case longest_prefix_matching rt ip of
      None \<Rightarrow> \<forall>x \<in> set rt. drop_bit (32 - plen x) (ntohl ip) = drop_bit (32 - plen x) (ntohl (dest x)) \<longrightarrow>
        plen x = 0
    | Some e \<Rightarrow> e \<in> set rt \<and> 0 < plen e
        \<and> drop_bit (32 - plen e) (ntohl ip) = drop_bit (32 - plen e) (ntohl (dest e))
        \<and> (\<forall>x \<in> set rt. drop_bit (32 - plen x) (ntohl ip) = drop_bit (32 - plen x) (ntohl (dest x)) \<longrightarrow>
             plen x \<le> plen e)"
proof (cases "longest_prefix_matching rt ip")
  case None
  show ?thesis
    unfolding None option.case using lpm_None_prefix [OF assms None] prefix_match_rt [OF assms] by blast
next
  case (Some e)
  show ?thesis
    unfolding Some option.case
    using lpm_Some_prefix [OF assms Some] lpm_longest [OF assms Some] prefix_match_rt [OF assms] by blast
qed
lemma sample_contiguous: "contiguous sample_routes (\<lambda>_. 32)"
proof -
  have "\<forall>e \<in> set sample_routes. mask_addr e = 0xFFFFFFFF"
    by (simp add: sample_routes_def host_route_def)
  moreover have "ntohl 0xFFFFFFFF = prefix_mask 32"
    by code_simp
  ultimately show ?thesis
    by (simp add: contiguous_def rt_mask_def)
qed

lemma lpm_is_longest_prefix_witness:
  "ntohl server1_ip = ntohl (dest (host_route server1_ip 1))"
  using lpm_is_longest_prefix [OF sample_contiguous, of server1_ip] by (simp add: sample_route_facts)

text \<open>
  C17. \<^verbatim>\<open>sr_verify_routing_table\<close> accepts exactly the configurations in which there are interfaces and
  routes and every route leaves by an interface the router has; then every address the table
  routes is routed to such an interface.  A table it refuses is refused with the number of routes
  whose interface is missing, or 999 when there is nothing to check.
\<close>

theorem verified_table_routes_to_interfaces:
  "sr_verify_routing_table is rt =
     (if is = [] \<or> rt = [] then 999
      else int (length (filter (\<lambda>e. sr_get_interface is (rt_interface e) = None) rt)))
   \<and> (sr_verify_routing_table is rt = 0 \<longrightarrow> longest_prefix_matching rt ip = Some e \<longrightarrow>
        (\<exists>i \<in> set is. sr_get_interface is (rt_interface e) = Some i))"
  using verify_0_iff [of "is" rt] routes_ok_interface [of "is" rt ip e]
  by (auto simp: sr_verify_routing_table_def rt_missing_count)

lemma verified_table_routes_to_interfaces_witness:
  "\<exists>i \<in> set sample_ifs. sr_get_interface sample_ifs (rt_interface (host_route server1_ip 1)) = Some i"
proof -
  have "sr_verify_routing_table sample_ifs sample_routes = 0"
    by code_simp
  then show ?thesis
    using verified_table_routes_to_interfaces [of sample_ifs sample_routes server1_ip "host_route server1_ip 1"]
    by (simp only: sample_route_facts)
qed

section \<open>ARP cache\<close>

text \<open>
  C18. A new mapping learned into a cache with room is found from then on and changes no other
  address; the request that was waiting for the address is unlinked and handed to the caller with
  the packets it holds; and when the cache is full the mapping is not stored.
\<close>

theorem insert_learns:
  assumes "arp_inv c" "length mac = 6" "sr_arpcache_insert c mac ip now = (c', r)"
  shows "arp_inv c' \<and> map_option rq_packets r = waiting c ip \<and> waiting c' = (waiting c)(ip := None)
    \<and> (cache_map c ip = None \<longrightarrow>
        cache_map c' = (if has_room c then (cache_map c)(ip \<mapsto> mac) else cache_map c))"
  using assms cache.learn_invar cache.learn_returns cache.learn_wait cache.learn_map cache.learn_full
  by (auto split: if_splits)

lemma sample_has_room: "has_room (cache sample_router)" "cache_map (cache sample_router) ip = None"
  by (simp_all add: has_room_def cache_map_def arp_lookup_None_iff entry_hit_def sample_router_def
      zero_entry_def SR_ARPCACHE_SZ_def)

lemma insert_learns_witness:
  "cache_map (cache (learned server1_ip 4)) server1_ip = Some (host_mac 4)"
  using insert_learns [OF sample_arp_inv, of "host_mac 4" server1_ip 1000] sample_has_room
  by (cases "sr_arpcache_insert (cache sample_router) (host_mac 4) server1_ip 1000")
     (simp add: learned_def host_mac_def)

text \<open>
  A packet queued for an address and the mapping learned next meet: the request handed over holds
  the packet in front of those queued before it, bytes, length and interface name as queued, and
  nothing waits for the address any more.
\<close>

lemma queued_packet_is_handed_over:
  assumes "arp_inv c" "frame_len n" "n \<le> length b"
  shows "\<exists>c1 p c2 q. sr_arpcache_queuereq c ip b n i = Inr (c1, p)
    \<and> sr_arpcache_insert c1 mac ip now = (c2, Some q)
    \<and> rq_packets q = \<lparr>pk_buf = take n b, pk_len = n, pk_iface = strncpy sr_IFACE_NAMELEN i\<rparr>
        # (case waiting c ip of None \<Rightarrow> [] | Some ps \<Rightarrow> ps)
    \<and> waiting c2 ip = None"
proof -
  obtain c1 p where q: "sr_arpcache_queuereq c ip b n i = Inr (c1, p)"
    using cache.queue_returns [OF assms(2,3)] by blast
  obtain c2 r where i: "sr_arpcache_insert c1 mac ip now = (c2, r)"
    by fastforce
  from cache.queue_then_learn [OF assms q i] q i show ?thesis
    by (auto simp: queued_def)
qed

lemma queued_packet_is_handed_over_witness:
  "\<exists>c1 p c2 q. sr_arpcache_queuereq (cache sample_router) 1 (replicate 60 7) 42 [101] = Inr (c1, p)
    \<and> sr_arpcache_insert c1 (host_mac 1) 1 1000 = (c2, Some q)
    \<and> rq_packets q = \<lparr>pk_buf = take 42 (replicate 60 7), pk_len = 42, pk_iface = strncpy sr_IFACE_NAMELEN [101]\<rparr>
        # (case waiting (cache sample_router) 1 of None \<Rightarrow> [] | Some ps \<Rightarrow> ps)
    \<and> waiting c2 1 = None"
  by (rule queued_packet_is_handed_over [OF sample_arp_inv]) (simp_all add: frame_len_def sizeof_eth_def)

text \<open>
  C19. A valid entry for an address that stands behind a free slot hides what is learned about the
  address later: \<^verbatim>\<open>sr_arpcache_insert\<close> takes the first free slot, \<^verbatim>\<open>sr_arpcache_lookup\<close> returns the last
  match, so lookups keep returning the old MAC until the old entry times out.
\<close>

theorem stale_mapping_hides_new:
  assumes "entries c = pre @ e # post" "\<forall>x \<in> set pre. en_valid x \<noteq> 0" "en_valid e = 0"
    and "x \<in> set post" "entry_hit ip x" "sr_arpcache_insert c mac ip now = (c', r)"
  shows "cache_map c' ip = cache_map c ip"
proof -
  have "filter (entry_hit ip) post \<noteq> []"
    using assms(4,5) by (auto simp: filter_empty_conv)
  with lookup_fill_stale [OF assms(1-3), of "\<lparr>en_mac = take 6 mac, en_ip = ip, en_added = now, en_valid = 1\<rparr>"]
    assms(6) show ?thesis
    by (auto simp: cache_map_def sr_arpcache_lookup_def sr_arpcache_insert_def)
qed

lemma stale_mapping_hides_new_witness:
  "cache_map (fst (sr_arpcache_insert \<lparr>entries = [zero_entry, host_entry 1 9], requests = [], next_ptr = 1\<rparr>
      (host_mac 4) 1 1000)) 1
   = cache_map \<lparr>entries = [zero_entry, host_entry 1 9], requests = [], next_ptr = 1\<rparr> 1"
  using stale_mapping_hides_new [of "\<lparr>entries = [zero_entry, host_entry 1 9], requests = [], next_ptr = 1\<rparr>"
      "[]" zero_entry "[host_entry 1 9]" "host_entry 1 9" 1 "host_mac 4" 1000]
  by (cases "sr_arpcache_insert \<lparr>entries = [zero_entry, host_entry 1 9], requests = [], next_ptr = 1\<rparr>
      (host_mac 4) 1 1000") (simp add: zero_entry_def entry_hit_def host_entry_def)

section \<open>Checksum, headers, packet log\<close>

text \<open>
  C20. \<^verbatim>\<open>cksum\<close> is the Internet checksum of RFC 1071 in network byte order: the complement of the one's
  complement sum of the big-endian 16-bit words, an odd last byte padded with zero, and never zero.
\<close>

theorem cksum_is_rfc1071:
  assumes "0 \<le> len" "len \<le> 131071"
  shows "cksum data len = (if nat len \<le> length data
    then Inr (htons (word_of_nat (rfc1071 (take (nat len) data)))) else Inl OutOfBounds)"
  using assms cksum_value_eq [of "take (nat len) data"]
  by (simp add: cksum_Inr cksum_Inl)

lemma cksum_is_rfc1071_witness:
  "cksum [0x45, 0, 0, 1, 7] 5 = Inr (htons (word_of_nat (rfc1071 [0x45, 0, 0, 1, 7])))"
  using cksum_is_rfc1071 [of 5 "[0x45, 0, 0, 1, 7]"] by simp

text \<open>
  A checksum computed over data whose checksum field is zero, and then stored in the field, makes
  the data verify: the one's complement sum over all of it is 65535.
\<close>

lemma stored_checksum_verifies:
  assumes "even off" "off + 2 \<le> length data" "slice off 2 data = [0, 0]" "length data \<le> 131071"
    and "cksum data (int (length data)) = Inr c"
  shows "oc_sum (patch off (bytes16 c) data) = 65535"
  using cksum_fills [OF assms(1-4)] assms(5) by (simp add: cksum_Inr)

lemma stored_checksum_verifies_witness:
  "oc_sum (patch 2 (bytes16 (cksum_value [8, 0, 0, 0, 9])) [8, 0, 0, 0, 9]) = 65535"
  by (rule stored_checksum_verifies [of 2 "[8, 0, 0, 0, 9]"]) (simp_all add: slice_def cksum_Inr)



text \<open>A sequence of \<^verbatim>\<open>sr_dump\<close> calls.\<close>

fun dump_all :: "bytes \<Rightarrow> (pcap_pkthdr \<times> bytes) list \<Rightarrow> bytes res" where
  "dump_all fp [] = Inr fp"
| "dump_all fp ((h, sp) # ps) = bindE (sr_dump fp h sp) (\<lambda>fp'. dump_all fp' ps)"

lemma read_dump_all:
  "read_savefile fp = Some rs \<Longrightarrow> dump_all fp ps = Inr fp' \<Longrightarrow>
   read_savefile fp' = Some (rs @ map (\<lambda>(h, sp). (sf_hdr_of h, take (unat (caplen h)) sp)) ps)"
proof (induction fp ps arbitrary: rs rule: dump_all.induct)
  case (2 fp h sp ps)
  then obtain fp1 where "sr_dump fp h sp = Inr fp1" "dump_all fp1 ps = Inr fp'"
    by (auto simp: bindE_eq_Inr)
  with "2.IH" read_dump [OF "2.prems"(1)] show ?case
    by fastforce
qed simp

text \<open>
  C22. The packet log is a savefile of the packets logged, in order: opening it and dumping any number
  of packets leaves a file from which a reader of the format gets exactly the record headers and
  the first \<^verbatim>\<open>caplen\<close> bytes of each.
\<close>

theorem savefile_roundtrip:
  assumes "sr_dump_open opened fname thiszone snaplen = Some fp" "dump_all fp ps = Inr fp'"
  shows "read_savefile fp' = Some (map (\<lambda>(h, sp). (sf_hdr_of h, take (unat (caplen h)) sp)) ps)"
  using read_dump_all [OF read_open [OF assms(1)] assms(2)] by simp

lemma savefile_roundtrip_witness:
  "\<exists>fp'. dump_all (sf_write_header [] LINKTYPE_ETHERNET 0 1024)
      [(\<lparr>ts_sec = 1, ts_usec = 2, caplen = 2, pkt_len = 2\<rparr>, [7, 8, 9])] = Inr fp'
    \<and> read_savefile fp' = Some [(sf_hdr_of \<lparr>ts_sec = 1, ts_usec = 2, caplen = 2, pkt_len = 2\<rparr>, [7, 8])]"
  using savefile_roundtrip [of True "[45]" 0 1024 "sf_write_header [] LINKTYPE_ETHERNET 0 1024"
      "[(\<lparr>ts_sec = 1, ts_usec = 2, caplen = 2, pkt_len = 2\<rparr>, [7, 8, 9])]"]
  by (simp add: sr_dump_open_def sr_dump_def load_def slice_def)

end
