(* ===== verification/Vns_Reading.thy ===== *)
theory Vns_Reading
  imports Vns_Comm
begin

text \<open>
  What is read from the server does not depend on how the bytes arrive: lemmas on the read loops, and
  the evaluation of \<^verbatim>\<open>sr_read_from_server_expect\<close> on a complete message.
\<close>

section \<open>Reading does not depend on the schedule\<close>

lemma rx_loop_done:
  "rx_loop n acc stream evs = Rx_done b rest evs' \<Longrightarrow> length acc \<le> n \<Longrightarrow>
   length b = n \<and> b @ rest = acc @ stream"
proof (induction n acc stream evs rule: rx_loop.induct)
  case (2 n acc stream ev evs)
  show ?case
  proof (cases "length acc < n")
    case False
    with 2 show ?thesis
      by auto
  next
    case True
    show ?thesis
    proof (cases ev)
      case (Ready k)
      let ?got = "take (min k (n - length acc)) stream"
      have "rx_loop n (acc @ ?got) (drop (length ?got) stream) evs = Rx_done b rest evs'"
        using "2.prems"(1) True Ready by (simp add: Let_def)
      moreover have "length (acc @ ?got) \<le> n"
        using True by auto
      ultimately have "length b = n \<and> b @ rest = (acc @ ?got) @ drop (length ?got) stream"
        using True by (intro "2.IH"(1) [OF _ Ready refl]) simp_all
      moreover have "take j stream @ drop (length (take j stream)) stream = stream" for j
        by (cases "j \<le> length stream") simp_all
      ultimately show ?thesis
        by (simp only: append.assoc)
    qed (use 2 True in auto)
  qed
qed (auto split: if_splits)

text \<open>A schedule that keeps delivering: no failure, no empty read, and at least \<open>m\<close> deliveries.\<close>

definition live :: "rx_event list \<Rightarrow> nat \<Rightarrow> bool" where
  "live evs m \<longleftrightarrow> RxError \<notin> set evs \<and> Ready 0 \<notin> set evs
     \<and> m \<le> length (filter (\<lambda>e. e \<noteq> Interrupted) evs)"

lemma take_split: "j \<le> r \<Longrightarrow> take j xs @ take (r - j) (drop j xs) = take r xs"
  by (metis le_add_diff_inverse take_add)

lemma drop_split: "j \<le> r \<Longrightarrow> drop (r - j) (drop j xs) = drop r xs"
  by simp

lemma rx_loop_live:
  assumes "live evs (m + (n - length acc))" "n - length acc \<le> length stream"
  shows "\<exists>evs'. rx_loop n acc stream evs
    = Rx_done (acc @ take (n - length acc) stream) (drop (n - length acc) stream) evs' \<and> live evs' m"
  using assms
proof (induction n acc stream evs rule: rx_loop.induct)
  case (1 n acc stream)
  then have "m = 0" "n - length acc = 0"
    by (auto simp: live_def)
  then show ?case
    by (auto simp: live_def)
next
  case (2 n acc stream ev evs)
  show ?case
  proof (cases "length acc < n")
    case False
    with 2 show ?thesis
      by (auto simp: live_def)
  next
    case True
    show ?thesis
    proof (cases ev)
      case Interrupted
      then have "live evs (m + (n - length acc))"
        using "2.prems"(1) by (simp add: live_def)
      with 2 True Interrupted show ?thesis
        by simp
    next
      case (Ready k)
      let ?r = "n - length acc"
      let ?j = "min k ?r"
      let ?g = "take ?j stream"
      have k: "0 < k"
        using "2.prems"(1) Ready by (cases k) (auto simp: live_def)
      have g: "length ?g = ?j" "n - length (acc @ ?g) = ?r - ?j" "?j \<le> ?r" "0 < ?j"
        using "2.prems"(2) k True by auto
      have "live evs (m + (n - length (acc @ ?g)))"
        using "2.prems"(1) Ready g unfolding g(2) by (auto simp: live_def)
      moreover have "n - length (acc @ ?g) \<le> length (drop (length ?g) stream)"
        using "2.prems"(2) g(1-3) by simp
      ultimately obtain evs' where
        run: "rx_loop n (acc @ ?g) (drop (length ?g) stream) evs = Rx_done
           ((acc @ ?g) @ take (n - length (acc @ ?g)) (drop (length ?g) stream))
           (drop (n - length (acc @ ?g)) (drop (length ?g) stream)) evs'" and "live evs' m"
        using "2.IH"(1) [OF _ Ready refl] True by blast
      moreover have "?g @ take (?r - ?j) (drop ?j stream) = take ?r stream"
        by (rule take_split [OF g(3)])
      moreover have "drop (?r - ?j) (drop ?j stream) = drop ?r stream"
        by (rule drop_split [OF g(3)])
      moreover have "rx_loop n acc stream (ev # evs) = rx_loop n (acc @ ?g) (drop (length ?g) stream) evs"
        using True Ready by (simp add: Let_def)
      ultimately show ?thesis
        unfolding run g(1,2) append.assoc by metis
    next
      case RxError
      with "2.prems" show ?thesis
        by (simp add: live_def)
    qed
  qed
qed

text \<open>An end of file is not noticed: the loop reads nothing for ever.\<close>

lemma rx_loop_eof: "length acc < n \<Longrightarrow> rx_loop n acc [] (replicate k (Ready j)) = Rx_blocked"
  by (induction k) simp_all

section \<open>One complete message\<close>

definition vns_message :: "u32 \<Rightarrow> bytes \<Rightarrow> bytes" where
  "vns_message t body = bytes32 (htonl (word_of_nat (8 + length body))) @ bytes32 (htonl t) @ body"

text \<open>The buffer the handlers see: the length as sent, the type already in host order.\<close>

definition message_buffer :: "u32 \<Rightarrow> bytes \<Rightarrow> bytes" where
  "message_buffer t body = bytes32 (htonl (word_of_nat (8 + length body))) @ bytes32 t @ body"

lemma packet_message_eq: "packet_message name d = vns_message VNSPACKET (strncpy 16 name @ d)"
  by (simp add: packet_message_def vns_message_def enc_packet_header_def sizeof_packet_header_def
      add.commute del: of_nat_add of_nat_Suc)

lemma le32_nth_bytes32 [simp]:
  "le32 (bytes32 w ! 0) (bytes32 w ! Suc 0) (bytes32 w ! 2) (bytes32 w ! 3) = w"
  by (simp add: bytes32_def le32_bytes32)

lemma read_message:
  assumes stream: "rx_stream env = vns_message t body @ later"
    and sched: "live (rx_events env) (8 + length body + m)"
    and len: "8 + length body \<le> 10000" and junk: "\<And>k. length (heap_junk sr k) = k"
  shows "\<exists>evs'. live evs' m \<and> sr_read_from_server_expect depth e env sr =
    (let env' = env\<lparr>rx_stream := later, rx_events := evs'\<rparr> in
     if e \<noteq> 0 \<and> t \<noteq> e \<and> t \<noteq> VNSCLOSE then Inr (- 1, sr, env')
     else vns_dispatch depth env' sr (message_buffer t body) (int (8 + length body)) t)"
proof -
  let ?L = "8 + length body"
  define lw where "lw = (word_of_nat ?L :: u32)"
  have lw: "sint lw = int ?L" "word_of_int (int ?L) = lw"
    using len by (simp_all add: lw_def signed_of_nat signed_take_bit_int_eq_self del: of_nat_add)
  have m1: "vns_message t body = bytes32 (htonl lw) @ bytes32 (htonl t) @ body"
    by (simp only: vns_message_def lw_def)
  have "live (rx_events env) ((4 + length body + m) + (4 - length ([] :: bytes)))"
    using sched by (simp add: ac_simps)
  from rx_loop_live [OF this, of "rx_stream env"] obtain evs1 where
    r1: "rx_loop 4 [] (rx_stream env) (rx_events env)
      = Rx_done (bytes32 (htonl lw)) (bytes32 (htonl t) @ body @ later) evs1"
    and l1: "live evs1 (4 + length body + m)"
    by (auto simp: stream m1)
  have "live evs1 (m + (4 + length body - length ([] :: bytes)))"
    using l1 by (simp add: ac_simps)
  from rx_loop_live [OF this, of "bytes32 (htonl t) @ body @ later"] obtain evs2 where
    r2: "rx_loop (4 + length body) [] (bytes32 (htonl t) @ body @ later) evs1
      = Rx_done (bytes32 (htonl t) @ body) later evs2"
    and l2: "live evs2 m"
    by auto
  have n: "nat (int ?L) = ?L" "nat (int ?L - 4) = 4 + length body" "\<not> (int ?L > 10000 \<or> int ?L < 0)"
    using len by auto
  have s0: "store (heap_junk sr ?L) 0 (bytes32 (htonl lw)) = Inr (bytes32 (htonl lw) @ drop 4 (heap_junk sr ?L))"
    by (simp add: junk byte_simps eval_nat_numeral)
  have s1: "store (bytes32 (htonl lw) @ drop 4 (heap_junk sr ?L)) 4 (bytes32 (htonl t) @ body)
      = Inr (bytes32 (htonl lw) @ bytes32 (htonl t) @ body)"
    by (simp add: junk patch_to_end)
  have s2: "load (bytes32 (htonl lw) @ bytes32 (htonl t) @ body) 4 4 = Inr (bytes32 (htonl t))"
    by (simp add: slice_def)
  have s3: "store (bytes32 (htonl lw) @ bytes32 (htonl t) @ body) 4 (bytes32 t) = Inr (message_buffer t body)"
    by (simp add: patch_def message_buffer_def lw_def del: of_nat_add)
  have "sr_read_from_server_expect depth e env sr =
    (let env' = env\<lparr>rx_stream := later, rx_events := evs2\<rparr> in
     if e \<noteq> 0 \<and> t \<noteq> e \<and> t \<noteq> VNSCLOSE then Inr (- 1, sr, env')
     else vns_dispatch depth env' sr (message_buffer t body) (int ?L) t)"
    unfolding sr_read_from_server_expect_def r1
    apply (simp only: rx_result.case Let_def One_nat_def le32_nth_bytes32 htonl_htonl)
    apply (simp only: lw)
    apply (simp only: n if_False)
    apply (simp only: s0 bindE_Inr r2 rx_result.case s1 s2)
    apply (simp only: One_nat_def le32_nth_bytes32 htonl_htonl s3 bindE_Inr)
    done
  with l2 show ?thesis
    by blast
qed

section \<open>Frames from the wire\<close>

lemma cstr_strncpy_append:
  assumes "length (cstr name) < n"
  shows "cstr (strncpy n name @ d) = cstr name"
proof -
  obtain k where "n - length (cstr name) = Suc k"
    using assms by (metis Suc_diff_Suc)
  then have "strncpy n name @ d = cstr name @ 0 # replicate k 0 @ d"
    using assms by (simp add: strncpy_def)
  then show ?thesis
    by (auto simp: cstr_def takeWhile_append dest: set_takeWhileD)
qed

lemma get_interface_cstr: "cstr a = cstr b \<Longrightarrow> sr_get_interface is a = sr_get_interface is b"
  by (induction "is") (simp_all add: strncmp_eq_iff)

lemma handlepacket_iface_cong:
  "sr_get_interface (if_list sr) a = sr_get_interface (if_list sr) b \<Longrightarrow>
   sr_handlepacket depth sr buf len a = sr_handlepacket depth sr buf len b"
proof -
  assume eq: "sr_get_interface (if_list sr) a = sr_get_interface (if_list sr) b"
  have "handle_arp sr buf len a e = handle_arp sr buf len b e" for e
    unfolding handle_arp_def eq ..
  then show ?thesis
    by (simp only: sr_handlepacket_def)
qed

text \<open>A packet message is handled as the frame it carries on the interface it names.\<close>

lemma vns_packet_message:
  assumes "length (cstr name) < 16" "24 + length d \<le> 10000"
  shows "vns_packet depth sr (message_buffer VNSPACKET (strncpy 16 name @ d)) (int (24 + length d)) =
    bindE (sr_arp_req_not_for_us sr d (length d) name) (\<lambda>skip.
      if skip then Inr sr
      else bindE (sr_log_packet sr d (word_of_nat (length d))) (\<lambda>sr.
        sr_handlepacket depth sr d (length d) name))"
proof -
  let ?buf = "message_buffer VNSPACKET (strncpy 16 name @ d)"
  let ?w = "word_of_nat (8 + length (strncpy 16 name @ d)) :: u32"
  have buf: "drop sizeof_packet_header ?buf = d" "drop 8 ?buf = strncpy 16 name @ d"
    "load ?buf 0 4 = Inr (bytes32 (htonl ?w))"
    by (simp_all add: message_buffer_def sizeof_packet_header_def slice_def)
  have plen: "unat (word_of_int (int (24 + length d) - 38 + 14) :: u32) = length d"
    using assms(2) by (simp add: unat_of_nat take_bit_nat_eq_self)
  have ln: "?w - word_of_nat sizeof_packet_header = word_of_nat (length d)"
    by (simp add: sizeof_packet_header_def)
  have iface: "sr_get_interface is (strncpy 16 name @ d) = sr_get_interface is name" for "is"
    by (rule get_interface_cstr) (rule cstr_strncpy_append [OF assms(1)])
  have "sr_arp_req_not_for_us sr d (length d) (strncpy 16 name @ d) = sr_arp_req_not_for_us sr d (length d) name"
    by (simp add: sr_arp_req_not_for_us_def iface)
  moreover have "sr_handlepacket depth sr1 d (length d) (strncpy 16 name @ d)
      = sr_handlepacket depth sr1 d (length d) name" for sr1
    by (rule handlepacket_iface_cong) (rule iface)
  ultimately show ?thesis
    unfolding vns_packet_def plen_eq offsets(1) buf plen Let_def
    by (simp only: bindE_Inr One_nat_def le32_nth_bytes32 htonl_htonl ln)
qed

end
