(* ===== verification/Vns_Handlers.thy ===== *)
theory Vns_Handlers
  imports Vns_Reading Router_Invariant
begin

text \<open>
  What the handlers of \<^verbatim>\<open>sr_vns_comm.c\<close> compute: the interfaces a hardware message announces, the
  reply to an authentication request, and the frames of a whole session.
\<close>

section \<open>Hardware information\<close>

fun hw_steps :: "sr_if \<Rightarrow> c_hw_entry list \<Rightarrow> sr_if list \<Rightarrow> sr_if list res" where
  "hw_steps junk [] is = Inr is"
| "hw_steps junk (e # es) is = bindE (hw_step junk is e) (hw_steps junk es)"

lemma hw_steps_append: "hw_steps junk (es @ fs) is = bindE (hw_steps junk es is) (hw_steps junk fs)"
proof (induction es arbitrary: "is")
  case (Cons e es)
  then have "hw_steps junk (es @ fs) = (\<lambda>is. bindE (hw_steps junk es is) (hw_steps junk fs))"
    by blast
  then show ?case
    by (simp add: bindE_assoc)
qed simp

lemma hw_loop_entries:
  assumes "\<forall>e \<in> set es. wf_hw_entry e" "length pre = 8 + k * sizeof_hw_entry"
  shows "hw_loop junk (pre @ concat (map enc_hw_entry es)) [k..<k + length es] is = hw_steps junk es is"
  using assms
proof (induction es arbitrary: pre k "is")
  case (Cons e es)
  have "length (pre @ enc_hw_entry e) = 8 + Suc k * sizeof_hw_entry"
    using Cons.prems by (simp add: hw_entry.length_enc sizeof_hw_entry_def)
  then have "hw_loop junk ((pre @ enc_hw_entry e) @ concat (map enc_hw_entry es)) [Suc k..<Suc k + length es]
      = hw_steps junk es"
    using Cons.IH [of "pre @ enc_hw_entry e" "Suc k"] Cons.prems by (intro ext) simp
  moreover have "read_struct dec_hw_entry sizeof_hw_entry
      (pre @ enc_hw_entry e @ concat (map enc_hw_entry es)) (8 + k * sizeof_hw_entry) = Inr e"
    using hw_entry.read_at [of e pre "8 + k * sizeof_hw_entry"] Cons.prems by (simp add: sizeof_hw_entry_def)
  moreover have "[k..<k + length (e # es)] = k # [Suc k..<Suc k + length es]"
    using upt_conv_Cons [of k "k + length (e # es)"] by (simp del: upt_Suc)
  ultimately show ?case
    by (simp only: hw_loop.simps offsets hw_steps.simps list.map concat.simps append_assoc bindE_Inr)
qed simp

text \<open>The three entries that describe an interface.\<close>

type_synonym hw_iface = "bytes \<times> u32 \<times> bytes"

definition hw_iface_entries :: "hw_iface \<Rightarrow> c_hw_entry list" where
  "hw_iface_entries = (\<lambda>(name, ip, mac).
     [\<lparr>mKey = htonl HWINTERFACE, hw_value = strncpy 32 name\<rparr>,
      \<lparr>mKey = htonl HWETHIP, hw_value = bytes32 ip @ replicate 28 0\<rparr>,
      \<lparr>mKey = htonl HWETHER, hw_value = mac @ replicate 26 0\<rparr>])"

definition hw_iface_node :: "sr_if \<Rightarrow> hw_iface \<Rightarrow> sr_if" where
  "hw_iface_node junk = (\<lambda>(name, ip, mac).
     junk\<lparr>if_name := strncpy sr_IFACE_NAMELEN name, if_ip := ip, if_addr := mac\<rparr>)"

lemma hw_iface_entries_simps:
  assumes "length mac = 6"
  shows "hw_steps junk (hw_iface_entries (name, ip, mac)) is = Inr (is @ [hw_iface_node junk (name, ip, mac)])"
    and "\<forall>e \<in> set (hw_iface_entries (name, ip, mac)). wf_hw_entry e"
proof -
  have "hw_step junk (is @ [i]) \<lparr>mKey = htonl HWETHIP, hw_value = bytes32 ip @ replicate 28 0\<rparr>
      = Inr (is @ [i\<lparr>if_ip := ip\<rparr>])" for i
    by (simp add: hw_step_def vns_consts sr_set_ether_ip_snoc bytes32_def le32_bytes32)
  moreover have "hw_step junk is \<lparr>mKey = htonl HWINTERFACE, hw_value = strncpy 32 name\<rparr>
      = Inr (is @ [junk\<lparr>if_name := strncpy sr_IFACE_NAMELEN name\<rparr>])"
    by (simp add: hw_step_def vns_consts sr_add_interface_def sr_IFACE_NAMELEN_def strncpy_idem)
  moreover have "hw_step junk (is @ [i]) \<lparr>mKey = htonl HWETHER, hw_value = mac @ replicate 26 0\<rparr>
      = Inr (is @ [i\<lparr>if_addr := mac\<rparr>])" for i
    using assms by (simp add: hw_step_def vns_consts sr_set_ether_addr_snoc)
  ultimately show "hw_steps junk (hw_iface_entries (name, ip, mac)) is
      = Inr (is @ [hw_iface_node junk (name, ip, mac)])"
    by (simp add: hw_iface_entries_def hw_iface_node_def)
  show "\<forall>e \<in> set (hw_iface_entries (name, ip, mac)). wf_hw_entry e"
    using assms by (simp add: hw_iface_entries_def wf_hw_entry_def)
qed

lemma hw_ifaces_steps:
  "\<forall>(name, ip, mac) \<in> set ifs. length mac = 6 \<Longrightarrow>
   hw_steps junk (concat (map hw_iface_entries ifs)) is = Inr (is @ map (hw_iface_node junk) ifs)
   \<and> (\<forall>e \<in> set (concat (map hw_iface_entries ifs)). wf_hw_entry e)"
proof (induction ifs arbitrary: "is")
  case (Cons i ifs)
  obtain name ip mac where i: "i = (name, ip, mac)" "length mac = 6"
    using Cons.prems by (cases i) auto
  have "hw_steps junk (hw_iface_entries i) is = Inr (is @ [hw_iface_node junk i])"
    "\<forall>e \<in> set (hw_iface_entries i). wf_hw_entry e"
    unfolding i(1) by (rule hw_iface_entries_simps [OF i(2)])+
  with Cons.IH [of "is @ [hw_iface_node junk i]"] Cons.prems show ?case
    by (auto simp: hw_steps_append)
qed simp

lemma hw_num_entries_eq: "8 + 36 * n \<le> 10000 \<Longrightarrow> hw_num_entries (word_of_nat (8 + 36 * n)) = int n"
proof -
  assume n: "8 + 36 * n \<le> 10000"
  then have "unat (word_of_nat (8 + 36 * n) :: u32) = 8 + 36 * n"
    by (subst unat_of_nat) (simp add: take_bit_nat_eq_self)
  moreover have "(int (8 + 36 * n) - 8) mod 2 ^ 64 div 36 = int n"
    using n by simp
  moreover have "sint (word_of_int (int n) :: u32) = int n"
    using n by (simp add: signed_of_nat signed_take_bit_int_eq_self)
  ultimately show ?thesis
    by (simp only: hw_num_entries_def)
qed

lemma hw_ifaces_length: "length (concat (map hw_iface_entries ifs)) = 3 * length ifs"
  by (induction ifs) (auto simp: hw_iface_entries_def split: prod.split)

lemma hw_entries_length:
  "\<forall>e \<in> set es. wf_hw_entry e \<Longrightarrow> length (concat (map enc_hw_entry es)) = 36 * length es"
  by (induction es) (simp_all add: hw_entry.length_enc)

lemma handle_hwinfo_entries:
  assumes "\<forall>e \<in> set es. wf_hw_entry e" "8 + 36 * length es \<le> 10000"
    and "hw_steps junk es (if_list sr) = Inr is" "printable is"
  shows "sr_handle_hwinfo junk sr (message_buffer VNSHWINFO (concat (map enc_hw_entry es)))
    = Inr (int (length es), sr\<lparr>if_list := is\<rparr>)"
proof -
  let ?n = "word_of_nat (8 + 36 * length es) :: u32"
  let ?buf = "message_buffer VNSHWINFO (concat (map enc_hw_entry es))"
  have "?buf = (bytes32 (htonl ?n) @ bytes32 VNSHWINFO) @ concat (map enc_hw_entry es)"
    by (simp add: message_buffer_def hw_entries_length [OF assms(1)] del: of_nat_add)
  moreover have "hw_loop junk ((bytes32 (htonl ?n) @ bytes32 VNSHWINFO) @ concat (map enc_hw_entry es))
      [0..<length es] (if_list sr) = Inr is"
    using hw_loop_entries [OF assms(1), of "bytes32 (htonl ?n) @ bytes32 VNSHWINFO" 0] assms(3)
    by (simp del: of_nat_add)
  moreover have "load ((bytes32 (htonl ?n) @ bytes32 VNSHWINFO) @ concat (map enc_hw_entry es)) 0 4
      = Inr (bytes32 (htonl ?n))"
    by (simp add: slice_def del: of_nat_add)
  moreover obtain s where "sr_print_if_list is = Inr s"
    using print_if_list_ok [OF assms(4)] by blast
  ultimately show ?thesis
    by (simp only: sr_handle_hwinfo_def bindE_Inr Let_def One_nat_def le32_nth_bytes32 htonl_htonl
        hw_num_entries_eq [OF assms(2)] nat_int)
qed

text \<open>The nodes can be printed when their names leave room for the terminator.\<close>

lemma cstr_short: "0 \<in> set (strncpy n s) \<longleftrightarrow> length (cstr s) < n"
  using cstr_no_nul [of s] in_set_takeD [of 0 n "cstr s"] by (auto simp: strncpy_def)

lemma hw_nodes_printable:
  "\<forall>(name, ip, mac) \<in> set ifs. length mac = 6 \<and> length (cstr name) < 32 \<Longrightarrow>
   printable (map (hw_iface_node junk) ifs)"
  by (auto simp: printable_def hw_iface_node_def cstr_short sr_IFACE_NAMELEN_def)

section \<open>Authentication\<close>

text \<open>A key whose first line fills the 64 characters the code hashes.\<close>

definition long_key :: "bytes \<Rightarrow> bool" where
  "long_key key \<longleftrightarrow> 64 \<le> length key \<and> 10 \<notin> set (take 64 key)"

lemma auth_key_buffer_take:
  assumes "long_key key"
  shows "take 64 (auth_key_buffer env key) = take 64 key" "64 \<le> length (auth_key_buffer env key)"
  using assms fgets_line_take [of 64 key]
  by (simp_all add: long_key_def auth_key_buffer_def AUTH_KEY_LEN_def Let_def)

lemma handle_auth_request_eq:
  assumes "auth_key_file env = Some key" "long_key key" "length (Message_Block (sha1_junk env)) = 64"
    and "8 + length salt \<le> 10000" "0 \<in> set (user sr)"
  shows "sr_handle_auth_request env sr (message_buffer VNS_AUTH_REQUEST salt) =
    (let m = auth_reply_message (cstr (user sr)) (fips_sha1 (salt @ take 64 key)) in
     Inr (sock_write sr m = int (length m), sr\<lparr>written := written sr @ [m]\<rparr>))"
proof -
  let ?n = "word_of_nat (8 + length salt) :: u32"
  let ?buf = "message_buffer VNS_AUTH_REQUEST salt"
  let ?k = "auth_key_buffer env key"
  have ne: "key \<noteq> []"
    using assms(2) by (auto simp: long_key_def)
  have ld: "load ?buf 0 8 = Inr (bytes32 (htonl ?n) @ bytes32 VNS_AUTH_REQUEST)" and dr: "drop 8 ?buf = salt"
    by (simp_all add: message_buffer_def slice_def del: of_nat_add)
  have nth: "le32 ((bytes32 w @ x) ! 0) ((bytes32 w @ x) ! Suc 0) ((bytes32 w @ x) ! 2) ((bytes32 w @ x) ! 3) = w"
    for w x
    using le32_nth_bytes32 [of w] by (simp add: nth_append)
  have n: "unat (?n - 8) = length salt"
    using assms(4) by (simp add: unat_of_nat take_bit_nat_eq_self)
  have l1: "8 * (length ([] :: bytes) + unat (?n - 8)) < 2 ^ 64" "unat (?n - 8) \<le> length salt"
    using assms(4) n by simp_all
  obtain c1 where i1: "SHA1Input (SHA1Reset (sha1_junk env)) salt (?n - 8) = Inr c1" and a1: "absorbed c1 salt"
    using input_absorbed [OF reset_absorbed [OF assms(3)] l1] n by auto
  have n2: "unat (word_of_nat AUTH_KEY_LEN :: u32) = 64"
    by (simp add: AUTH_KEY_LEN_def)
  have l2: "8 * (length salt + unat (word_of_nat AUTH_KEY_LEN :: u32)) < 2 ^ 64"
    "unat (word_of_nat AUTH_KEY_LEN :: u32) \<le> length ?k"
    using assms(4) auth_key_buffer_take(2) [OF assms(2)] by (simp_all add: n2)
  obtain c2 where i2: "SHA1Input c1 ?k (word_of_nat AUTH_KEY_LEN) = Inr c2"
    and a2: "absorbed c2 (salt @ take 64 key)"
    using input_absorbed [OF a1 l2] unfolding n2 auth_key_buffer_take(1) [OF assms(2)] by blast
  have "8 * length (salt @ take 64 key) < 2 ^ 64"
    using assms(4) by simp
  from result_absorbed [OF a2 this] obtain c3 where
    r: "SHA1Result c2 = Inr (True, c3)" "Message_Digest c3 = fips_sha1 (salt @ take 64 key)"
    by blast
  have name: "string_at (user sr) = Inr (cstr (user sr))"
    using assms(5) by (simp add: string_at_def)
  show ?thesis
    unfolding sr_handle_auth_request_def offsets(6) assms(1) option.case if_not_P [OF ne] ld bindE_Inr Let_def dr
    by (simp only: One_nat_def nth htonl_htonl i1 i2 bindE_Inr r prod.case simp_thms if_False if_True name)
qed

section \<open>End of file\<close>

lemma rx_loop_short:
  "length acc + length stream < n \<Longrightarrow> RxError \<notin> set evs \<Longrightarrow> rx_loop n acc stream evs = Rx_blocked"
proof (induction n acc stream evs rule: rx_loop.induct)
  case (2 n acc stream ev evs)
  then show ?case
    by (cases ev) (auto simp: Let_def)
qed simp

section \<open>The frames of a session\<close>

text \<open>What the client does with a frame that arrives for an interface, and with a sequence of them.\<close>

definition handle_frame :: "nat \<Rightarrow> sr_instance \<Rightarrow> bytes \<times> bytes \<Rightarrow> sr_instance res" where
  "handle_frame depth sr = (\<lambda>(name, d).
     bindE (sr_arp_req_not_for_us sr d (length d) name) (\<lambda>skip.
       if skip then Inr sr
       else bindE (sr_log_packet sr d (word_of_nat (length d))) (\<lambda>sr.
         sr_handlepacket depth sr d (length d) name)))"

fun handle_frames :: "nat \<Rightarrow> sr_instance \<Rightarrow> (bytes \<times> bytes) list \<Rightarrow> sr_instance res" where
  "handle_frames depth sr [] = Inr sr"
| "handle_frames depth sr (f # fs) = bindE (handle_frame depth sr f) (\<lambda>sr. handle_frames depth sr fs)"

definition wire_ok :: "bytes \<times> bytes \<Rightarrow> bool" where
  "wire_ok = (\<lambda>(name, d). length (cstr name) < 16 \<and> 24 + length d \<le> 10000)"

definition wire :: "(bytes \<times> bytes) list \<Rightarrow> bytes" where
  "wire fs = concat (map (\<lambda>(name, d). packet_message name d) fs)"

definition fresh_memory :: "sr_instance \<Rightarrow> bool" where
  "fresh_memory sr \<longleftrightarrow> (\<forall>n. length (heap_junk sr n) = n)"

lemma log_evolves: "sr_log_packet sr b n = Inr sr' \<Longrightarrow> evolves sr sr'"
  using log_frames log_only frames_evolves by metis

lemma handle_frame_evolves:
  assumes "arp_inv (cache sr)" "wire_ok f"
  shows "ensures (handle_frame depth sr f) (evolves sr)"
proof -
  obtain name d where f: "f = (name, d)" "length d < 2 ^ 31"
    using assms(2) by (cases f) (auto simp: wire_ok_def)
  have "evolves sr sr2" if "sr_log_packet sr d n = Inr sr1" "sr_handlepacket depth sr1 d (length d) name = Inr sr2"
    for sr1 sr2 n
    using that ensuresD [OF handlepacket_evolves [OF evolves_inv [OF log_evolves assms(1)] f(2)]]
      log_evolves evolves_trans by blast
  then show ?thesis
    unfolding f(1) handle_frame_def prod.case by (auto simp: ensures_def bindE_eq_Inr split: if_splits)
qed

lemma read_frame:
  assumes "rx_stream env = packet_message name d @ later" "live (rx_events env) (24 + length d + m)"
    and "wire_ok (name, d)" "fresh_memory sr"
  shows "\<exists>evs'. live evs' m \<and> sr_read_from_server depth env sr =
    bindE (handle_frame depth sr (name, d)) (\<lambda>sr'. Inr (1, sr', env\<lparr>rx_stream := later, rx_events := evs'\<rparr>))"
proof -
  let ?body = "strncpy 16 name @ d"
  have len: "8 + length ?body = 24 + length d" "8 + length ?body \<le> 10000" "length (cstr name) < 16"
    using assms(3) by (simp_all add: wire_ok_def)
  have "rx_stream env = vns_message VNSPACKET ?body @ later" "live (rx_events env) (8 + length ?body + m)"
    using assms(1,2) len(1) by (simp_all only: packet_message_eq)
  from read_message [OF this len(2), of sr depth 0] assms(4) obtain evs' where "live evs' m"
    and r: "sr_read_from_server depth env sr = vns_dispatch depth (env\<lparr>rx_stream := later, rx_events := evs'\<rparr>)
      sr (message_buffer VNSPACKET ?body) (int (24 + length d)) VNSPACKET"
    unfolding fresh_memory_def sr_read_from_server_def len(1) Let_def by auto
  have "vns_packet depth sr (message_buffer VNSPACKET ?body) (int (24 + length d)) = handle_frame depth sr (name, d)"
    using vns_packet_message [OF len(3)] assms(3) by (simp add: wire_ok_def handle_frame_def)
  with r \<open>live evs' m\<close> show ?thesis
    unfolding vns_dispatch_def by (intro exI [of _ evs']) simp
qed

lemma read_close:
  assumes "rx_stream env = vns_message VNSCLOSE body @ later" "live (rx_events env) (8 + length body + m)"
    and "8 + length body \<le> 10000" "0 \<in> set body" "fresh_memory sr"
  shows "\<exists>evs'. sr_read_from_server_expect depth e env sr = Inr (0, sr, env\<lparr>rx_stream := later, rx_events := evs'\<rparr>)"
proof -
  have "string_at (drop error_message_at (message_buffer VNSCLOSE body)) = Inr (cstr body)"
    using assms(4) by (simp add: message_buffer_def string_at_def)
  then show ?thesis
    using read_message [OF assms(1-3), of sr depth e] assms(5)
    unfolding fresh_memory_def Let_def vns_dispatch_def by (auto simp: vns_consts)
qed

lemma main_loop_frames:
  assumes "\<forall>f \<in> set fs. wire_ok f" "8 + length body \<le> 10000 \<and> 0 \<in> set body"
    and "rx_stream env = wire fs @ vns_message VNSCLOSE body @ later"
    and "live (rx_events env) (length (wire fs) + (8 + length body))"
    and "arp_inv (cache sr)" "fresh_memory sr" "handle_frames depth sr fs = Inr sr'" "length fs < fuel"
  shows "\<exists>evs'. sr_main_loop fuel depth env sr = Inr (0, sr', env\<lparr>rx_stream := later, rx_events := evs'\<rparr>)"
  using assms
proof (induction fs arbitrary: fuel env sr)
  case Nil
  then obtain fuel' where "fuel = Suc fuel'"
    by (cases fuel) auto
  with Nil read_close [of env body later 0 sr depth 0] show ?case
    by (auto simp: wire_def sr_read_from_server_def)
next
  case (Cons f fs)
  obtain name d where f: "f = (name, d)"
    by (cases f)
  from Cons.prems(8) obtain fuel' where fuel: "fuel = Suc fuel'" "length fs < fuel'"
    by (cases fuel) auto
  from Cons.prems(7) obtain sr1 where h: "handle_frame depth sr f = Inr sr1" "handle_frames depth sr1 fs = Inr sr'"
    by (auto simp: bindE_eq_Inr)
  have ev: "evolves sr sr1"
    using ensuresD [OF handle_frame_evolves [OF Cons.prems(5), of f depth] h(1)] Cons.prems(1) by simp
  let ?m = "length (wire fs) + (8 + length body)"
  let ?later = "wire fs @ vns_message VNSCLOSE body @ later"
  have w: "wire_ok (name, d)" "rx_stream env = packet_message name d @ ?later"
    "length (wire (f # fs)) = 24 + length d + length (wire fs)"
    using Cons.prems(1,3) f
    by (simp_all add: wire_def packet_message_def enc_packet_header_def)
  then have "live (rx_events env) (24 + length d + ?m)"
    using Cons.prems(4) by (simp add: add.assoc)
  from read_frame [OF w(2) this w(1) Cons.prems(6), of depth] obtain evs1 where "live evs1 ?m"
    and r: "sr_read_from_server depth env sr = Inr (1, sr1, env\<lparr>rx_stream := ?later, rx_events := evs1\<rparr>)"
    using h(1) f by auto
  have "\<exists>evs'. sr_main_loop fuel' depth (env\<lparr>rx_stream := ?later, rx_events := evs1\<rparr>) sr1
      = Inr (0, sr', (env\<lparr>rx_stream := ?later, rx_events := evs1\<rparr>)\<lparr>rx_stream := later, rx_events := evs'\<rparr>)"
    using \<open>live evs1 ?m\<close> Cons.prems h(2) fuel(2) evolves_inv [OF ev] evolves_fields(4) [OF ev]
    by (intro Cons.IH) (simp_all add: fresh_memory_def)
  with r fuel(1) show ?case
    by simp
qed

section \<open>Opening a session\<close>

text \<open>The two messages a session is opened with when no template is asked for.\<close>

definition opening_messages :: "sr_instance \<Rightarrow> bytes \<Rightarrow> bytes \<Rightarrow> bytes list" where
  "opening_messages sr salt key =
     [auth_reply_message (cstr (user sr)) (fips_sha1 (salt @ take 64 key)),
      enc_open \<lparr>op_topoID = htons (topo_id sr), op_host = strncpy IDSIZE (host sr),
        op_uid = strncpy IDSIZE (user sr)\<rparr>]"

lemma read_auth_request:
  assumes "rx_stream env = vns_message VNS_AUTH_REQUEST salt @ later"
    and "live (rx_events env) (8 + length salt + m)" "8 + length salt \<le> 10000"
    and "auth_key_file env = Some key" "long_key key" "length (Message_Block (sha1_junk env)) = 64"
    and "\<forall>b. sock_write sr b = int (length b)" "\<forall>n. length (heap_junk sr n) = n" "0 \<in> set (user sr)"
  shows "\<exists>evs'. live evs' m \<and> sr_read_from_server_expect depth VNS_AUTH_REQUEST env sr
    = Inr (1, sr\<lparr>written := written sr @ [auth_reply_message (cstr (user sr)) (fips_sha1 (salt @ take 64 key))]\<rparr>,
        env\<lparr>rx_stream := later, rx_events := evs'\<rparr>)"
proof -
  obtain evs' where l: "live evs' m"
    and r: "sr_read_from_server_expect depth VNS_AUTH_REQUEST env sr
      = vns_dispatch depth (env\<lparr>rx_stream := later, rx_events := evs'\<rparr>) sr
          (message_buffer VNS_AUTH_REQUEST salt) (int (8 + length salt)) VNS_AUTH_REQUEST"
    using read_message [OF assms(1-3), of sr depth VNS_AUTH_REQUEST] assms(8) by (auto simp: Let_def)
  moreover have "vns_dispatch depth (env\<lparr>rx_stream := later, rx_events := evs'\<rparr>) sr
      (message_buffer VNS_AUTH_REQUEST salt) (int (8 + length salt)) VNS_AUTH_REQUEST
    = Inr (1, sr\<lparr>written := written sr @ [auth_reply_message (cstr (user sr)) (fips_sha1 (salt @ take 64 key))]\<rparr>,
        env\<lparr>rx_stream := later, rx_events := evs'\<rparr>)"
    using handle_auth_request_eq [of "env\<lparr>rx_stream := later, rx_events := evs'\<rparr>" key salt sr] assms(3-7,9)
    by (simp add: vns_dispatch_def Let_def) (simp add: vns_consts)
  ultimately show ?thesis
    by auto
qed

lemma read_auth_status:
  assumes "rx_stream env = vns_message VNS_AUTH_STATUS (ok # msg) @ later"
    and "live (rx_events env) (9 + length msg + m)" "9 + length msg \<le> 10000" "ok \<noteq> 0"
    and "\<forall>n. length (heap_junk sr n) = n" "0 \<in> set (user sr)"
  shows "\<exists>evs'. live evs' m \<and> sr_read_from_server_expect depth VNS_AUTH_STATUS env sr
    = Inr (1, sr, env\<lparr>rx_stream := later, rx_events := evs'\<rparr>)"
proof -
  have "live (rx_events env) (8 + length (ok # msg) + m)" "8 + length (ok # msg) \<le> 10000"
    using assms(2,3) by simp_all
  from read_message [OF assms(1) this, of sr depth VNS_AUTH_STATUS] assms(5) obtain evs' where "live evs' m"
    and r: "sr_read_from_server_expect depth VNS_AUTH_STATUS env sr
      = vns_dispatch depth (env\<lparr>rx_stream := later, rx_events := evs'\<rparr>) sr
          (message_buffer VNS_AUTH_STATUS (ok # msg)) (int (8 + length (ok # msg))) VNS_AUTH_STATUS"
    by (auto simp: Let_def)
  moreover have "load (message_buffer VNS_AUTH_STATUS (ok # msg)) 8 1 = Inr [ok]"
    by (simp add: message_buffer_def slice_def)
  ultimately show ?thesis
    using assms(4,6)
    by (intro exI [of _ evs']) (simp add: vns_dispatch_def sr_handle_auth_status_def string_at_def, simp add: vns_consts)
qed

lemma connect_session:
  assumes "server_up env port server" "string_at (template sr) = Inr []" "0 \<in> set (user sr)"
    and "rx_stream env = vns_message VNS_AUTH_REQUEST salt @ vns_message VNS_AUTH_STATUS (ok # msg) @ later"
    and "live (rx_events env) (8 + length salt + (9 + length msg + m))"
    and "8 + length salt \<le> 10000" "9 + length msg \<le> 10000" "ok \<noteq> 0"
    and "auth_key_file env = Some key" "long_key key" "length (Message_Block (sha1_junk env)) = 64"
    and "\<forall>b. sock_write sr b = int (length b)" "\<forall>n. length (heap_junk sr n) = n"
  shows "\<exists>evs'. live evs' m \<and> sr_connect_to_server depth env sr port server
    = Inr (0, sr\<lparr>sockfd := new_socket env, written := written sr @ opening_messages sr salt key\<rparr>,
        env\<lparr>rx_stream := later, rx_events := evs'\<rparr>)"
proof -
  let ?start = "sr\<lparr>sockfd := new_socket env\<rparr>"
  let ?sr = "?start\<lparr>written := written sr @ [auth_reply_message (cstr (user sr)) (fips_sha1 (salt @ take 64 key))]\<rparr>"
  let ?later = "vns_message VNS_AUTH_STATUS (ok # msg) @ later"
  obtain evs1 where l1: "live evs1 (9 + length msg + m)"
    and r1: "sr_read_from_server_expect depth VNS_AUTH_REQUEST env ?start
      = Inr (1, ?sr, env\<lparr>rx_stream := ?later, rx_events := evs1\<rparr>)"
    using read_auth_request [OF assms(4,5,6,9-11), of ?start depth] assms(3,12,13) by auto
  obtain evs2 where "live evs2 m"
    and "sr_read_from_server_expect depth VNS_AUTH_STATUS (env\<lparr>rx_stream := ?later, rx_events := evs1\<rparr>) ?sr
      = Inr (1, ?sr, env\<lparr>rx_stream := later, rx_events := evs2\<rparr>)"
    using read_auth_status [of "env\<lparr>rx_stream := ?later, rx_events := evs1\<rparr>" ok msg later m ?sr depth]
      l1 assms(3,7,8,13) by auto
  moreover have template: "cstr (template sr) = []"
    using assms(2) by (simp add: string_at_def split: if_splits)
  ultimately show ?thesis
    using assms(1,2,12) r1 template
    by (intro exI [of _ evs2])
       (simp add: connect_server_up negotiate_def open_message_def Let_def opening_messages_def)
qed

end
