(* ===== verification/Vns_Properties.thy ===== *)
theory Vns_Properties
  imports Vns_Handlers Sample_Facts
begin

text \<open>
  The connection to the server: messages are read the same however the bytes arrive, frames reach the
  packet handler in order, and the handlers of the session messages do what the protocol asks for.
\<close>

section \<open>A concrete server\<close>

definition sample_env :: "bytes \<Rightarrow> vns_env" where
  "sample_env stream = \<lparr>rx_stream = stream, rx_events = replicate 200 (Ready 9),
     auth_key_file = Some (replicate 64 75), fopen_w = (\<lambda>_. True), files = [],
     if_junk = \<lparr>if_name = [], if_addr = replicate 6 0, if_ip = 0, if_speed = 0\<rparr>,
     stack_junk = replicate 65 0xA5,
     sha1_junk = \<lparr>Message_Digest = [], Length_Low = 0, Length_High = 0,
       Message_Block = replicate 64 0xA5, Message_Block_Index = 0, Computed = False, Corrupted = False\<rparr>,
     dns = (\<lambda>_. Some [127, 0, 0, 1]), new_socket = 3, connect_result = (\<lambda>_ _ _. 0), closed_fds = []\<rparr>"

lemma sample_env_simps [simp]: "rx_stream (sample_env stream) = stream"
  "rx_events (sample_env stream) = replicate 200 (Ready 9)" "new_socket (sample_env stream) = 3"
  "auth_key_file (sample_env stream) = Some (replicate 64 75)"
  "length (Message_Block (sha1_junk (sample_env stream))) = 64"
  by (simp_all add: sample_env_def)

lemma sample_up: "server_up (sample_env stream) port server"
  by (simp add: server_up_def sample_env_def)

lemma sample_live: "n \<le> 200 \<Longrightarrow> live (replicate 200 (Ready 9)) n"
  by (simp add: live_def)

lemma sample_memory: "fresh_memory sample_router"
  by (simp add: fresh_memory_def sample_router_def)

section \<open>Frames\<close>

text \<open>
  C23. A session's frames are handled once each, in order: when the server's stream is a sequence of
  packet messages followed by a close message with a terminated text, the main loop ends with status 0 in the state that
  handling the frames one after the other gives, whatever the sizes in which the bytes arrive and
  however often a read is interrupted.
\<close>

theorem session_handles_frames:
  assumes "\<forall>f \<in> set fs. wire_ok f" "8 + length body \<le> 10000 \<and> 0 \<in> set body"
    and "rx_stream env = wire fs @ vns_message VNSCLOSE body @ later"
    and "live (rx_events env) (length (wire fs) + (8 + length body))"
    and "arp_inv (cache sr)" "fresh_memory sr" "handle_frames depth sr fs = Inr sr'" "length fs < fuel"
  shows "\<exists>evs'. sr_main_loop fuel depth env sr = Inr (0, sr', env\<lparr>rx_stream := later, rx_events := evs'\<rparr>)"
  using assms by (rule main_loop_frames)

lemma session_handles_frames_witness:
  "\<exists>evs'. sr_main_loop 3 1 (sample_env (wire [(eth_name 3, [1, 2, 3]), (eth_name 1, replicate 20 7)]
      @ vns_message VNSCLOSE [0] @ [])) sample_router
    = Inr (0, sample_router, (sample_env (wire [(eth_name 3, [1, 2, 3]), (eth_name 1, replicate 20 7)]
      @ vns_message VNSCLOSE [0] @ []))\<lparr>rx_stream := [], rx_events := evs'\<rparr>)"
proof (rule session_handles_frames)
  let ?fs = "[(eth_name 3, [1, 2, 3]), (eth_name 1, replicate 20 7)]"
  have "length (wire ?fs) = 71"
    by (simp add: wire_def packet_message_def enc_packet_header_def)
  then show "live (rx_events (sample_env (wire ?fs @ vns_message VNSCLOSE [0] @ []))) (length (wire ?fs) + (8 + length [0 :: u8]))"
    using sample_live by simp
  have "\<forall>k. length (cstr (eth_name k)) < 16"
    by (simp add: eth_name_def cstr_strncpy sr_IFACE_NAMELEN_def)
  then show "\<forall>f \<in> set ?fs. wire_ok f"
    by (simp add: wire_ok_def)
  have "logfile sample_router = None"
    by (simp add: sample_router_def)
  moreover have "sr_handlepacket 1 sample_router (replicate 20 7) 20 (eth_name 1) = Inr sample_router"
  proof -
    have "read_eth (replicate 20 7) = Inr (dec_eth (replicate 14 7))"
      by (simp add: read_eth_def read_struct_Inr slice_def sizeof_eth_def)
    moreover have "ntohs (ether_type (dec_eth (replicate 14 7))) = 0x0707"
      by code_simp
    ultimately show ?thesis
      by (simp add: sr_handlepacket_def proto_consts sizeof_eth_def Let_def)
  qed
  ultimately show "handle_frames 1 sample_router ?fs = Inr sample_router"
    by (simp add: handle_frame_def sr_arp_req_not_for_us_def sr_log_packet_def sizeof_defs)
       (simp add: sr_handlepacket_def sizeof_eth_def)
qed (simp_all add: sample_arp_inv sample_memory)



text \<open>
  The filter in front of the packet handler drops exactly the ARP requests that ask for another
  address than the receiving interface's.
\<close>

lemma arp_filter_exact:
  assumes "sr_get_interface (if_list sr) name = Some i" "wf_eth e" "wf_arp a"
  shows "sr_arp_req_not_for_us sr (arp_frame e a p) (length (arp_frame e a p)) name
    = Inr (ether_type e = htons ethertype_arp \<and> ar_op a = htons arp_op_request \<and> ar_tip a \<noteq> if_ip i)
   \<and> (length b < sizeof_eth + sizeof_arp \<longrightarrow> sr_arp_req_not_for_us sr b (length b) name = Inr False)"
  using assms by (simp add: sr_arp_req_not_for_us_def frame_access)

lemma arp_filter_exact_witness:
  "sr_arp_req_not_for_us sample_router
     (arp_frame \<lparr>ether_dhost = eth_mac 3, ether_shost = host_mac 9, ether_type = htons ethertype_arp\<rparr>
        \<lparr>ar_hrd = 0, ar_pro = 0, ar_hln = 6, ar_pln = 4, ar_op = htons arp_op_request, ar_sha = host_mac 9,
         ar_sip = 1, ar_tha = host_mac 0, ar_tip = 5\<rparr> [])
     (length (arp_frame \<lparr>ether_dhost = eth_mac 3, ether_shost = host_mac 9, ether_type = htons ethertype_arp\<rparr>
        \<lparr>ar_hrd = 0, ar_pro = 0, ar_hln = 6, ar_pln = 4, ar_op = htons arp_op_request, ar_sha = host_mac 9,
         ar_sip = 1, ar_tha = host_mac 0, ar_tip = 5\<rparr> [])) (eth_name 3) = Inr (5 \<noteq> ip4 10 0 1 1)"
  using arp_filter_exact [of sample_router "eth_name 3" "eth_if 3 (ip4 10 0 1 1)"
      "\<lparr>ether_dhost = eth_mac 3, ether_shost = host_mac 9, ether_type = htons ethertype_arp\<rparr>"
      "\<lparr>ar_hrd = 0, ar_pro = 0, ar_hln = 6, ar_pln = 4, ar_op = htons arp_op_request, ar_sha = host_mac 9,
         ar_sip = 1, ar_tha = host_mac 0, ar_tip = 5\<rparr>" "[]"]
  by (simp add: sample_route_facts wf_eth_def wf_arp_def eth_mac_def host_mac_def del: length_arp_frame)

section \<open>Malformed streams\<close>



text \<open>
  While a particular message is awaited, any other message but a close is read whole and refused:
  the reader returns -1 and no handler runs.
\<close>

lemma unexpected_command_rejected:
  assumes "rx_stream env = vns_message t body @ later" "live (rx_events env) (8 + length body)"
    and "8 + length body \<le> 10000" "\<forall>n. length (heap_junk sr n) = n" "e \<noteq> 0" "t \<noteq> e" "t \<noteq> VNSCLOSE"
  shows "\<exists>evs'. sr_read_from_server_expect depth e env sr = Inr (- 1, sr, env\<lparr>rx_stream := later, rx_events := evs'\<rparr>)"
  using read_message [OF assms(1), of 0 sr depth e] assms(2-7) by (auto simp: Let_def)

lemma unexpected_command_rejected_witness:
  "\<exists>evs'. sr_read_from_server_expect 1 VNS_AUTH_REQUEST (sample_env (vns_message VNSBANNER [65] @ [])) sample_router
    = Inr (- 1, sample_router, (sample_env (vns_message VNSBANNER [65] @ []))\<lparr>rx_stream := [], rx_events := evs'\<rparr>)"
proof (rule unexpected_command_rejected)
  show "\<forall>n. length (heap_junk sample_router n) = n"
    using sample_memory by (simp add: fresh_memory_def)
  show "VNS_AUTH_REQUEST \<noteq> 0" "VNSBANNER \<noteq> VNS_AUTH_REQUEST" "VNSBANNER \<noteq> VNSCLOSE"
    by (simp_all add: vns_consts)
  show "live (rx_events (sample_env (vns_message VNSBANNER [65] @ []))) (8 + length [65 :: u8])"
    "8 + length [65 :: u8] \<le> 10000"
    by (simp_all add: sample_live)
qed simp

text \<open>
  When the server closes the connection in the middle of a length field, the reader never returns:
  however many reads are made, all of them empty or interrupted after the last byte, it is still
  waiting.
\<close>

lemma eof_not_noticed:
  assumes "length (rx_stream env) < 4" "RxError \<notin> set (rx_events env)"
  shows "sr_read_from_server depth env sr = Inl Blocked"
  using rx_loop_short [of "[]" "rx_stream env" 4] assms
  by (simp add: sr_read_from_server_def sr_read_from_server_expect_def)

lemma eof_not_noticed_witness:
  "sr_read_from_server 1 ((sample_env [0, 0])\<lparr>rx_events := replicate 1000000 (Ready 4)\<rparr>) sample_router = Inl Blocked"
  by (rule eof_not_noticed) simp_all

section \<open>Session messages\<close>

text \<open>
  A hardware message that lists interfaces, each as a name, an IP address and a MAC address, adds
  exactly these interfaces to the router, in order, behind those it had.
\<close>

lemma hwinfo_builds_interfaces:
  assumes "\<forall>(name, ip, mac) \<in> set ifs. length mac = 6 \<and> length (cstr name) < 32"
    and "length ifs \<le> 92" "printable (if_list sr)"
  shows "sr_handle_hwinfo junk sr (message_buffer VNSHWINFO (concat (map enc_hw_entry (concat (map hw_iface_entries ifs)))))
    = Inr (int (3 * length ifs), sr\<lparr>if_list := if_list sr @ map (\<lambda>(name, ip, mac).
        junk\<lparr>if_name := strncpy sr_IFACE_NAMELEN name, if_ip := ip, if_addr := mac\<rparr>) ifs\<rparr>)"
proof -
  have "\<forall>(name, ip, mac) \<in> set ifs. length mac = 6"
    using assms(1) by blast
  note steps = hw_ifaces_steps [OF this, of junk "if_list sr"]
  have "printable (if_list sr @ map (hw_iface_node junk) ifs)"
    using assms(3) hw_nodes_printable [OF assms(1), of junk] by (auto simp: printable_def)
  with handle_hwinfo_entries [of "concat (map hw_iface_entries ifs)" junk sr] steps show ?thesis
    using assms(2) hw_ifaces_length [of ifs] by (simp add: hw_iface_node_def)
qed

lemma hwinfo_builds_interfaces_witness:
  "sr_handle_hwinfo (eth_if 0 0) sample_router (message_buffer VNSHWINFO (concat (map enc_hw_entry
      (concat (map hw_iface_entries [([101], 7, host_mac 1)])))))
    = Inr (3, sample_router\<lparr>if_list := if_list sample_router @
        [(eth_if 0 0)\<lparr>if_name := strncpy sr_IFACE_NAMELEN [101], if_ip := 7, if_addr := host_mac 1\<rparr>]\<rparr>)"
proof -
  have "printable (if_list sample_router)"
    using sample_config [of "cache sample_router"] by (simp add: config_ok_def)
  then show ?thesis
    using hwinfo_builds_interfaces [of "[([101], 7, host_mac 1)]" sample_router "eth_if 0 0"]
    by (simp add: host_mac_def)
qed

end
