(* ===== verification/Startup.thy ===== *)
theory Startup
  imports Vns_Comm Routing_File
begin

text \<open>
  \<^verbatim>\<open>main\<close> of \<^verbatim>\<open>sr_main.c\<close>: the command line, the instance, the routing table, the session, the loop.

  \<open>boot\<close> is what the system supplies: the readable files (before the session writes any), the name the
  password database has for the user, whether the log file can be opened, and what the stack holds in
  the arrays of the two calls of \<^verbatim>\<open>sr_load_rt\<close>.  The options are what \<^verbatim>\<open>getopt\<close> returns, with their
  arguments; the server's name and port only reach \<^verbatim>\<open>connect\<close>.
\<close>

record boot =
  disk :: "bytes \<Rightarrow> bytes option"
  pw_name :: "bytes option"
  log_opens :: bool
  stack1 :: "bytes list"
  stack2 :: "bytes list"

section \<open>The command line\<close>

record options =
  opt_host :: bytes
  opt_user :: "bytes option"
  opt_server :: bytes
  opt_rtable :: bytes
  opt_template :: "bytes option"
  opt_port :: u32
  opt_topo :: u32
  opt_logfile :: "bytes option"

definition default_options :: options where
  "default_options =
     \<lparr>opt_host = ascii ''vrhost'', opt_user = None, opt_server = ascii ''localhost'',
      opt_rtable = ascii ''rtable'', opt_template = None, opt_port = 8888, opt_topo = 0,
      opt_logfile = None\<rparr>"

text \<open>One turn of the \<^verbatim>\<open>getopt\<close> loop; \<open>None\<close> is the exit after the usage message.\<close>

definition option_step :: "u8 \<Rightarrow> bytes \<Rightarrow> options \<Rightarrow> options option" where
  "option_step c optarg o1 =
     (if c = 104 then None
      else Some
        (if c = 112 then o1\<lparr>opt_port := word_of_int (atoi optarg)\<rparr>
         else if c = 116 then o1\<lparr>opt_topo := word_of_int (atoi optarg)\<rparr>
         else if c = 118 then o1\<lparr>opt_host := optarg\<rparr>
         else if c = 117 then o1\<lparr>opt_user := Some optarg\<rparr>
         else if c = 115 then o1\<lparr>opt_server := optarg\<rparr>
         else if c = 108 then o1\<lparr>opt_logfile := Some optarg\<rparr>
         else if c = 114 then o1\<lparr>opt_rtable := optarg\<rparr>
         else if c = 84 then o1\<lparr>opt_template := Some optarg\<rparr>
         else o1))"

fun parse_options :: "(u8 \<times> bytes) list \<Rightarrow> options \<Rightarrow> options option" where
  "parse_options [] o1 = Some o1"
| "parse_options ((c, optarg) # args) o1 =
     (case option_step c optarg o1 of None \<Rightarrow> None | Some o2 \<Rightarrow> parse_options args o2)"

text \<open>What \<^verbatim>\<open>usage\<close> prints.\<close>

definition sr_usage :: "bytes \<Rightarrow> bytes" where
  "sr_usage argv0 =
     ascii ''Simple Router Client'' @ [10]
     @ ascii ''Format: '' @ argv0 @ ascii '' [-h] [-v host] [-s server] [-p port] '' @ [10]
     @ ascii ''           [-T template_name] [-u username] '' @ [10]
     @ ascii ''           [-t topo id] [-r routing table] '' @ [10]
     @ ascii ''           [-l log file] '' @ [10]
     @ ascii ''   defaults server='' @ opt_server default_options @ ascii '' port='' @ print_int (uint (opt_port default_options))
     @ ascii '' host='' @ opt_host default_options @ ascii ''  '' @ [10]"

section \<open>Setting up the instance\<close>

text \<open>A step of the start-up goes on with the instance, or exits with a status.\<close>

datatype run = Exits int | Goes_on sr_instance

definition and_then :: "run res \<Rightarrow> (sr_instance \<Rightarrow> run res) \<Rightarrow> run res" where
  "and_then r f = bindE r (\<lambda>x. case x of Exits n \<Rightarrow> Inr (Exits n) | Goes_on sr \<Rightarrow> f sr)"

definition sr_init_instance :: "sr_instance \<Rightarrow> sr_instance" where
  "sr_init_instance sr =
     sr\<lparr>sockfd := - 1, user := (user sr)[0 := 0], host := (host sr)[0 := 0], topo_id := 0,
        if_list := [], routing_table := [], logfile := None\<rparr>"

definition sr_set_user :: "boot \<Rightarrow> sr_instance \<Rightarrow> sr_instance" where
  "sr_set_user bt sr =
     (case pw_name bt of
        None \<Rightarrow> sr\<lparr>user := strncpy 32 (ascii ''something_silly'')\<rparr>
      | Some name \<Rightarrow> sr\<lparr>user := strncpy 32 name\<rparr>)"

text \<open>A file is what the session wrote to it last, or what was on the disk.\<close>

definition file_contents :: "boot \<Rightarrow> vns_env \<Rightarrow> bytes \<Rightarrow> bytes option" where
  "file_contents bt env name =
     (case map_of (rev (files env)) (cstr name) of Some t \<Rightarrow> Some t | None \<Rightarrow> disk bt (cstr name))"

definition sr_load_rt_wrap :: "bytes option \<Rightarrow> bytes list \<Rightarrow> sr_instance \<Rightarrow> run res" where
  "sr_load_rt_wrap contents stack sr =
     bindE (sr_load_rt contents stack (routing_table sr)) (\<lambda>(r, rt).
     if r \<noteq> 0 then Inr (Exits 1)
     else bindE (sr_print_routing_table rt) (\<lambda>_. Inr (Goes_on (sr\<lparr>routing_table := rt\<rparr>))))"

definition open_logfile :: "boot \<Rightarrow> options \<Rightarrow> sr_instance \<Rightarrow> run res" where
  "open_logfile bt o1 sr =
     (case opt_logfile o1 of
        None \<Rightarrow> Inr (Goes_on sr)
      | Some name \<Rightarrow>
        (case sr_dump_open (log_opens bt) name 0 (word_of_int PACKET_DUMP_SIZE) of
           None \<Rightarrow> Inr (Exits 1)
         | Some fp \<Rightarrow> Inr (Goes_on (sr\<lparr>logfile := Some fp\<rparr>))))"

definition sr_setup :: "boot \<Rightarrow> vns_env \<Rightarrow> options \<Rightarrow> sr_instance \<Rightarrow> run res" where
  "sr_setup bt env o1 sr0 =
     (let sr = sr_init_instance sr0 in
      and_then
        (case opt_template o1 of
           None \<Rightarrow> sr_load_rt_wrap (file_contents bt env (opt_rtable o1)) (stack1 bt)
                     (sr\<lparr>template := (template sr)[0 := 0]\<rparr>)
         | Some t \<Rightarrow> Inr (Goes_on (sr\<lparr>template := strncpy 30 t\<rparr>)))
        (\<lambda>sr.
           let sr = sr\<lparr>topo_id := ucast (opt_topo o1), host := strncpy 32 (opt_host o1)\<rparr>;
               sr = (case opt_user o1 of
                       None \<Rightarrow> sr_set_user bt sr
                     | Some u \<Rightarrow> sr\<lparr>user := strncpy 32 u\<rparr>)
           in open_logfile bt o1 sr))"

section \<open>The session\<close>

text \<open>The exit status, and the state at the end when there was a connection.\<close>

type_synonym outcome = "int \<times> (sr_instance \<times> vns_env) option"

definition table_name :: "options \<Rightarrow> bytes" where
  "table_name o1 =
     (if opt_template o1 \<noteq> None \<and> cstr (opt_rtable o1) = ascii ''rtable.vrhost''
      then ascii ''rtable.vrhost'' else opt_rtable o1)"

definition sr_session ::
    "nat \<Rightarrow> nat \<Rightarrow> boot \<Rightarrow> vns_env \<Rightarrow> options \<Rightarrow> sr_instance \<Rightarrow> outcome res" where
  "sr_session fuel depth bt env o1 sr =
     bindE (string_at (user sr)) (\<lambda>_.
     bindE (sr_connect_to_server depth env sr (ucast (opt_port o1)) (opt_server o1)) (\<lambda>(r, sr, env).
     if r = - 1 then Inr (1, Some (sr, env))
     else
       bindE (sr_load_rt_wrap (file_contents bt env (table_name o1)) (stack2 bt) sr) (\<lambda>x.
       case x of
         Exits n \<Rightarrow> Inr (n, Some (sr, env))
       | Goes_on sr \<Rightarrow>
           bindE (sr_main_loop fuel depth env (sr_init sr)) (\<lambda>(_, sr, env).
           Inr (0, Some (sr, env))))))"

definition sr_main ::
    "nat \<Rightarrow> nat \<Rightarrow> boot \<Rightarrow> vns_env \<Rightarrow> (u8 \<times> bytes) list \<Rightarrow> sr_instance \<Rightarrow> outcome res" where
  "sr_main fuel depth bt env args sr0 =
     (case parse_options args default_options of
        None \<Rightarrow> Inr (0, None)
      | Some o1 \<Rightarrow>
          bindE (sr_setup bt env o1 sr0) (\<lambda>x.
          case x of
            Exits n \<Rightarrow> Inr (n, None)
          | Goes_on sr \<Rightarrow> sr_session fuel depth bt env o1 sr))"

end
