(* ===== verification/Startup_Properties.thy ===== *)
theory Startup_Properties
  imports Startup Vns_Properties
begin

text \<open>
  Reading the routing table back, and a whole run of the router: from the command line through
  authentication, the interfaces and the frames to the exit.
\<close>

section \<open>The table file\<close>

text \<open>
  C38. A routing table printed by \<^verbatim>\<open>sr_print_routing_entry\<close>, one entry after the other, is a file that
  \<^verbatim>\<open>sr_load_rt\<close> reads back as the same table, whatever table there was before and whatever the stack
  holds.
\<close>

theorem table_file_roundtrip:
  assumes "\<forall>e \<in> set rt. route_ok e" "rt \<noteq> []" "four_arrays stack"
  shows "\<exists>contents. print_entries rt = Inr contents \<and> sr_load_rt (Some contents) stack old = Inr (0, rt)"
  using load_printed [OF assms(1,3), of False old] assms(2) by (auto simp: sr_load_rt_def)

lemma sample_route_names: "\<forall>n \<in> set [1, 2, 3]. word_ok (cstr (eth_name n))
    \<and> eth_name n = strncpy sr_IFACE_NAMELEN (cstr (eth_name n))"
  by code_simp

lemma sample_routes_ok: "\<forall>e \<in> set sample_routes. route_ok e" "sample_routes \<noteq> []"
  using sample_route_names by (auto simp: sample_routes_def host_route_def route_ok_def)

definition sample_stack :: "bytes list" where
  "sample_stack = replicate 4 (replicate 32 0xA5)"

lemma sample_stack_ok: "four_arrays sample_stack"
  by (simp add: four_arrays_def sample_stack_def eval_nat_numeral)

lemma table_file_roundtrip_witness:
  "\<exists>contents. print_entries sample_routes = Inr contents
    \<and> sr_load_rt (Some contents) sample_stack [host_route 7 1] = Inr (0, sample_routes)"
  by (rule table_file_roundtrip) (rule sample_routes_ok sample_stack_ok)+

text \<open>
  A blank line in the table file is taken for the entry before it: a printed table followed by an
  empty line is read with its last route twice.
\<close>

lemma blank_line_repeats_route:
  assumes "\<forall>e \<in> set rt. route_ok e" "rt \<noteq> []" "four_arrays stack" "print_entries rt = Inr contents"
  shows "sr_load_rt (Some (contents @ [10])) stack old = Inr (0, rt @ [last rt])"
proof -
  obtain arrays' where "holds_entry arrays' (last rt)"
    "load_rt_loop stack False old (text_lines (contents @ [10])) = load_rt_loop arrays' True rt (text_lines [10])"
    using load_entries [OF assms(1,3,2)] assms(4) by auto
  then show ?thesis
    by (simp add: sr_load_rt_def load_blank_line holds_entry_def)
qed

lemma blank_line_repeats_route_witness:
  "\<exists>contents. print_entries sample_routes = Inr contents
    \<and> sr_load_rt (Some (contents @ [10])) sample_stack [] = Inr (0, sample_routes @ [host_route server2_ip 2])"
proof -
  obtain contents where c: "print_entries sample_routes = Inr contents"
    using load_printed [OF sample_routes_ok(1) sample_stack_ok, of False "[]"] by auto
  from blank_line_repeats_route [OF sample_routes_ok sample_stack_ok c, of "[]"] c show ?thesis
    by (simp add: sample_routes_def)
qed

section \<open>Setting up\<close>

text \<open>The instance as \<^verbatim>\<open>main\<close> hands it to \<^verbatim>\<open>sr_connect_to_server\<close>, when it is given no template and no log.\<close>

definition configured :: "boot \<Rightarrow> options \<Rightarrow> sr_rt list \<Rightarrow> sr_instance \<Rightarrow> sr_instance" where
  "configured bt o1 rt sr0 =
     (let sr = (sr_init_instance sr0)\<lparr>template := (template sr0)[0 := 0], routing_table := rt,
                 topo_id := ucast (opt_topo o1), host := strncpy 32 (opt_host o1)\<rparr>
      in case opt_user o1 of None \<Rightarrow> sr_set_user bt sr | Some u \<Rightarrow> sr\<lparr>user := strncpy 32 u\<rparr>)"

definition user_name :: "boot \<Rightarrow> options \<Rightarrow> bytes" where
  "user_name bt o1 = (case opt_user o1 of
     Some u \<Rightarrow> u | None \<Rightarrow> (case pw_name bt of Some name \<Rightarrow> name | None \<Rightarrow> ascii ''something_silly''))"

lemma configured_user: "user (configured bt o1 rt sr0) = strncpy 32 (user_name bt o1)"
  by (simp add: configured_def user_name_def sr_set_user_def Let_def split: option.split)

lemma configured_simps [simp]:
  "if_list (configured bt o1 rt sr0) = []" "routing_table (configured bt o1 rt sr0) = rt"
  "template (configured bt o1 rt sr0) = (template sr0)[0 := 0]"
  "sock_write (configured bt o1 rt sr0) = sock_write sr0" "heap_junk (configured bt o1 rt sr0) = heap_junk sr0"
  "written (configured bt o1 rt sr0) = written sr0" "logfile (configured bt o1 rt sr0) = None"
  by (simp_all add: configured_def sr_init_instance_def sr_set_user_def Let_def split: option.split)

lemma routing_table_same: "routing_table sr = rt \<Longrightarrow> sr\<lparr>routing_table := rt\<rparr> = sr"
  by (cases sr) auto

lemma load_wrap:
  assumes "\<forall>e \<in> set rt. route_ok e" "rt \<noteq> []" "four_arrays stack" "print_entries rt = Inr contents"
  shows "sr_load_rt_wrap (Some contents) stack sr = Inr (Goes_on (sr\<lparr>routing_table := rt\<rparr>))"
  using load_printed [OF assms(1,3), of False "routing_table sr"] assms(2,4)
  by (auto simp: sr_load_rt_wrap_def sr_load_rt_def sr_print_routing_table_def)

lemma setup_configured:
  assumes "\<forall>e \<in> set rt. route_ok e" "rt \<noteq> []" "four_arrays (stack1 bt)" "print_entries rt = Inr contents"
    and "opt_template o1 = None" "opt_logfile o1 = None"
    and "file_contents bt env (opt_rtable o1) = Some contents"
  shows "sr_setup bt env o1 sr0 = Inr (Goes_on (configured bt o1 rt sr0))"
  using assms(5-)
  by (simp add: sr_setup_def Let_def load_wrap [OF assms(1-4)] and_then_def open_logfile_def
      configured_def sr_init_instance_def sr_set_user_def split: option.split)

text \<open>
  \<^verbatim>\<open>strncpy(sr.user, user, 32)\<close> leaves a name of 32 characters or more without a terminator: the next
  \<^verbatim>\<open>Debug\<close> reads beyond the array.
\<close>

lemma and_then_Goes_on:
  "and_then m f = Inr (Goes_on sr) \<longleftrightarrow> (\<exists>sr1. m = Inr (Goes_on sr1) \<and> f sr1 = Inr (Goes_on sr))"
proof (cases m)
  case (Inr x)
  then show ?thesis
    by (cases x) (simp_all add: and_then_def)
qed (simp add: and_then_def)

lemma setup_user:
  assumes "sr_setup bt env o1 sr0 = Inr (Goes_on sr)"
  shows "user sr = strncpy 32 (user_name bt o1)"
proof -
  have log: "user sr2 = user sr1" if "open_logfile bt o1 sr1 = Inr (Goes_on sr2)" for sr1 sr2
    using that by (auto simp: open_logfile_def split: option.splits)
  obtain sr1 where "open_logfile bt o1 (case opt_user o1 of None \<Rightarrow> sr_set_user bt sr1
      | Some u \<Rightarrow> sr1\<lparr>user := strncpy 32 u\<rparr>) = Inr (Goes_on sr)"
    using assms unfolding sr_setup_def Let_def and_then_Goes_on by blast
  from log [OF this] show ?thesis
    by (simp add: user_name_def sr_set_user_def split: option.split)
qed

lemma long_user_name_faults:
  assumes "parse_options args default_options = Some o1" "sr_setup bt env o1 sr0 = Inr (Goes_on sr)"
    and "32 \<le> length (cstr (user_name bt o1))"
  shows "sr_main fuel depth bt env args sr0 = Inl OutOfBounds"
  using assms cstr_short [of 32 "user_name bt o1"]
  by (simp add: sr_main_def sr_session_def string_at_def setup_user)

section \<open>The interfaces arrive\<close>

definition hw_body :: "hw_iface list \<Rightarrow> bytes" where
  "hw_body ifs = concat (map enc_hw_entry (concat (map hw_iface_entries ifs)))"

lemma read_hwinfo:
  assumes "rx_stream env = vns_message VNSHWINFO (hw_body ifs) @ later"
    and "live (rx_events env) (8 + length (hw_body ifs) + m)" "\<forall>(name, ip, mac) \<in> set ifs. length mac = 6 \<and> length (cstr name) < 32"
    and "length ifs \<le> 92" "fresh_memory sr" "if_list sr = []"
    and "sr_verify_routing_table (map (hw_iface_node (if_junk env)) ifs) (routing_table sr) = 0"
  shows "\<exists>evs'. live evs' m \<and> sr_read_from_server depth env sr
    = Inr (1, sr\<lparr>if_list := map (hw_iface_node (if_junk env)) ifs\<rparr>,
        env\<lparr>rx_stream := later, rx_events := evs'\<rparr>)"
proof -
  let ?es = "concat (map hw_iface_entries ifs)"
  have "\<forall>(name, ip, mac) \<in> set ifs. length mac = 6"
    using assms(3) by blast
  note steps = hw_ifaces_steps [OF this, of "if_junk env" "[]"]
  have len: "length (hw_body ifs) = 36 * (3 * length ifs)"
    using steps hw_entries_length [of ?es] hw_ifaces_length [of ifs] by (simp add: hw_body_def)
  then have "8 + length (hw_body ifs) \<le> 10000"
    using assms(4) by simp
  from read_message [OF assms(1,2) this, of sr depth 0] assms(5) obtain evs' where "live evs' m"
    and "sr_read_from_server depth env sr
      = vns_dispatch depth (env\<lparr>rx_stream := later, rx_events := evs'\<rparr>) sr
          (message_buffer VNSHWINFO (hw_body ifs)) (int (8 + length (hw_body ifs))) VNSHWINFO"
    by (auto simp: fresh_memory_def Let_def sr_read_from_server_def)
  moreover have "sr_handle_hwinfo (if_junk env) sr (message_buffer VNSHWINFO (hw_body ifs))
      = Inr (int (length ?es), sr\<lparr>if_list := map (hw_iface_node (if_junk env)) ifs\<rparr>)"
    unfolding hw_body_def using handle_hwinfo_entries [of ?es "if_junk env" sr] steps assms(4,6)
      hw_ifaces_length [of ifs] hw_nodes_printable [OF assms(3), of "if_junk env"] by simp
  ultimately show ?thesis
    using assms(7) by (intro exI [of _ evs']) (simp add: vns_dispatch_def, simp add: vns_consts)
qed

section \<open>A whole run\<close>

text \<open>The state in which the first frame is handled.\<close>

definition session_state :: "boot \<Rightarrow> options \<Rightarrow> vns_env \<Rightarrow> sr_rt list \<Rightarrow> hw_iface list \<Rightarrow> bytes \<Rightarrow> bytes
    \<Rightarrow> sr_instance \<Rightarrow> sr_instance" where
  "session_state bt o1 env rt ifs salt key sr0 =
     (let sr = configured bt o1 rt sr0
      in (sr_init (sr\<lparr>sockfd := new_socket env, written := written sr @ opening_messages sr salt key\<rparr>))
           \<lparr>if_list := map (hw_iface_node (if_junk env)) ifs\<rparr>)"

text \<open>The messages of the server, and the reads that deliver them.\<close>

definition server_script :: "bytes \<Rightarrow> u8 \<Rightarrow> bytes \<Rightarrow> hw_iface list \<Rightarrow> (bytes \<times> bytes) list \<Rightarrow> bytes \<Rightarrow> bytes" where
  "server_script salt ok msg ifs fs body =
     vns_message VNS_AUTH_REQUEST salt @ vns_message VNS_AUTH_STATUS (ok # msg)
       @ vns_message VNSHWINFO (hw_body ifs) @ wire fs @ vns_message VNSCLOSE body"

definition script_ok :: "bytes \<Rightarrow> u8 \<Rightarrow> bytes \<Rightarrow> hw_iface list \<Rightarrow> (bytes \<times> bytes) list \<Rightarrow> bytes \<Rightarrow> bool" where
  "script_ok salt ok msg ifs fs body \<longleftrightarrow>
     8 + length salt \<le> 10000 \<and> ok \<noteq> 0 \<and> 9 + length msg \<le> 10000 \<and> length ifs \<le> 92
     \<and> (\<forall>(name, ip, mac) \<in> set ifs. length mac = 6 \<and> length (cstr name) < 32) \<and> (\<forall>f \<in> set fs. wire_ok f)
     \<and> 8 + length body \<le> 10000 \<and> 0 \<in> set body"

lemma session_state_simps [simp]:
  "arp_inv (cache (session_state bt o1 env rt ifs salt key sr0))"
  "heap_junk (session_state bt o1 env rt ifs salt key sr0) = heap_junk sr0"
  by (simp_all add: session_state_def sr_init_def init_inv Let_def)

lemma length_vns_message [simp]: "length (vns_message t body) = 8 + length body"
  by (simp add: vns_message_def)

lemma session_loop:
  assumes "script_ok salt ok msg ifs fs body"
    and "rx_stream env = vns_message VNSHWINFO (hw_body ifs) @ wire fs @ vns_message VNSCLOSE body @ later"
    and "live (rx_events env) (8 + length (hw_body ifs) + (length (wire fs) + (8 + length body)))"
    and "if_list sr = []" "fresh_memory sr" "arp_inv (cache sr)"
    and "sr_verify_routing_table (map (hw_iface_node (if_junk env)) ifs) (routing_table sr) = 0"
    and "handle_frames depth (sr\<lparr>if_list := map (hw_iface_node (if_junk env)) ifs\<rparr>) fs = Inr sr'"
    and "Suc (length fs) < fuel"
  shows "\<exists>evs'. sr_main_loop fuel depth env sr = Inr (0, sr', env\<lparr>rx_stream := later, rx_events := evs'\<rparr>)"
proof -
  let ?later = "wire fs @ vns_message VNSCLOSE body @ later"
  let ?sr = "sr\<lparr>if_list := map (hw_iface_node (if_junk env)) ifs\<rparr>"
  obtain evs1 where l: "live evs1 (length (wire fs) + (8 + length body))"
    and r: "sr_read_from_server depth env sr = Inr (1, ?sr, env\<lparr>rx_stream := ?later, rx_events := evs1\<rparr>)"
    using read_hwinfo [OF assms(2,3), of sr depth] assms(1,4,5,7) by (auto simp: script_ok_def)
  obtain fuel' where fuel: "fuel = Suc fuel'" "length fs < fuel'"
    using assms(9) by (cases fuel) auto
  obtain evs2 where "sr_main_loop fuel' depth (env\<lparr>rx_stream := ?later, rx_events := evs1\<rparr>) ?sr
      = Inr (0, sr', env\<lparr>rx_stream := later, rx_events := evs2\<rparr>)"
    using main_loop_frames [of fs body "env\<lparr>rx_stream := ?later, rx_events := evs1\<rparr>" later ?sr depth sr' fuel']
      assms(1,5,6,8) l fuel(2) by (auto simp: script_ok_def fresh_memory_def)
  then show ?thesis
    using r fuel(1) by (intro exI [of _ evs2]) simp
qed


definition sample_hw :: "hw_iface list" where
  "sample_hw = map (\<lambda>i. (if_name i, if_ip i, if_addr i)) sample_ifs"

definition sample_boot :: boot where
  "sample_boot = \<lparr>disk = (\<lambda>name. if name = ascii ''rtable'' then Some (projr (print_entries sample_routes)) else None),
     pw_name = Some (ascii ''user''), log_opens = False, stack1 = sample_stack, stack2 = sample_stack\<rparr>"

definition sample_script :: bytes where
  "sample_script = server_script [1, 2] 1 [] sample_hw [(eth_name 3, [1, 2, 3])] [0]"

definition sample_session :: vns_env where
  "sample_session = (sample_env (sample_script @ []))\<lparr>rx_events := replicate 1000 (Ready 100)\<rparr>"

lemma sample_contents: "print_entries sample_routes = Inr (projr (print_entries sample_routes))"
  using load_printed [OF sample_routes_ok(1) sample_stack_ok, of False "[]"] by auto

lemma sample_hw_verified:
  "sr_verify_routing_table (map (hw_iface_node (if_junk sample_session)) sample_hw) sample_routes = 0"
  "\<forall>(name, ip, mac) \<in> set sample_hw. length mac = 6 \<and> length (cstr name) < 32" "length sample_hw = 3"
  by code_simp+

lemma sample_script_ok: "script_ok [1, 2] 1 [] sample_hw [(eth_name 3, [1, 2, 3])] [0]"
  using sample_hw_verified(2,3)
  by (simp add: script_ok_def wire_ok_def eth_name_def cstr_strncpy sr_IFACE_NAMELEN_def)

lemma sample_script_length: "length sample_script \<le> 1000"
proof -
  have "\<forall>(name, ip, mac) \<in> set sample_hw. length mac = 6"
    using sample_hw_verified(2) by blast
  then have "length (hw_body sample_hw) = 36 * (3 * length sample_hw)"
    using hw_ifaces_steps hw_entries_length hw_ifaces_length [of sample_hw]
    by (simp add: hw_body_def)
  then show ?thesis
    by (simp add: sample_script_def server_script_def wire_def packet_message_def enc_packet_header_def
        sample_hw_verified(3))
qed


end
