(* ===== verification/Instance_Typing.thy ===== *)
theory Instance_Typing
  imports Startup Router_Invariant Sample
begin

text \<open>
  A typing of the router's state: every array of the instance, of its interfaces, routes, cache entries
  and waiting packets has the size its declaration gives it.  Each operation of the start-up, the session
  and the main loop keeps it, whatever the files hold and the server sends.
\<close>

section \<open>The typing\<close>

definition typed :: "sr_instance \<Rightarrow> bool" where
  "typed sr \<longleftrightarrow> length (user sr) = 32 \<and> length (host sr) = 32 \<and> length (template sr) = 30
     \<and> (\<forall>i \<in> set (if_list sr). wf_if i)
     \<and> (\<forall>e \<in> set (routing_table sr). length (rt_interface e) = sr_IFACE_NAMELEN)
     \<and> (\<forall>n. length (heap_junk sr n) = n)"

text \<open>One step: the typing and the cache's own invariant are kept.\<close>

definition keeps_types :: "sr_instance \<Rightarrow> sr_instance \<Rightarrow> bool" where
  "keeps_types sr sr' \<longleftrightarrow> (typed sr \<longrightarrow> typed sr') \<and> (arp_inv (cache sr) \<longrightarrow> arp_inv (cache sr'))"

lemma keeps_types_refl [simp]: "keeps_types sr sr"
  by (simp add: keeps_types_def)

lemma keeps_types_trans: "keeps_types a b \<Longrightarrow> keeps_types b c \<Longrightarrow> keeps_types a c"
  by (auto simp: keeps_types_def)

lemma keeps_types_evolves: "evolves sr sr' \<Longrightarrow> keeps_types sr sr'"
  by (auto simp: evolves_def keeps_types_def typed_def)

lemma keeps_types_log: "sr_log_packet sr b n = Inr sr' \<Longrightarrow> keeps_types sr sr'"
  by (auto simp: sr_log_packet_def Let_def bindE_eq_Inr keeps_types_def typed_def split: option.splits)

lemma keeps_types_written: "keeps_types sr (sr\<lparr>written := w\<rparr>)"
  by (simp add: keeps_types_def typed_def)

section \<open>Tables\<close>

lemma load_rt_typed:
  assumes "\<forall>e \<in> set rt. length (rt_interface e) = sr_IFACE_NAMELEN"
  shows "ensures (load_rt_loop arrays cleared rt lines)
    (\<lambda>(r, rt'). \<forall>e \<in> set rt'. length (rt_interface e) = sr_IFACE_NAMELEN)"
  using assms
proof (induction arrays cleared rt lines rule: load_rt_loop.induct)
  case (2 arrays cleared rt line lines)
  have "\<forall>e \<in> set (sr_add_rt_entry (if cleared then rt else []) d g m i). length (rt_interface e) = sr_IFACE_NAMELEN"
    for d g m i
    using 2(2) by (simp add: sr_add_rt_entry_def)
  with 2 show ?case
    unfolding load_rt_loop.simps by (intro ensures) auto
qed (simp add: ensures_def)

lemma load_rt_wrap_typed:
  assumes "typed sr"
  shows "ensures (sr_load_rt_wrap contents stack sr)
    (\<lambda>x. case x of Exits n \<Rightarrow> True | Goes_on sr' \<Rightarrow> typed sr' \<and> cache sr' = cache sr)"
proof -
  have "ensures (sr_load_rt contents stack (routing_table sr))
      (\<lambda>(r, rt'). \<forall>e \<in> set rt'. length (rt_interface e) = sr_IFACE_NAMELEN)"
    unfolding sr_load_rt_def using assms
    by (cases contents) (auto simp: typed_def intro: load_rt_typed ensures_Inr)
  then show ?thesis
    unfolding sr_load_rt_wrap_def
    using assms by (auto simp: ensures_def bindE_eq_Inr typed_def split: if_splits)
qed

lemma hw_step_typed:
  assumes "wf_if junk" "\<forall>i \<in> set is. wf_if i" "hw_step junk is e = Inr is'"
  shows "\<forall>i \<in> set is'. wf_if i"
  using assms(2,3) wf_add_interface [OF assms(1,2)] wf_set_ether_addr [OF assms(2)] wf_set_ether_ip [OF assms(2)]
  unfolding hw_step_def by (auto split: if_splits list.splits)

lemma hw_loop_typed:
  assumes "wf_if junk" "\<forall>i \<in> set is. wf_if i" "hw_loop junk buf ids is = Inr is'"
  shows "\<forall>i \<in> set is'. wf_if i"
  using assms(2,3)
proof (induction ids arbitrary: "is")
  case (Cons k ids)
  from Cons.prems(2) obtain e is1 where s: "hw_step junk is e = Inr is1" "hw_loop junk buf ids is1 = Inr is'"
    by (auto simp: bindE_eq_Inr)
  show ?case
    by (rule Cons.IH [OF hw_step_typed [OF assms(1) Cons.prems(1) s(1)] s(2)])
qed simp

lemma hwinfo_typed:
  assumes "wf_if junk" "sr_handle_hwinfo junk sr b = Inr (n, sr')"
  shows "keeps_types sr sr'"
proof -
  obtain buf ids "is'" where h: "hw_loop junk buf ids (if_list sr) = Inr is'" "sr' = sr\<lparr>if_list := is'\<rparr>"
    using assms(2) by (auto simp: sr_handle_hwinfo_def Let_def bindE_eq_Inr)
  with hw_loop_typed [OF assms(1) _ h(1)] show ?thesis
    by (auto simp: keeps_types_def typed_def)
qed

section \<open>The session\<close>

lemma auth_typed:
  assumes "sr_handle_auth_request env sr b = Inr (ok, sr')"
  shows "keeps_types sr sr'"
proof -
  have "\<exists>w. sr' = sr\<lparr>written := w\<rparr>" if "sr' = sr"
    using that by (intro exI [of _ "written sr"]) simp
  then have "\<exists>w. sr' = sr\<lparr>written := w\<rparr>"
    using assms
    by (fastforce simp: sr_handle_auth_request_def Let_def bindE_eq_Inr split: option.splits if_splits prod.splits)
  then show ?thesis
    using keeps_types_written by blast
qed

text \<open>
  The length handed to \<^verbatim>\<open>sr_handlepacket\<close> wraps around for messages shorter than 24 bytes, but those
  fault before.
\<close>

lemma unat_of_int_u32: "unat (word_of_int k :: u32) = nat (k mod 2 ^ 32)"
  by (simp only: unat_eq_nat_uint uint_word_of_int) simp

lemma packet_length_wraps:
  assumes "0 \<le> len" "len < 24"
  shows "unat (word_of_int (len - 38 + 14) :: u32) = nat (len - 24 + 2 ^ 32)"
proof -
  have "(len - 38 + 14) mod 2 ^ 32 = (len - 38 + 14 + 2 ^ 32) mod 2 ^ 32"
    by (rule mod_add_self2 [symmetric])
  also have "\<dots> = len - 24 + 2 ^ 32"
    using assms by (subst mod_pos_pos_trivial) simp_all
  finally show ?thesis
    unfolding unat_of_int_u32 by (rule arg_cong)
qed

lemma packet_length_small:
  "24 \<le> len \<Longrightarrow> len \<le> 10000 \<Longrightarrow> unat (word_of_int (len - 38 + 14) :: u32) < 2 ^ 31"
  unfolding unat_of_int_u32 by (subst mod_pos_pos_trivial) simp_all

lemma arp_req_not_for_us_empty:
  "\<not> plen < sizeof_eth + sizeof_arp \<Longrightarrow> sr_arp_req_not_for_us sr [] plen iface \<noteq> Inr skip"
  by (simp add: sr_arp_req_not_for_us_def read_eth_def read_struct_def load_Inl sizeof_eth_def split: option.split)

lemma vns_packet_result:
  assumes "vns_packet depth sr buf len = Inr sr'"
  obtains "sr' = sr" | sr1 n i where "sr_log_packet sr (drop sizeof_packet_header buf) n = Inr sr1"
    "sr_handlepacket depth sr1 (drop sizeof_packet_header buf) (unat (word_of_int (len - 38 + 14) :: u32)) i = Inr sr'"
proof -
  from assms obtain skip where skip:
    "bindE (sr_arp_req_not_for_us sr (drop sizeof_packet_header buf) (unat (word_of_int (len - 38 + 14) :: u32)) (drop 8 buf))
       (\<lambda>skip. if skip then Inr sr else bindE (load buf 0 4) (\<lambda>l.
           bindE (sr_log_packet sr (drop sizeof_packet_header buf)
                   (ntohl (le32 (l ! 0) (l ! 1) (l ! 2) (l ! 3)) - word_of_nat sizeof_packet_header)) (\<lambda>sr.
           sr_handlepacket depth sr (drop sizeof_packet_header buf) (unat (word_of_int (len - 38 + 14) :: u32)) (drop 8 buf))))
     = Inr sr'"
    by (simp only: vns_packet_def Let_def plen_eq, simp only: offsets)
  then obtain skip where "(if skip then Inr sr else bindE (load buf 0 4) (\<lambda>l.
           bindE (sr_log_packet sr (drop sizeof_packet_header buf)
                   (ntohl (le32 (l ! 0) (l ! 1) (l ! 2) (l ! 3)) - word_of_nat sizeof_packet_header)) (\<lambda>sr.
           sr_handlepacket depth sr (drop sizeof_packet_header buf) (unat (word_of_int (len - 38 + 14) :: u32)) (drop 8 buf))))
     = Inr sr'"
    by (simp only: bindE_eq_Inr) blast
  then show thesis
    using that by (cases skip) (auto simp only: bindE_eq_Inr if_True if_False sum.inject)
qed

lemma vns_packet_typed:
  assumes "arp_inv (cache sr)" "0 \<le> len" "len \<le> 10000" "length buf = nat len"
    and "vns_packet depth sr buf len = Inr sr'"
  shows "keeps_types sr sr'"
proof (cases "len < 24")
  case True
  then have p: "drop sizeof_packet_header buf = []"
    using assms(4) by (simp add: sizeof_packet_header_def)
  have "\<not> unat (word_of_int (len - 38 + 14) :: u32) < sizeof_eth + sizeof_arp"
    using packet_length_wraps [OF assms(2) True] assms(2) by (simp add: sizeof_eth_def sizeof_arp_def)
  from arp_req_not_for_us_empty [OF this] have False
    using assms(5) unfolding vns_packet_def Let_def plen_eq p by (auto simp only: bindE_eq_Inr)
  then show ?thesis ..
next
  case False
  then have small: "unat (word_of_int (len - 38 + 14) :: u32) < 2 ^ 31"
    using assms(3) by (intro packet_length_small) simp_all
  from assms(5) show ?thesis
  proof (cases rule: vns_packet_result)
    case (2 sr1 n i)
    from keeps_types_log [OF 2(1)] have "arp_inv (cache sr1)"
      using assms(1) by (simp add: keeps_types_def)
    from keeps_types_log [OF 2(1)] keeps_types_evolves [OF ensuresD [OF handlepacket_evolves [OF this small] 2(2)]]
    show ?thesis
      by (rule keeps_types_trans)
  qed simp
qed

text \<open>What is kept of the environment.\<close>

definition same_junk :: "vns_env \<Rightarrow> vns_env \<Rightarrow> bool" where
  "same_junk env env' \<longleftrightarrow> if_junk env' = if_junk env"

text \<open>
  A message: the typing is kept, and the cache's invariant when it held; a frame is only handled where it
  did.
\<close>

definition message_types :: "vns_env \<Rightarrow> sr_instance \<Rightarrow> int \<times> sr_instance \<times> vns_env \<Rightarrow> bool" where
  "message_types env sr = (\<lambda>(r, sr', env'). keeps_types sr sr' \<and> if_junk env' = if_junk env)"

lemma rtable_junk: "sr_handle_rtable env b = Inr (ok, env') \<Longrightarrow> if_junk env' = if_junk env"
  by (auto simp: sr_handle_rtable_def Let_def bindE_eq_Inr split: if_splits)

lemma dispatch_typed:
  assumes "wf_if (if_junk env)" "command = VNSPACKET \<Longrightarrow> arp_inv (cache sr)"
    and "0 \<le> len" "len \<le> 10000" "length buf = nat len"
  shows "ensures (vns_dispatch depth env sr buf len command) (message_types env sr)"
proof (rule ensuresI)
  fix x
  assume x: "vns_dispatch depth env sr buf len command = Inr x"
  show "message_types env sr x"
  proof (cases "command = VNSPACKET \<or> command = VNSHWINFO \<or> command = VNS_RTABLE \<or> command = VNS_AUTH_REQUEST")
    case False
    then show ?thesis
      using x by (auto simp: vns_dispatch_def message_types_def bindE_eq_Inr split: if_splits)
  next
    case True
    note codes = VNSPACKET_def VNSHWINFO_def VNS_RTABLE_def VNS_AUTH_REQUEST_def VNSCLOSE_def VNSBANNER_def
    from True consider "command = VNSPACKET" | "command = VNSHWINFO" | "command = VNS_RTABLE"
      | "command = VNS_AUTH_REQUEST" by blast
    then show ?thesis
    proof cases
      case 1
      then obtain sr' where "vns_packet depth sr buf len = Inr sr'" "x = (1, sr', env)"
        using x by (auto simp: vns_dispatch_def bindE_eq_Inr)
      with vns_packet_typed [OF assms(2) [OF 1] assms(3-5)] show ?thesis
        by (simp add: message_types_def)
    next
      case 2
      then obtain n sr' r where "sr_handle_hwinfo (if_junk env) sr buf = Inr (n, sr')" "x = (r, sr', env)"
        using x by (auto simp: vns_dispatch_def bindE_eq_Inr codes split: if_splits)
      with hwinfo_typed [OF assms(1)] show ?thesis
        by (simp add: message_types_def)
    next
      case 3
      then obtain ok env' r where "sr_handle_rtable env buf = Inr (ok, env')" "x = (r, sr, env')"
        using x by (auto simp: vns_dispatch_def bindE_eq_Inr codes)
      with rtable_junk show ?thesis
        by (simp add: message_types_def)
    next
      case 4
      then obtain ok sr' r where "sr_handle_auth_request env sr buf = Inr (ok, sr')" "x = (r, sr', env)"
        using x by (auto simp: vns_dispatch_def bindE_eq_Inr codes)
      with auth_typed show ?thesis
        by (simp add: message_types_def)
    qed
  qed
qed

lemma read_typed:
  assumes "wf_if (if_junk env)" "typed sr" "expected \<in> {0, VNSPACKET} \<Longrightarrow> arp_inv (cache sr)"
  shows "ensures (sr_read_from_server_expect depth expected env sr) (message_types env sr)"
proof (rule ensuresI)
  fix x
  assume x: "sr_read_from_server_expect depth expected env sr = Inr x"
  let ?env = "\<lambda>stream evs. env\<lparr>rx_stream := stream, rx_events := evs\<rparr>"
  have quiet: "message_types env sr (r, sr, ?env stream evs)" for r stream evs
    by (simp add: message_types_def)
  have dispatch: "message_types env sr x"
    if d: "vns_dispatch depth (?env stream evs) sr buf len command = Inr x"
      and b: "length buf = nat len" "0 \<le> len" "len \<le> 10000"
      and c: "\<not> (expected \<noteq> 0 \<and> command \<noteq> expected \<and> command \<noteq> VNSCLOSE)" for stream evs buf len command
  proof -
    have "arp_inv (cache sr)" if "command = VNSPACKET"
      using assms(3) c that by (auto simp: VNSPACKET_def VNSCLOSE_def)
    with ensuresD [OF dispatch_typed d] assms(1) b show ?thesis
      by (auto simp: message_types_def)
  qed
  from x show "message_types env sr x"
    unfolding sr_read_from_server_expect_def
    using assms(2)
    by (auto simp: Let_def bindE_eq_Inr store_eq_Inr load_eq_Inr length_simps typed_def
        split: rx_result.splits if_splits intro: quiet dispatch)
qed

lemma message_types_then:
  assumes "message_types env sr (r, sr1, env1)" "keeps_types sr1 sr2" "if_junk env2 = if_junk env1"
  shows "message_types env sr (r', sr2, env2)"
  using assms keeps_types_trans by (auto simp: message_types_def)

lemma main_loop_typed:
  assumes "wf_if (if_junk env)" "typed sr" "arp_inv (cache sr)"
  shows "ensures (sr_main_loop fuel depth env sr) (message_types env sr)"
  using assms
proof (induction fuel depth env sr rule: sr_main_loop.induct)
  case (2 fuel depth env sr)
  have first: "ensures (sr_read_from_server depth env sr) (message_types env sr)"
    unfolding sr_read_from_server_def using 2(2-4) by (intro read_typed) auto
  have "ensures (if ret = 1 then sr_main_loop fuel depth env1 sr1 else Inr (ret, sr1, env1)) (message_types env sr)"
    if r: "sr_read_from_server depth env sr = Inr (ret, sr1, env1)" for ret sr1 env1
  proof (cases "ret = 1")
    case True
    have m: "message_types env sr (ret, sr1, env1)"
      using ensuresD [OF first r] .
    then have "ensures (sr_main_loop fuel depth env1 sr1) (message_types env1 sr1)"
      using 2(2-4) True by (intro 2(1) [OF True]) (auto simp: message_types_def keeps_types_def)
    then show ?thesis
      using True m by (auto simp: ensures_def message_types_def intro: keeps_types_trans)
  next
    case False
    with ensuresD [OF first r] show ?thesis
      by (auto simp: message_types_def intro: ensures_Inr)
  qed
  then show ?case
    unfolding sr_main_loop.simps by (intro ensures_bind) (simp only: split_paired_all prod.case)
qed (simp add: ensures)

lemma negotiate_typed:
  assumes "wf_if (if_junk env)" "typed sr"
  shows "ensures (negotiate depth env sr) (message_types env sr)"
proof -
  note codes = VNSPACKET_def VNS_AUTH_REQUEST_def VNS_AUTH_STATUS_def VNS_RTABLE_def
  have read: "message_types env sr (r2, sr2, env2)"
    if "sr_read_from_server_expect depth cmd env1 sr1 = Inr (r2, sr2, env2)" "message_types env sr (r1, sr1, env1)"
      "cmd \<in> {VNS_AUTH_REQUEST, VNS_AUTH_STATUS, VNS_RTABLE}" for cmd env1 sr1 r1 r2 sr2 env2
  proof -
    have "wf_if (if_junk env1)" "typed sr1"
      using assms that(2) by (auto simp: message_types_def keeps_types_def)
    moreover have "cmd \<notin> {0, VNSPACKET}"
      using that(3) by (auto simp: codes)
    ultimately have "message_types env1 sr1 (r2, sr2, env2)"
      by (intro ensuresD [OF read_typed that(1)]) auto
    with that(2) show ?thesis
      by (auto simp: message_types_def intro: keeps_types_trans)
  qed
  have w: "message_types env sr (r', sr1\<lparr>written := m\<rparr>, env1)" if "message_types env sr (r, sr1, env1)"
    for r r' sr1 env1 m
    using message_types_then [OF that keeps_types_written] by blast
  have r: "message_types env sr (r', sr1, env1)" if "message_types env sr (r, sr1, env1)" for r r' sr1 env1
    using that by (simp add: message_types_def)
  have start: "message_types env sr (0, sr, env)"
    by (simp add: message_types_def)
  show ?thesis
  proof (rule ensuresI)
    fix x
    assume "negotiate depth env sr = Inr x"
    then obtain r1 sr1 env1 where 1: "sr_read_from_server_expect depth VNS_AUTH_REQUEST env sr = Inr (r1, sr1, env1)"
      and x1: "(if r1 \<noteq> 1 then Inr (- 1, sr1, env1)
        else bindE (sr_read_from_server_expect depth VNS_AUTH_STATUS env1 sr1) (\<lambda>(r, sr, env).
          if r \<noteq> 1 then Inr (- 1, sr, env)
          else
            bindE (string_at (template sr)) (\<lambda>name.
            let m = open_message sr;
                sr' = sr\<lparr>written := written sr @ [m]\<rparr> in
            if sock_write sr m \<noteq> int (length m) then Inr (- 1, sr', env)
            else if length name > 0
            then bindE (sr_read_from_server_expect depth VNS_RTABLE env sr') (\<lambda>(r, sr, env).
                 Inr (if r \<noteq> 1 then - 1 else 0, sr, env))
            else Inr (0, sr', env)))) = Inr x"
      unfolding negotiate_def bindE_eq_Inr by (auto simp only: split_paired_Ex prod.case)
    note m1 = read [OF 1 start, simplified]
    show "message_types env sr x"
    proof (cases "r1 = 1")
      case False
      with x1 r [OF m1] show ?thesis
        by auto
    next
      case True
      with x1 obtain r2 sr2 env2 where
        2: "sr_read_from_server_expect depth VNS_AUTH_STATUS env1 sr1 = Inr (r2, sr2, env2)"
        and x2: "(if r2 \<noteq> 1 then Inr (- 1, sr2, env2)
          else
            bindE (string_at (template sr2)) (\<lambda>name.
            let m = open_message sr2;
                sr' = sr2\<lparr>written := written sr2 @ [m]\<rparr> in
            if sock_write sr2 m \<noteq> int (length m) then Inr (- 1, sr', env2)
            else if length name > 0
            then bindE (sr_read_from_server_expect depth VNS_RTABLE env2 sr') (\<lambda>(r, sr, env).
                 Inr (if r \<noteq> 1 then - 1 else 0, sr, env))
            else Inr (0, sr', env2))) = Inr x"
        by (auto simp only: bindE_eq_Inr split_paired_Ex prod.case simp_thms if_False)
      note m2 = read [OF 2 m1, simplified]
      have m3: "message_types env sr (r', sr3, env3)"
        if "sr_read_from_server_expect depth VNS_RTABLE env2 (sr2\<lparr>written := m\<rparr>) = Inr (r3, sr3, env3)"
        for m r3 sr3 env3 r'
        by (rule r, rule read [OF that w [OF m2]]) simp
      show ?thesis
        using x2 r [OF m2] w [OF m2] by (auto simp: Let_def bindE_eq_Inr split: if_splits intro: m3)
    qed
  qed
qed

section \<open>The whole program\<close>

lemma connect_typed:
  assumes "wf_if (if_junk env)" "typed sr"
  shows "ensures (sr_connect_to_server depth env sr port server)
    (\<lambda>(r, sr', env'). typed sr' \<and> if_junk env' = if_junk env)"
proof -
  have t: "typed (sr\<lparr>sockfd := fd\<rparr>)" for fd
    using assms(2) by (simp add: typed_def)
  have "ensures (negotiate depth env (sr\<lparr>sockfd := fd\<rparr>)) (\<lambda>(r, sr', env'). typed sr' \<and> if_junk env' = if_junk env)" for fd
    using negotiate_typed [OF assms(1) t, of depth fd] t
    by (auto simp: ensures_def message_types_def keeps_types_def)
  then show ?thesis
    unfolding sr_connect_to_server_def Let_def
    using assms(2) t by (auto split: option.split intro!: ensures_Inr)
qed

text \<open>The sizes of the arrays in memory as it comes from the stack.\<close>

definition declared :: "sr_instance \<Rightarrow> bool" where
  "declared sr \<longleftrightarrow> length (user sr) = 32 \<and> length (host sr) = 32 \<and> length (template sr) = 30
     \<and> (\<forall>n. length (heap_junk sr n) = n)"

lemma setup_typed:
  assumes "declared sr0"
  shows "ensures (sr_setup bt env o1 sr0) (\<lambda>x. case x of Exits n \<Rightarrow> True | Goes_on sr \<Rightarrow> typed sr)"
proof -
  let ?sr = "sr_init_instance sr0"
  have s: "typed ?sr"
    using assms by (simp add: declared_def typed_def sr_init_instance_def)
  have t: "typed (sr\<lparr>template := strncpy 30 n\<rparr>)" "typed (sr\<lparr>template := (template sr)[0 := 0]\<rparr>)"
    "typed (sr\<lparr>topo_id := w, host := strncpy 32 n\<rparr>)" "typed (sr\<lparr>user := strncpy 32 n\<rparr>)"
    "typed (sr\<lparr>logfile := f\<rparr>)" "typed (sr_set_user bt sr)" if "typed sr" for sr n w f
    using that by (simp_all add: typed_def sr_set_user_def split: option.split)
  have log: "ensures (open_logfile bt o1 sr) (\<lambda>x. case x of Exits n \<Rightarrow> True | Goes_on sr \<Rightarrow> typed sr)"
    if "typed sr" for sr
    using that t(5) [OF that] by (auto simp: open_logfile_def intro!: ensures_Inr split: option.split)
  have user: "typed (case opt_user o1 of None \<Rightarrow> sr_set_user bt sr | Some u \<Rightarrow> sr\<lparr>user := strncpy 32 u\<rparr>)"
    if "typed sr" for sr
    using t(4,6) [OF that] by (simp split: option.split)
  have first: "ensures (case opt_template o1 of
      None \<Rightarrow> sr_load_rt_wrap (file_contents bt env (opt_rtable o1)) (stack1 bt) (?sr\<lparr>template := (template ?sr)[0 := 0]\<rparr>)
    | Some n \<Rightarrow> Inr (Goes_on (?sr\<lparr>template := strncpy 30 n\<rparr>)))
    (\<lambda>x. case x of Exits n \<Rightarrow> True | Goes_on sr \<Rightarrow> typed sr)"
  proof (cases "opt_template o1")
    case None
    then show ?thesis
      using ensures_weaken [OF load_rt_wrap_typed [OF t(2) [OF s]]] by (auto split: run.splits)
  next
    case (Some n)
    then show ?thesis
      using t(1) [OF s] by (simp add: ensures_Inr)
  qed
  have next_part: "ensures (and_then m f) Q" if "ensures m (\<lambda>x. case x of Exits n \<Rightarrow> True | Goes_on sr \<Rightarrow> typed sr)"
      "\<And>sr. typed sr \<Longrightarrow> ensures (f sr) Q" "\<And>n. Q (Exits n)" for m f Q
    unfolding and_then_def
  proof (rule ensures_bind)
    fix x
    assume "m = Inr x"
    with that(1) have "case x of Exits n \<Rightarrow> True | Goes_on sr \<Rightarrow> typed sr"
      by (rule ensuresD)
    then show "ensures (case x of Exits n \<Rightarrow> Inr (Exits n) | Goes_on sr \<Rightarrow> f sr) Q"
      using that(2,3) by (cases x) (simp_all add: ensures_Inr)
  qed
  show ?thesis
    unfolding sr_setup_def Let_def
    by (rule next_part [OF first]) (auto intro!: log user t(3))
qed

lemma session_typed:
  assumes "wf_if (if_junk env)" "typed sr"
  shows "ensures (sr_session fuel depth bt env o1 sr)
    (\<lambda>(status, x). \<forall>sr' env'. x = Some (sr', env') \<longrightarrow> typed sr' \<and> (status = 0 \<longrightarrow> arp_inv (cache sr')))"
proof (rule ensuresI)
  fix x
  assume "sr_session fuel depth bt env o1 sr = Inr x"
  then obtain r sr1 env1 where
    c: "sr_connect_to_server depth env sr (ucast (opt_port o1)) (opt_server o1) = Inr (r, sr1, env1)"
    and x: "(if r = - 1 then Inr (1, Some (sr1, env1))
      else bindE (sr_load_rt_wrap (file_contents bt env1 (table_name o1)) (stack2 bt) sr1) (\<lambda>x.
       case x of
         Exits n \<Rightarrow> Inr (n, Some (sr1, env1))
       | Goes_on sr \<Rightarrow>
           bindE (sr_main_loop fuel depth env1 (sr_init sr)) (\<lambda>(_, sr, env). Inr (0, Some (sr, env))))) = Inr x"
    unfolding sr_session_def bindE_eq_Inr by (auto simp only: split_paired_Ex prod.case)
  have t1: "typed sr1" "if_junk env1 = if_junk env"
    using ensuresD [OF connect_typed [OF assms] c] by simp_all
  show "case x of (status, x) \<Rightarrow> \<forall>sr' env'. x = Some (sr', env') \<longrightarrow> typed sr' \<and> (status = 0 \<longrightarrow> arp_inv (cache sr'))"
  proof (cases "r = - 1")
    case True
    with x t1 show ?thesis
      by auto
  next
    case False
    with x obtain y where y: "sr_load_rt_wrap (file_contents bt env1 (table_name o1)) (stack2 bt) sr1 = Inr y"
      "(case y of Exits n \<Rightarrow> Inr (n, Some (sr1, env1)) | Goes_on sr \<Rightarrow>
           bindE (sr_main_loop fuel depth env1 (sr_init sr)) (\<lambda>(_, sr, env). Inr (0, Some (sr, env)))) = Inr x"
      by (auto simp only: bindE_eq_Inr simp_thms if_False)
    show ?thesis
    proof (cases y)
      case (Exits n)
      have "n = 1"
        using y(1) Exits by (auto simp: sr_load_rt_wrap_def bindE_eq_Inr split: if_splits)
      with y(2) Exits t1 show ?thesis
        by auto
    next
      case (Goes_on sr2)
      have t2: "typed (sr_init sr2)"
        using ensuresD [OF load_rt_wrap_typed [OF t1(1)] y(1)] Goes_on by (simp add: sr_init_def typed_def)
      have inv: "arp_inv (cache (sr_init sr2))"
        by (simp add: sr_init_def init_inv)
      have loop: "ensures (sr_main_loop fuel depth env1 (sr_init sr2)) (message_types env1 (sr_init sr2))"
        by (rule main_loop_typed [OF _ t2 inv]) (simp add: t1(2) assms(1))
      from y(2) Goes_on obtain r3 sr3 env3 where "sr_main_loop fuel depth env1 (sr_init sr2) = Inr (r3, sr3, env3)"
        "x = (0, Some (sr3, env3))"
        by (auto simp: bindE_eq_Inr)
      with ensuresD [OF loop] t2 inv show ?thesis
        by (auto simp: message_types_def keeps_types_def)
    qed
  qed
qed

text \<open>
  C37. Types are kept.  Whatever the options, the files, the system's answers and the bytes the server
  sends, in the state in which \<^verbatim>\<open>main\<close> ends every array has the size its declaration gives it: \<^verbatim>\<open>user\<close>,
  \<^verbatim>\<open>host\<close> and \<^verbatim>\<open>template\<close>, the names and addresses of the interfaces, the interface names of the routes and,
  after a session, the addresses in the ARP cache, whose requests hold packets of the length they record.
\<close>

theorem main_keeps_types:
  assumes "declared sr0" "wf_if (if_junk env)" "sr_main fuel depth bt env args sr0 = Inr (status, Some (sr, env'))"
  shows "length (user sr) = 32 \<and> length (host sr) = 32 \<and> length (template sr) = 30
    \<and> (\<forall>i \<in> set (if_list sr). length (if_name i) = 32 \<and> length (if_addr i) = 6)
    \<and> (\<forall>e \<in> set (routing_table sr). length (rt_interface e) = 32)
    \<and> (status = 0 \<longrightarrow> length (entries (cache sr)) = 100 \<and> (\<forall>e \<in> set (entries (cache sr)). length (en_mac e) = 6)
        \<and> (\<forall>r \<in> set (requests (cache sr)). \<forall>p \<in> set (rq_packets r). length (pk_buf p) = pk_len p))"
proof -
  obtain o1 sr1 where o1: "parse_options args default_options = Some o1"
    and s1: "sr_setup bt env o1 sr0 = Inr (Goes_on sr1)"
    and s2: "sr_session fuel depth bt env o1 sr1 = Inr (status, Some (sr, env'))"
  proof -
    from assms(3) obtain o1 where o: "parse_options args default_options = Some o1"
      by (auto simp: sr_main_def split: option.splits)
    with assms(3) obtain y where "sr_setup bt env o1 sr0 = Inr y"
      "(case y of Exits n \<Rightarrow> Inr (n, None) | Goes_on sr \<Rightarrow> sr_session fuel depth bt env o1 sr) = Inr (status, Some (sr, env'))"
      by (auto simp: sr_main_def bindE_eq_Inr)
    with o that show thesis
      by (cases y) auto
  qed
  have t1: "typed sr1"
    using ensuresD [OF setup_typed [OF assms(1)] s1] by simp
  have "typed sr \<and> (status = 0 \<longrightarrow> arp_inv (cache sr))"
    using ensuresD [OF session_typed [OF assms(2) t1] s2] by simp
  then show ?thesis
    by (auto simp: typed_def wf_if_def arp_inv_def wf_req_def wf_packet_def sr_IFACE_NAMELEN_def
        ETHER_ADDR_LEN_def SR_ARPCACHE_SZ_def)
qed

definition declared_router :: sr_instance where
  "declared_router = sample_router\<lparr>user := replicate 32 0xA5, host := replicate 32 0xA5, template := replicate 30 0xA5\<rparr>"

definition refusing_env :: vns_env where
  "refusing_env = \<lparr>rx_stream = [], rx_events = [], auth_key_file = None, fopen_w = (\<lambda>_. False), files = [],
     if_junk = \<lparr>if_name = replicate 32 0xA5, if_addr = replicate 6 0xA5, if_ip = 0, if_speed = 0\<rparr>,
     stack_junk = [], sha1_junk = \<lparr>Message_Digest = [], Length_Low = 0, Length_High = 0,
       Message_Block = [], Message_Block_Index = 0, Computed = False, Corrupted = False\<rparr>,
     dns = (\<lambda>_. Some [127, 0, 0, 1]), new_socket = 3, connect_result = (\<lambda>_ _ _. - 1), closed_fds = []\<rparr>"

definition silent_boot :: boot where
  "silent_boot = \<lparr>disk = (\<lambda>_. None), pw_name = None, log_opens = False, stack1 = [], stack2 = []\<rparr>"

lemma main_keeps_types_witness:
  "\<exists>sr env'. sr_main 1 1 silent_boot refusing_env [(84, ascii ''one'')] declared_router = Inr (1, Some (sr, env'))
    \<and> length (user sr) = 32 \<and> length (template sr) = 30 \<and> sockfd sr = 3 \<and> closed_fds env' = [3]"
proof -
  let ?sr = "declared_router\<lparr>sockfd := 3, user := strncpy 32 (ascii ''something_silly''),
    host := strncpy 32 (ascii ''vrhost''), template := strncpy 30 (ascii ''one''), topo_id := 0,
    if_list := [], routing_table := [], logfile := None\<rparr>"
  have name: "string_at (strncpy 32 (ascii ''something_silly'')) = Inr (ascii ''something_silly'')"
    by code_simp
  have run: "sr_main 1 1 silent_boot refusing_env [(84, ascii ''one'')] declared_router
    = Inr (1, Some (?sr, refusing_env\<lparr>closed_fds := [3]\<rparr>))"
    by (simp add: sr_main_def option_step_def default_options_def sr_setup_def sr_init_instance_def and_then_def
        sr_set_user_def open_logfile_def sr_session_def sr_connect_to_server_def refusing_env_def silent_boot_def Let_def name)
  have "declared declared_router" "wf_if (if_junk refusing_env)"
    by (simp_all add: declared_def declared_router_def sample_router_def wf_if_def refusing_env_def
        sr_IFACE_NAMELEN_def ETHER_ADDR_LEN_def)
  from main_keeps_types [OF this run] run show ?thesis
    by (intro exI [of _ ?sr] exI [of _ "refusing_env\<lparr>closed_fds := [3]\<rparr>"]) simp
qed

end
