(* ===== verification/Tictactoe.thy ===== *)
theory Tictactoe
  imports Prelude Reachability "HOL-Library.Signed_Division"
begin

text \<open>
  The game of \<^verbatim>\<open>assignment-1/c/src/ttt.c\<close>: the board, moves, and the tests for a win and a draw; a
  specification of winning by the eight lines; and the states a game can reach.  Characters are
  their codes; \<^verbatim>\<open>turnCount\<close> is an \<^verbatim>\<open>int\<close> that never exceeds 9 in a game that starts with \<^verbatim>\<open>ttt_new\<close>.
\<close>

definition mark_X :: u8 where "mark_X = 88"
definition mark_O :: u8 where "mark_O = 79"
definition blank :: u8 where "blank = 32"

lemmas marks = mark_X_def mark_O_def blank_def

lemma marks_distinct [simp]: "mark_X \<noteq> mark_O" "mark_O \<noteq> mark_X" "mark_X \<noteq> blank" "mark_O \<noteq> blank"
  "blank \<noteq> mark_X" "blank \<noteq> mark_O"
  by (simp_all add: marks)

record TicTacToe =
  board :: "bytes list"
  currentPlayer :: u8
  turnCount :: int

section \<open>The code\<close>

definition convertMove :: "int \<Rightarrow> int \<times> int" where
  "convertMove move = ((move - 1) sdiv 3, (move - 1) smod 3)"

definition ttt_new :: TicTacToe where
  "ttt_new = \<lparr>board = replicate 3 (replicate 3 blank), currentPlayer = mark_X, turnCount = 0\<rparr>"

text \<open>The old board is freed.\<close>

definition ttt_reset :: "TicTacToe \<Rightarrow> TicTacToe" where
  "ttt_reset t = ttt_new"

definition board_at :: "TicTacToe \<Rightarrow> int \<Rightarrow> int \<Rightarrow> u8 res" where
  "board_at t row col =
     (if 0 \<le> row \<and> row < 3 \<and> 0 \<le> col \<and> col < 3 then Inr (board t ! nat row ! nat col)
      else Inl OutOfBounds)"

definition ttt_switchPlayer :: "TicTacToe \<Rightarrow> TicTacToe" where
  "ttt_switchPlayer t = t\<lparr>currentPlayer := (if currentPlayer t = mark_X then mark_O else mark_X)\<rparr>"

definition ttt_makeMove :: "TicTacToe \<Rightarrow> int \<Rightarrow> (bool \<times> TicTacToe) res" where
  "ttt_makeMove t move =
     (if move < 1 \<or> move > 9 then Inr (False, t)
      else let (row, col) = convertMove move in
        bindE (board_at t row col) (\<lambda>c.
        if c \<noteq> blank then Inr (False, t)
        else Inr (True, ttt_switchPlayer
          (t\<lparr>board := (board t)[nat row := (board t ! nat row)[nat col := currentPlayer t]],
             turnCount := turnCount t + 1\<rparr>))))"

text \<open>The first loop of \<^verbatim>\<open>ttt_checkWin\<close> returns at the first full row or column.\<close>

definition row_win :: "TicTacToe \<Rightarrow> u8 \<Rightarrow> nat \<Rightarrow> bool" where
  "row_win t player i = foldl (\<lambda>w ii. w \<and> board t ! i ! ii = player) True [0..<3]"

definition col_win :: "TicTacToe \<Rightarrow> u8 \<Rightarrow> nat \<Rightarrow> bool" where
  "col_win t player i = foldl (\<lambda>w ii. w \<and> board t ! ii ! i = player) True [0..<3]"

fun lines_win :: "TicTacToe \<Rightarrow> u8 \<Rightarrow> nat list \<Rightarrow> bool" where
  "lines_win t player [] = False"
| "lines_win t player (i # is) =
     (if row_win t player i \<or> col_win t player i then True else lines_win t player is)"

definition ttt_checkWin :: "TicTacToe \<Rightarrow> u8 \<Rightarrow> bool" where
  "ttt_checkWin t player =
     (if lines_win t player [0..<3] then True
      else foldl (\<lambda>w i. w \<and> board t ! i ! i = player) True [0..<3]
        \<or> foldl (\<lambda>w i. w \<and> board t ! (2 - i) ! i = player) True [0..<3])"

definition ttt_hasWinner :: "TicTacToe \<Rightarrow> bool" where
  "ttt_hasWinner t = ttt_checkWin t (currentPlayer t)"

definition ttt_isDraw :: "TicTacToe \<Rightarrow> bool" where
  "ttt_isDraw t \<longleftrightarrow> turnCount t = 9 \<and> \<not> ttt_hasWinner t"

definition ttt_getCurrentPlayer :: "TicTacToe \<Rightarrow> u8" where
  "ttt_getCurrentPlayer t = currentPlayer t"

definition ttt_getBoardCell :: "TicTacToe \<Rightarrow> int \<Rightarrow> u8 res" where
  "ttt_getBoardCell t move = (let (row, col) = convertMove move in board_at t row col)"

text \<open>\<^verbatim>\<open>ttt_drawBoard\<close> as the characters it prints; a free cell shows its number.\<close>

definition rule_line :: bytes where
  "rule_line = replicate 13 45 @ [10]"

definition shown_cell :: "TicTacToe \<Rightarrow> nat \<Rightarrow> nat \<Rightarrow> u8" where
  "shown_cell t i ii =
     (let c = board t ! i ! ii in if c = blank then 48 + word_of_nat (i * 3 + ii + 1) else c)"

definition ttt_drawBoard :: "TicTacToe \<Rightarrow> bytes" where
  "ttt_drawBoard t = rule_line @ concat (map (\<lambda>i.
     [124, 32] @ concat (map (\<lambda>ii. [shown_cell t i ii, 32, 124, 32]) [0..<3]) @ [10] @ rule_line) [0..<3])"

section \<open>Cells and lines\<close>

text \<open>A well-formed board and its nine cells, numbered as the players number them.\<close>

definition wf_board :: "bytes list \<Rightarrow> bool" where
  "wf_board b \<longleftrightarrow> length b = 3 \<and> (\<forall>r \<in> set b. length r = 3 \<and> set r \<subseteq> {mark_X, mark_O, blank})"

definition cells :: "TicTacToe \<Rightarrow> bytes" where
  "cells t = concat (board t)"

definition lines3 :: "(nat \<times> nat \<times> nat) list" where
  "lines3 = [(1, 2, 3), (4, 5, 6), (7, 8, 9), (1, 4, 7), (2, 5, 8), (3, 6, 9), (1, 5, 9), (7, 5, 3)]"

definition has_line :: "TicTacToe \<Rightarrow> u8 \<Rightarrow> bool" where
  "has_line t p \<longleftrightarrow> (\<exists>(a, b, c) \<in> set lines3. \<forall>k \<in> {a, b, c}. cells t ! (k - 1) = p)"

lemma wf_boardE:
  assumes "wf_board b"
  obtains c1 c2 c3 c4 c5 c6 c7 c8 c9 where "b = [[c1, c2, c3], [c4, c5, c6], [c7, c8, c9]]"
    "set [c1, c2, c3, c4, c5, c6, c7, c8, c9] \<subseteq> {mark_X, mark_O, blank}"
proof -
  have three: "\<exists>x y z. r = [x, y, z]" if "length r = 3" for r :: "'a list"
    using that by (auto simp: numeral_3_eq_3 length_Suc_conv)
  obtain r1 r2 r3 where b: "b = [r1, r2, r3]"
    using assms three [of b] by (auto simp: wf_board_def)
  moreover obtain c1 c2 c3 where "r1 = [c1, c2, c3]"
    using assms b three [of r1] by (auto simp: wf_board_def)
  moreover obtain c4 c5 c6 where "r2 = [c4, c5, c6]"
    using assms b three [of r2] by (auto simp: wf_board_def)
  moreover obtain c7 c8 c9 where "r3 = [c7, c8, c9]"
    using assms b three [of r3] by (auto simp: wf_board_def)
  ultimately show thesis
    using assms that by (simp add: wf_board_def)
qed

lemma upt_3: "[0..<3] = [0, 1, 2]"
  by (simp add: upt_rec)

lemma checkWin_has_line:
  assumes "wf_board (board t)"
  shows "ttt_checkWin t p \<longleftrightarrow> has_line t p"
proof -
  obtain c1 c2 c3 c4 c5 c6 c7 c8 c9 where "board t = [[c1, c2, c3], [c4, c5, c6], [c7, c8, c9]]"
    using assms by (rule wf_boardE)
  then show ?thesis
    by (simp add: ttt_checkWin_def row_win_def col_win_def upt_3 has_line_def lines3_def cells_def) blast
qed

section \<open>Moves\<close>

definition other :: "u8 \<Rightarrow> u8" where
  "other p = (if p = mark_X then mark_O else mark_X)"

lemma move_cases:
  assumes "1 \<le> m" "m \<le> (9 :: int)"
  obtains "m = 1" | "m = 2" | "m = 3" | "m = 4" | "m = 5" | "m = 6" | "m = 7" | "m = 8" | "m = 9"
  using assms by linarith

lemma convertMove_simps [simp]:
  "convertMove 1 = (0, 0)" "convertMove 2 = (0, 1)" "convertMove 3 = (0, 2)"
  "convertMove 4 = (1, 0)" "convertMove 5 = (1, 1)" "convertMove 6 = (1, 2)"
  "convertMove 7 = (2, 0)" "convertMove 8 = (2, 1)" "convertMove 9 = (2, 2)"
  by (simp_all add: convertMove_def signed_divide_int_def signed_modulo_int_def)

text \<open>The board after a move, as the update of one cell of nine.\<close>

definition moved :: "TicTacToe \<Rightarrow> nat \<Rightarrow> TicTacToe \<Rightarrow> bool" where
  "moved t k t' \<longleftrightarrow> k < 9 \<and> cells t ! k = blank \<and> wf_board (board t') \<and> cells t' = (cells t)[k := currentPlayer t]
     \<and> currentPlayer t' = other (currentPlayer t) \<and> turnCount t' = turnCount t + 1"

lemma makeMove_outside: "m < 1 \<or> 9 < m \<Longrightarrow> ttt_makeMove t m = Inr (False, t)"
  by (auto simp: ttt_makeMove_def)

lemma makeMove_inside:
  assumes "wf_board (board t)" "1 \<le> m" "m \<le> 9" "currentPlayer t \<in> {mark_X, mark_O}"
  shows "if cells t ! nat (m - 1) = blank
    then \<exists>t'. ttt_makeMove t m = Inr (True, t') \<and> moved t (nat (m - 1)) t'
    else ttt_makeMove t m = Inr (False, t)"
proof -
  obtain c1 c2 c3 c4 c5 c6 c7 c8 c9 where b: "board t = [[c1, c2, c3], [c4, c5, c6], [c7, c8, c9]]"
    "set [c1, c2, c3, c4, c5, c6, c7, c8, c9] \<subseteq> {mark_X, mark_O, blank}"
    using assms(1) by (rule wf_boardE)
  have p: "currentPlayer t = mark_X \<or> currentPlayer t = mark_O \<or> currentPlayer t = blank"
    using assms(4) by blast
  show ?thesis
    using assms(2,3)
    by (cases rule: move_cases)
       (use b p in \<open>simp_all add: ttt_makeMove_def board_at_def cells_def moved_def wf_board_def
          other_def ttt_switchPlayer_def eval_nat_numeral\<close>)
qed

lemma boardCell_cells:
  assumes "wf_board (board t)" "1 \<le> m" "m \<le> 9"
  shows "ttt_getBoardCell t m = Inr (cells t ! nat (m - 1))"
proof -
  obtain c1 c2 c3 c4 c5 c6 c7 c8 c9 where b: "board t = [[c1, c2, c3], [c4, c5, c6], [c7, c8, c9]]"
    using assms(1) by (rule wf_boardE)
  show ?thesis
    using assms(2,3)
    by (cases rule: move_cases)
       (simp_all add: b ttt_getBoardCell_def board_at_def cells_def eval_nat_numeral)
qed

lemma length_cells: "wf_board (board t) \<Longrightarrow> length (cells t) = 9"
  by (elim wf_boardE) (simp add: cells_def)

section \<open>Games\<close>

text \<open>
  A game starts with \<^verbatim>\<open>ttt_new\<close> and goes on by accepted moves.  The invariant ties the turn counter
  and the player to move to the cells on the board.
\<close>

inductive ttt_step :: "TicTacToe \<Rightarrow> TicTacToe \<Rightarrow> bool" where
  move: "ttt_makeMove t m = Inr (True, t') \<Longrightarrow> ttt_step t t'"

definition ttt_start :: "TicTacToe \<Rightarrow> bool" where
  "ttt_start t \<longleftrightarrow> t = ttt_new"

definition tally :: "TicTacToe \<Rightarrow> u8 \<Rightarrow> nat" where
  "tally t p = count_list (cells t) p"

definition ttt_inv :: "TicTacToe \<Rightarrow> bool" where
  "ttt_inv t \<longleftrightarrow> wf_board (board t) \<and> turnCount t = int (tally t mark_X + tally t mark_O)
     \<and> (currentPlayer t = mark_X \<and> tally t mark_X = tally t mark_O
        \<or> currentPlayer t = mark_O \<and> tally t mark_X = Suc (tally t mark_O))"

lemma count_list_nth: "k < length xs \<Longrightarrow> Suc (count_list xs (xs ! k) - Suc 0) = count_list xs (xs ! k)"
  using count_list_0_iff [of xs "xs ! k"] by simp

lemma count_list_update:
  "k < length xs \<Longrightarrow> xs ! k = y \<Longrightarrow> z \<noteq> y \<Longrightarrow>
   count_list (xs[k := z]) p = (if p = z then Suc (count_list xs p) else if p = y then count_list xs p - 1
     else count_list xs p)"
  by (induction xs arbitrary: k) (auto split: nat.split simp: count_list_nth)

lemma moved_inv:
  assumes "ttt_inv t" "moved t k t'"
  shows "ttt_inv t'"
proof -
  have wf: "wf_board (board t)" and k: "k < length (cells t)" "cells t ! k = blank"
    using assms length_cells by (auto simp: ttt_inv_def moved_def)
  have "currentPlayer t \<noteq> blank"
    using assms(1) by (auto simp: ttt_inv_def)
  from count_list_update [OF k this] have "tally t' p = (if p = currentPlayer t then Suc (tally t p) else tally t p)"
    if "p \<noteq> blank" for p
    using assms(2) that by (simp add: tally_def moved_def)
  then show ?thesis
    using assms by (auto simp: ttt_inv_def moved_def other_def)
qed

lemma new_inv: "ttt_inv ttt_new"
  by (simp add: ttt_inv_def ttt_new_def wf_board_def tally_def cells_def numeral_3_eq_3)

lemma makeMove_True:
  assumes "ttt_inv t" "ttt_makeMove t m = Inr (True, t')"
  shows "1 \<le> m \<and> m \<le> 9 \<and> moved t (nat (m - 1)) t'"
proof -
  have m: "1 \<le> m" "m \<le> 9"
    using assms(2) makeMove_outside [of m t] by force+
  have "wf_board (board t)" "currentPlayer t \<in> {mark_X, mark_O}"
    using assms(1) by (auto simp: ttt_inv_def)
  from makeMove_inside [OF this(1) m this(2)] assms(2) m show ?thesis
    by (auto split: if_splits)
qed

interpretation ttt: inductive_invariant ttt_start ttt_step ttt_inv
proof unfold_locales
  show "ttt_inv t" if "ttt_start t" for t
    using that new_inv by (simp add: ttt_start_def)
  show "ttt_inv t'" if "ttt_inv t" "ttt_step t t'" for t t'
    using that(2)
  proof cases
    case (move m)
    with makeMove_True [OF that(1)] moved_inv [OF that(1)] show ?thesis
      by blast
  qed
qed

lemma new_reach: "reach ttt_start ttt_step ttt_new"
  by (rule reach_init) (simp add: ttt_start_def)

lemma tally_le_9: "ttt_inv t \<Longrightarrow> tally t mark_X + tally t mark_O + tally t blank = 9"
proof -
  assume inv: "ttt_inv t"
  then obtain c1 c2 c3 c4 c5 c6 c7 c8 c9 where b: "board t = [[c1, c2, c3], [c4, c5, c6], [c7, c8, c9]]"
    "set [c1, c2, c3, c4, c5, c6, c7, c8, c9] \<subseteq> {mark_X, mark_O, blank}"
    by (auto simp: ttt_inv_def elim: wf_boardE)
  have "count_list xs mark_X + count_list xs mark_O + count_list xs blank = length xs"
    if "set xs \<subseteq> {mark_X, mark_O, blank}" for xs
    using that by (induction xs) auto
  from this [OF b(2)] show ?thesis
    by (simp add: tally_def cells_def b(1))
qed

section \<open>Boards whose turn counter is off\<close>

text \<open>The invariant without the counter, for games that do not start with \<^verbatim>\<open>ttt_new\<close>.\<close>

definition fair :: "TicTacToe \<Rightarrow> bool" where
  "fair t \<longleftrightarrow> wf_board (board t)
     \<and> (currentPlayer t = mark_X \<and> tally t mark_X = tally t mark_O
        \<or> currentPlayer t = mark_O \<and> tally t mark_X = Suc (tally t mark_O))"

definition recount :: "TicTacToe \<Rightarrow> TicTacToe" where
  "recount t = t\<lparr>turnCount := int (tally t mark_X + tally t mark_O)\<rparr>"

lemma fair_recount: "fair t \<longleftrightarrow> ttt_inv (recount t)"
  by (simp add: fair_def ttt_inv_def recount_def tally_def cells_def)

lemma makeMove_counter:
  "ttt_makeMove (t\<lparr>turnCount := n\<rparr>) m
   = bindE (ttt_makeMove t m) (\<lambda>(ok, t'). Inr (ok, t'\<lparr>turnCount := if ok then n + 1 else n\<rparr>))"
  by (simp add: ttt_makeMove_def board_at_def ttt_switchPlayer_def split: prod.split)

lemma makeMove_fair:
  assumes "fair t" "ttt_makeMove t m = Inr (ok, t')"
  shows "fair t'"
proof (cases ok)
  case True
  let ?n = "int (tally t mark_X + tally t mark_O)"
  have "ttt_makeMove (recount t) m = Inr (True, t'\<lparr>turnCount := ?n + 1\<rparr>)"
    using assms(2) True by (simp add: recount_def makeMove_counter)
  then have "ttt_inv (t'\<lparr>turnCount := ?n + 1\<rparr>)"
    using assms(1) fair_recount ttt.inv_step ttt_step.move by blast
  then show ?thesis
    by (simp add: fair_def ttt_inv_def tally_def cells_def)
next
  case False
  then have "t' = t"
    using assms(2) by (auto simp: ttt_makeMove_def bindE_eq_Inr split: if_splits prod.splits)
  with assms(1) show ?thesis
    by simp
qed

end
