(* ===== verification/Game_P1.thy ===== *)
theory Game_P1
  imports Tictactoe C_Text
begin

text \<open>
  The two ends of the first version of the game, \<^verbatim>\<open>server-p1.c\<close> and \<^verbatim>\<open>client-p1.c\<close>: each keeps its own
  board, plays the moves its user types, and plays the moves it receives.

  A program is a function of what its environment supplies: the texts that successive \<^verbatim>\<open>recv\<close> calls
  return (an empty one is a closed connection) and what is typed.  It ends with an exit, recorded with
  the board, the messages sent and what it has printed on its standard output, or it waits for more input
  (the fault \<open>Blocked\<close>).
\<close>

record game_io =
  io_board :: TicTacToe
  io_stdin :: bytes
  io_sent :: "bytes list"
  io_out :: bytes

datatype verdict = You_won | You_lost | You_drew | Client_timeout | Disconnected

text \<open>What is printed when a game is over: the result and the board.\<close>

definition verdict_text :: "verdict \<Rightarrow> bytes" where
  "verdict_text v =
     (case v of
        You_won \<Rightarrow> ascii ''You won'' @ [10]
      | You_lost \<Rightarrow> ascii ''You lost'' @ [10]
      | You_drew \<Rightarrow> ascii ''You drew'' @ [10]
      | _ \<Rightarrow> [])"

definition show_result :: "verdict \<Rightarrow> TicTacToe \<Rightarrow> bytes" where
  "show_result v t = verdict_text v @ ttt_drawBoard t"

definition invalid_text :: bytes where
  "invalid_text = ascii ''Invalid command'' @ [10]"

definition occupied_text :: bytes where
  "occupied_text = ascii ''Must mark an unoccupied box on the board (1-9)'' @ [10]"

definition server_print :: "bytes \<Rightarrow> game_io \<Rightarrow> game_io" where
  "server_print s io = io\<lparr>io_out := io_out io @ s\<rparr>"

datatype progress = Playing game_io | Ended verdict game_io

section \<open>The server\<close>

text \<open>The tests after a move, in the order of the code; the server plays O.\<close>

definition server_verdict :: "TicTacToe \<Rightarrow> verdict option" where
  "server_verdict t =
     (if ttt_checkWin t mark_O then Some You_won
      else if ttt_checkWin t mark_X then Some You_lost
      else if ttt_isDraw t then Some You_drew else None)"

text \<open>\<^verbatim>\<open>server_sendGameState\<close>: at most 1023 characters of the command and the terminator.\<close>

definition server_sendGameState :: "bytes \<Rightarrow> game_io \<Rightarrow> game_io" where
  "server_sendGameState cmd io = io\<lparr>io_sent := io_sent io @ [take 1023 (cstr cmd) @ [0]]\<rparr>"

function server_handleServerMove :: "game_io \<Rightarrow> progress res" where
  "server_handleServerMove io =
     (if io_stdin io = [] then Inl Blocked
      else
        let line = fgets_line 15 (io_stdin io);
            command = cut_line line;
            io1 = server_print (ascii ''> '') (io\<lparr>io_stdin := drop (length line) (io_stdin io)\<rparr>)
        in case scan_command command of
             None \<Rightarrow> server_handleServerMove (server_print invalid_text io1)
           | Some (cmd, n) \<Rightarrow>
             (case ttt_makeMove (io_board io) n of
                Inl f \<Rightarrow> Inl f
              | Inr (ok, t) \<Rightarrow>
                if \<not> ok then server_handleServerMove (server_print occupied_text io1)
                else
                  let io2 = io1\<lparr>io_board := t\<rparr>
                  in (case server_verdict t of
                        Some v \<Rightarrow> Inr (Ended v (server_sendGameState command (server_print (show_result v t) io2)))
                      | None \<Rightarrow> Inr (Playing (server_sendGameState command io2)))))"
  by pat_completeness auto
termination
proof (relation "measure (\<lambda>io. length (io_stdin io))", goal_cases)
  case (2 io)
  then show ?case
    using fgets_line_nonempty [of 15 "io_stdin io"] by (simp add: server_print_def)
next
  case (3 io)
  then show ?case
    using fgets_line_nonempty [of 15 "io_stdin io"] by (simp add: server_print_def)
qed simp

declare server_handleServerMove.simps [simp del]

text \<open>
  One message of the client.  \<^verbatim>\<open>strtok\<close> ends the first word in the buffer, so what is echoed at the end
  of a game is the buffer up to there.
\<close>

definition TIMEOUT :: bytes where "TIMEOUT = [84, 73, 77, 69, 79, 85, 84]"

definition server_message :: "game_io \<Rightarrow> bytes \<Rightarrow> progress res" where
  "server_message io b =
     (if b = [] then Inr (Ended Disconnected io)
      else if 0 \<notin> set b \<and> 1024 \<le> length b then Inl OutOfBounds
      else case strtok_space (cstr b) of
        None \<Rightarrow> Inl NullDeref
      | Some (spaces, token, rest) \<Rightarrow>
        if token = TIMEOUT
        then Inr (Ended Client_timeout
               (server_print (ascii ''Client took too long to play. You won'' @ [10] @ ttt_drawBoard (io_board io)) io))
        else (case strtok_space rest of
            None \<Rightarrow> Inl NullDeref
          | Some (_, number, _) \<Rightarrow>
            bindE (ttt_makeMove (io_board io) (atoi number)) (\<lambda>(ok, t).
            if \<not> ok
            then Inr (Playing (server_print (ascii ''Invalid client move: '' @ spaces @ token @ [10]) io))
            else
              let io1 = io\<lparr>io_board := t\<rparr>
              in (case server_verdict t of
                    Some v \<Rightarrow>
                      Inr (Ended v (server_sendGameState (spaces @ token) (server_print (show_result v t) io1)))
                  | None \<Rightarrow> server_handleServerMove (server_print (ttt_drawBoard t) io1)))))"

fun server_runGame :: "game_io \<Rightarrow> bytes list \<Rightarrow> progress res" where
  "server_runGame io [] = Inl Blocked"
| "server_runGame io (b # bs) =
     bindE (server_message io b) (\<lambda>p.
     case p of Ended v io' \<Rightarrow> Inr (Ended v io') | Playing io' \<Rightarrow> server_runGame io' bs)"

section \<open>The client\<close>

text \<open>
  What a call of \<^verbatim>\<open>fgets\<close> gives the client: a line of at most 15 characters, a failure, or the alarm.
  \<open>armed\<close>: the alarm set by \<^verbatim>\<open>alarm(30)\<close> has not been cancelled; a cancelled alarm does not ring.
\<close>

datatype key_event = Typed bytes | Read_failed | Alarm

definition client_verdict :: "TicTacToe \<Rightarrow> verdict option" where
  "client_verdict t =
     (if ttt_checkWin t mark_X then Some You_won
      else if ttt_checkWin t mark_O then Some You_lost
      else if ttt_isDraw t then Some You_drew else None)"

record client_io =
  ci_board :: TicTacToe
  ci_keys :: "key_event list"
  ci_sent :: "bytes list"
  ci_out :: bytes

datatype client_progress = C_playing client_io | C_ended verdict client_io

definition client_sendCommand :: "bytes \<Rightarrow> client_io \<Rightarrow> client_io" where
  "client_sendCommand cmd io = io\<lparr>ci_sent := ci_sent io @ [cstr cmd]\<rparr>"

definition TIMEOUT_COMMAND :: bytes where
  "TIMEOUT_COMMAND = TIMEOUT @ [32, 45, 49]"

definition client_print :: "bytes \<Rightarrow> client_io \<Rightarrow> client_io" where
  "client_print s io = io\<lparr>ci_out := ci_out io @ s\<rparr>"

text \<open>One turn of the loop for every call of \<^verbatim>\<open>fgets\<close>; a refused move has cancelled the alarm.\<close>

fun input_loop_p1 :: "bool \<Rightarrow> client_io \<Rightarrow> key_event list \<Rightarrow> client_progress res" where
  "input_loop_p1 armed io [] = Inl Blocked"
| "input_loop_p1 armed io (Alarm # ks) =
     (if armed
      then Inr (C_ended Client_timeout
             (client_print (ttt_drawBoard (ci_board io))
               (client_sendCommand TIMEOUT_COMMAND
                 (client_print (ascii ''> '' @ [10] @ ascii ''Time limit exceeded! You lose.'' @ [10])
                   (io\<lparr>ci_keys := ks\<rparr>)))))
      else input_loop_p1 armed io ks)"
| "input_loop_p1 armed io (Read_failed # ks) =
     input_loop_p1 armed (client_print (ascii ''> Error reading input'' @ [10]) io) ks"
| "input_loop_p1 armed io (Typed line # ks) =
     (let command = cut_line line;
          io = client_print (ascii ''> '') io
      in case scan_command command of
           None \<Rightarrow> input_loop_p1 armed (client_print invalid_text io) ks
         | Some (cmd, n) \<Rightarrow>
           if cmd \<noteq> MARK
           then input_loop_p1 armed (client_print (ascii ''Unrecognized command'' @ [10]) io) ks
           else (case ttt_makeMove (ci_board io) n of
               Inl f \<Rightarrow> Inl f
             | Inr (ok, t') \<Rightarrow>
               if \<not> ok then input_loop_p1 False (client_print occupied_text io) ks
               else
                 let io = io\<lparr>ci_board := t', ci_keys := ks\<rparr>
                 in (case client_verdict t' of
                       Some v \<Rightarrow> Inr (C_ended v (client_sendCommand command (client_print (show_result v t') io)))
                     | None \<Rightarrow> Inr (C_playing (client_sendCommand command io)))))"

definition input_parser_p1 :: "client_io \<Rightarrow> client_progress res" where
  "input_parser_p1 io = input_loop_p1 True io (ci_keys io)"

text \<open>
  A response is at most 1023 characters; the buffer is cleared, so it is always terminated.  The result is
  the board and what is printed.
\<close>

definition client_receiveServerResponse :: "TicTacToe \<Rightarrow> bytes \<Rightarrow> (TicTacToe \<times> bytes) res" where
  "client_receiveServerResponse t b =
     (case scan_command (cstr b) of
        Some (cmd, n) \<Rightarrow>
          if cmd = MARK then bindE (ttt_makeMove t n) (\<lambda>(_, t'). Inr (t', ttt_drawBoard t'))
          else Inr (t, ascii ''Unrecognized command'' @ [10])
      | None \<Rightarrow> Inr (t, ascii ''Failed to parse server response.'' @ [10]))"

fun client_main :: "client_io \<Rightarrow> bytes list \<Rightarrow> client_progress res" where
  "client_main io bs =
     bindE (input_parser_p1 io) (\<lambda>p.
     case p of
       C_ended v io' \<Rightarrow> Inr (C_ended v io')
     | C_playing io' \<Rightarrow>
       (case bs of
          [] \<Rightarrow> Inl Blocked
        | b # bs' \<Rightarrow>
          if b = [] then Inr (C_ended Disconnected io')
          else
            bindE (client_receiveServerResponse (ci_board io') b) (\<lambda>(t, shown).
            let io1 = client_print shown (io'\<lparr>ci_board := t\<rparr>)
            in (case client_verdict t of
                  Some v \<Rightarrow> Inr (C_ended v (client_sendCommand b (client_print (show_result v t) io1)))
                | None \<Rightarrow> client_main io1 bs'))))"

declare client_main.simps [simp del]

end
