(* ===== verification/Game_P2.thy ===== *)
theory Game_P2
  imports Game_P1 Inet_Text
begin

text \<open>
  The second version of the game, \<^verbatim>\<open>server-p2.c\<close>: a server with five rooms, a thread for every client, and
  a game between the two clients of a room.  (The file lacks a semicolon in \<^verbatim>\<open>server2_sendGameState\<close>;
  it is read as if it were there.)

  The threads interleave; a section between \<^verbatim>\<open>pthread_mutex_lock\<close> and \<^verbatim>\<open>pthread_mutex_unlock\<close> is one
  step, and so is each part of a turn, before and after the wait for the player.  A game by itself is a function of what successive \<^verbatim>\<open>recv\<close> calls of
  its thread return, an empty text being a closed connection.
\<close>

section \<open>Rooms\<close>

record GameRoom =
  player1Socket :: int
  player2Socket :: int
  numActivePlayers :: int
  gameRunning :: bool
  room_t :: "TicTacToe option"

text \<open>
  What a thread does next.  In the game of a room it begins a turn, or it waits for the move of the first
  of two sockets, the second being the opponent's.
\<close>

datatype thread = Reading_command | Joining nat | Creating nat | In_game nat "(int \<times> int) option" | Returned

record ServerP2 =
  rooms :: "GameRoom list"
  threads :: "int \<Rightarrow> thread option"
  closed :: "int list"
  outbox :: "(int \<times> bytes) list"
  exit_status :: "int option"

text \<open>\<open>junk\<close>: the value \<^verbatim>\<open>malloc\<close> leaves in \<^verbatim>\<open>gameRunning\<close>, which nothing initialises.\<close>

definition new_room :: "bool \<Rightarrow> GameRoom" where
  "new_room junk = \<lparr>player1Socket = - 1, player2Socket = - 1, numActivePlayers = 0, gameRunning = junk,
     room_t = None\<rparr>"

definition server2_new :: "bool list \<Rightarrow> ServerP2" where
  "server2_new junk = \<lparr>rooms = map (\<lambda>i. new_room (junk ! i)) [0..<5], threads = (\<lambda>_. None), closed = [],
     outbox = [], exit_status = None\<rparr>"

definition go :: "int \<Rightarrow> thread \<Rightarrow> ServerP2 \<Rightarrow> ServerP2" where
  "go c th s = s\<lparr>threads := (threads s)(c \<mapsto> th)\<rparr>"

definition close_socket :: "int \<Rightarrow> ServerP2 \<Rightarrow> ServerP2" where
  "close_socket c s = s\<lparr>closed := c # closed s\<rparr>"

text \<open>The first command of a client: at most 255 characters.\<close>

definition JOIN_space :: bytes where "JOIN_space = ascii ''JOIN ''"

definition server2_handleNewClient :: "ServerP2 \<Rightarrow> int \<Rightarrow> bytes \<Rightarrow> ServerP2" where
  "server2_handleNewClient s c received =
     (if received = [] then (close_socket c s)\<lparr>exit_status := Some 1\<rparr>
      else
        let buffer = cstr received in
        if strncmp_eq 5 buffer JOIN_space
        then
          let roomIndex = atoi (drop 5 buffer) in
          if roomIndex < 0 \<or> roomIndex \<ge> 5 then go c Returned (close_socket c s)
          else go c (Joining (nat roomIndex)) s
        else go c Returned s)"

definition server2_createRoom :: "ServerP2 \<Rightarrow> int \<Rightarrow> nat \<Rightarrow> ServerP2" where
  "server2_createRoom s c i =
     go c Returned
       (s\<lparr>rooms := (rooms s)[i := (rooms s ! i)\<lparr>player1Socket := c, numActivePlayers := 1\<rparr>]\<rparr>)"

definition server2_joinRoom :: "ServerP2 \<Rightarrow> int \<Rightarrow> nat \<Rightarrow> ServerP2" where
  "server2_joinRoom s c i =
     (let room = rooms s ! i in
      if numActivePlayers room = 0 then go c (Creating i) s
      else if numActivePlayers room = 1
      then
        let room1 = room\<lparr>player2Socket := c, numActivePlayers := 2\<rparr> in
        if \<not> gameRunning room1
        then go c (In_game i None) (s\<lparr>rooms := (rooms s)[i := room1\<lparr>gameRunning := True\<rparr>]\<rparr>)
        else go c Returned (close_socket c (s\<lparr>rooms := (rooms s)[i := room1]\<rparr>))
      else go c Returned (close_socket c s))"

text \<open>The end of \<^verbatim>\<open>server2_runGame\<close>: the room is emptied, and the process exits.\<close>

definition server2_endGame :: "ServerP2 \<Rightarrow> int \<Rightarrow> nat \<Rightarrow> ServerP2" where
  "server2_endGame s c i =
     (let room = rooms s ! i in
      (go c Returned
        (close_socket (player2Socket room) (close_socket (player1Socket room)
          (s\<lparr>rooms := (rooms s)[i := room\<lparr>room_t := None, gameRunning := False, player1Socket := - 1,
                                        player2Socket := - 1, numActivePlayers := 0\<rparr>]\<rparr>))))
        \<lparr>exit_status := Some 0\<rparr>)"

section \<open>A game\<close>

definition TURN :: bytes where "TURN = ascii ''TURN''"
definition WAIT :: bytes where "WAIT = ascii ''WAIT''"
definition WIN :: bytes where "WIN = ascii ''WIN''"
definition LOSE :: bytes where "LOSE = ascii ''LOSE''"
definition DRAW :: bytes where "DRAW = ascii ''DRAW''"

type_synonym sent = "(int \<times> bytes) list"

definition server2_sendGameState :: "int \<Rightarrow> bytes \<Rightarrow> sent \<Rightarrow> sent" where
  "server2_sendGameState c cmd sent = sent @ [(c, take 1023 (cstr cmd) @ [0])]"

text \<open>The tests after a move, and what they send to the two players.\<close>

definition server2_verdict :: "TicTacToe \<Rightarrow> (bytes \<times> bytes) option" where
  "server2_verdict t =
     (if ttt_checkWin t mark_X then Some (WIN, LOSE)
      else if ttt_checkWin t mark_O then Some (LOSE, WIN)
      else if ttt_isDraw t then Some (DRAW, DRAW) else None)"

datatype turn = Next_turn TicTacToe sent | Game_over TicTacToe sent | Player_left

text \<open>
  One turn of the loop: the players are told whose turn it is; the acknowledgement is read and ignored;
  then the move \<open>b\<close> is read and played.
\<close>

definition announce :: "int \<Rightarrow> int \<Rightarrow> TicTacToe \<Rightarrow> sent \<Rightarrow> sent" where
  "announce current opponent t sent =
     server2_sendGameState opponent WAIT (server2_sendGameState current TURN sent)"

definition players_of_turn :: "int \<Rightarrow> int \<Rightarrow> TicTacToe \<Rightarrow> int \<times> int" where
  "players_of_turn p1 p2 t = (if currentPlayer t = mark_X then (p1, p2) else (p2, p1))"

definition server2_move :: "int \<Rightarrow> int \<Rightarrow> int \<times> int \<Rightarrow> TicTacToe \<Rightarrow> bytes \<Rightarrow> sent \<Rightarrow> turn res" where
  "server2_move p1 p2 players t b sent =
     (let (current, opponent) = players in
      if b = [] then Inr Player_left
      else
        let buffer = cstr b in
        if strncmp_eq 5 buffer (MARK @ [32])
        then
          bindE (ttt_makeMove t (atoi (drop 5 buffer))) (\<lambda>(_, t).
          let sent = server2_sendGameState current buffer (server2_sendGameState opponent buffer sent) in
          case server2_verdict t of
            Some (m1, m2) \<Rightarrow>
              Inr (Game_over t (server2_sendGameState p2 m2 (server2_sendGameState p1 m1 sent)))
          | None \<Rightarrow> Inr (Next_turn t sent))
        else Inr (Next_turn t sent))"

definition server2_turn :: "int \<Rightarrow> int \<Rightarrow> TicTacToe \<Rightarrow> bytes \<Rightarrow> sent \<Rightarrow> turn res" where
  "server2_turn p1 p2 t b sent =
     (let (current, opponent) = players_of_turn p1 p2 t in
      server2_move p1 p2 (current, opponent) t b (announce current opponent t sent))"

fun server2_game :: "int \<Rightarrow> int \<Rightarrow> TicTacToe \<Rightarrow> sent \<Rightarrow> bytes list \<Rightarrow> turn res" where
  "server2_game p1 p2 t sent (ack # b # recvs) =
     bindE (server2_turn p1 p2 t b sent) (\<lambda>r.
     case r of
       Next_turn t sent \<Rightarrow> server2_game p1 p2 t sent recvs
     | Game_over t sent \<Rightarrow> Inr (Game_over t sent)
     | Player_left \<Rightarrow> Inr Player_left)"
| "server2_game p1 p2 t sent _ = Inl Blocked"

text \<open>\<open>junk\<close>: the value \<^verbatim>\<open>malloc\<close> leaves in \<^verbatim>\<open>turnCount\<close>.\<close>

definition server2_newBoard :: "int \<Rightarrow> TicTacToe" where
  "server2_newBoard junk =
     \<lparr>board = replicate 3 (replicate 3 blank), currentPlayer = mark_X, turnCount = junk\<rparr>"

definition server2_runGame :: "int \<Rightarrow> GameRoom \<Rightarrow> bytes list \<Rightarrow> turn res" where
  "server2_runGame junk room recvs =
     server2_game (player1Socket room) (player2Socket room) (server2_newBoard junk) [] recvs"

section \<open>The threads\<close>

text \<open>
  A game among the other threads.  The sockets of the turn are those of the room when it begins; the
  result of the game goes to those of the room when it ends.
\<close>

definition server2_gameStart :: "int \<Rightarrow> ServerP2 \<Rightarrow> nat \<Rightarrow> ServerP2" where
  "server2_gameStart junk s i =
     s\<lparr>rooms := (rooms s)[i := (rooms s ! i)\<lparr>room_t := Some (server2_newBoard junk)\<rparr>]\<rparr>"

definition server2_gameTurn :: "ServerP2 \<Rightarrow> int \<Rightarrow> nat \<Rightarrow> ServerP2 res" where
  "server2_gameTurn s c i =
     (let room = rooms s ! i in
      case room_t room of
        None \<Rightarrow> Inl NullDeref
      | Some t \<Rightarrow>
          let (current, opponent) = players_of_turn (player1Socket room) (player2Socket room) t in
          Inr (go c (In_game i (Some (current, opponent))) (s\<lparr>outbox := announce current opponent t (outbox s)\<rparr>)))"

definition server2_gameMove :: "ServerP2 \<Rightarrow> int \<Rightarrow> nat \<Rightarrow> int \<times> int \<Rightarrow> bytes \<Rightarrow> ServerP2 res" where
  "server2_gameMove s c i players b =
     (let room = rooms s ! i in
      case room_t room of
        None \<Rightarrow> Inl NullDeref
      | Some t \<Rightarrow>
          bindE (server2_move (player1Socket room) (player2Socket room) players t b (outbox s)) (\<lambda>r.
          case r of
            Next_turn t sent \<Rightarrow>
              Inr (go c (In_game i None) (s\<lparr>rooms := (rooms s)[i := room\<lparr>room_t := Some t\<rparr>], outbox := sent\<rparr>))
          | Game_over t sent \<Rightarrow> Inr (server2_endGame (s\<lparr>outbox := sent\<rparr>) c i)
          | Player_left \<Rightarrow> Inr (s\<lparr>exit_status := Some 0\<rparr>)))"

text \<open>
  The server's steps: a connection is accepted, and the threads go on in any order.  A game ends by
  exiting the process, whatever the other threads are doing.
\<close>

inductive server2_step :: "ServerP2 \<Rightarrow> ServerP2 \<Rightarrow> bool" where
  accept: "exit_status s = None \<Longrightarrow> 0 \<le> c \<Longrightarrow> threads s c = None \<Longrightarrow> server2_step s (go c Reading_command s)"
| command: "exit_status s = None \<Longrightarrow> threads s c = Some Reading_command \<Longrightarrow>
    server2_step s (server2_handleNewClient s c b)"
| join: "exit_status s = None \<Longrightarrow> threads s c = Some (Joining i) \<Longrightarrow> server2_step s (server2_joinRoom s c i)"
| create: "exit_status s = None \<Longrightarrow> threads s c = Some (Creating i) \<Longrightarrow>
    server2_step s (server2_createRoom s c i)"
| game_start: "exit_status s = None \<Longrightarrow> threads s c = Some (In_game i None) \<Longrightarrow> room_t (rooms s ! i) = None \<Longrightarrow>
    server2_step s (server2_gameStart junk s i)"
| game_turn: "exit_status s = None \<Longrightarrow> threads s c = Some (In_game i None) \<Longrightarrow>
    server2_gameTurn s c i = Inr s' \<Longrightarrow> server2_step s s'"
| game_move: "exit_status s = None \<Longrightarrow> threads s c = Some (In_game i (Some players)) \<Longrightarrow>
    server2_gameMove s c i players b = Inr s' \<Longrightarrow> server2_step s s'"

inductive_cases server2_stepE: "server2_step s s'"

section \<open>The client\<close>

text \<open>\<^verbatim>\<open>sscanf(s, "WORD %d", &n) == 1\<close>\<close>

definition scan_after :: "bytes \<Rightarrow> bytes \<Rightarrow> int option" where
  "scan_after word s =
     (if take (length word) s = word
      then map_option (\<lambda>(n, _). long_to_int n) (parse_int (drop (length word) s)) else None)"

text \<open>
  The room command is sent as it was typed.  \<open>typed\<close> is what calls of \<^verbatim>\<open>fgets\<close> give, lines of at most 15
  characters, or \<open>None\<close> for a failure.  The result is the command, what has been printed after \<open>out\<close>, and
  what is left to be typed.
\<close>

fun client2_handleRoomSelection ::
    "bytes \<Rightarrow> bytes option list \<Rightarrow> (bytes \<times> bytes \<times> bytes option list) res" where
  "client2_handleRoomSelection out [] = Inl Blocked"
| "client2_handleRoomSelection out (None # typed) =
     client2_handleRoomSelection (out @ ascii ''> Failed to read input'' @ [10]) typed"
| "client2_handleRoomSelection out (Some roomCommand # typed) =
     (case scan_after (ascii ''JOIN'') (cstr roomCommand) of
        None \<Rightarrow>
          client2_handleRoomSelection (out @ ascii ''> Invalid command. Use JOIN <roomId>'' @ [10]) typed
      | Some roomId \<Rightarrow>
          Inr (cstr roomCommand, out @ ascii ''> Joined room '' @ print_int roomId @ [10], typed))"

text \<open>The tests after a response, which take the client for the player of X whoever it is.\<close>

definition client2_verdict :: "TicTacToe \<Rightarrow> verdict option" where
  "client2_verdict t =
     (if ttt_checkWin t mark_X then Some You_won
      else if ttt_checkWin t mark_O then Some You_lost
      else if ttt_isDraw t then Some You_drew else None)"

datatype response = Got bytes TicTacToe bytes | Client_exits verdict bytes

text \<open>
  One response: \<open>None\<close> is a failed \<^verbatim>\<open>recv\<close>, which yields a null pointer that the caller compares; an
  empty one is a closed connection.  The last component of a response is what is printed.
\<close>

definition client2_receiveServerResponse :: "TicTacToe \<Rightarrow> bytes option \<Rightarrow> response res" where
  "client2_receiveServerResponse t recvd =
     (case recvd of
        None \<Rightarrow> Inl NullDeref
      | Some b \<Rightarrow>
        if b = [] then Inr (Client_exits Disconnected (ascii ''server closed connection'' @ [10]))
        else
          let buffer = cstr b; out = ascii ''received: '' @ buffer @ [10] in
          case scan_command buffer of
            Some (cmd, n) \<Rightarrow>
              if cmd = MARK
              then bindE (ttt_makeMove t n) (\<lambda>(_, t).
                Inr (Got buffer t (out @ ascii ''playing the move'' @ [10] @ ttt_drawBoard t)))
              else Inr (Got buffer t (out @ ascii ''Unrecognized command'' @ [10]))
          | None \<Rightarrow>
              if buffer = WIN then Inr (Client_exits You_won (out @ ascii ''You won'' @ [10]))
              else if buffer = LOSE then Inr (Client_exits You_lost (out @ ascii ''You lose'' @ [10]))
              else if buffer = DRAW then Inr (Client_exits You_drew (out @ ascii ''You drew'' @ [10]))
              else if buffer = TURN then Inr (Got buffer t (out @ ascii ''Your turn'' @ [10]))
              else if buffer = WAIT
              then Inr (Got buffer t (out @ ascii ''Opponent'' @ [39] @ ascii ''s turn'' @ [10]))
              else Inr (Got buffer t (out @ ascii ''Unrecognized command'' @ [10])))"

definition ACK :: bytes where "ACK = ascii ''ACK''"

text \<open>The client and its socket are those of the set-up, so the guards of \<^verbatim>\<open>client2_sendCommand\<close> hold.\<close>

definition client2_sendCommand :: "bytes \<Rightarrow> bytes list \<Rightarrow> bytes list" where
  "client2_sendCommand cmd sent = sent @ [cstr cmd]"

text \<open>The inner loop: lines until one is a move; \<open>None\<close> is a failed \<^verbatim>\<open>fgets\<close>, which ends it without a move.\<close>

fun client2_ask ::
    "TicTacToe \<Rightarrow> bytes list \<Rightarrow> bytes \<Rightarrow> bytes option list \<Rightarrow> (TicTacToe \<times> bytes list \<times> bytes \<times> bytes option list) res"
  where
  "client2_ask t sent out [] = Inl Blocked"
| "client2_ask t sent out (None # typed) = Inr (t, sent, out @ ascii ''> Failed to read input'' @ [10], typed)"
| "client2_ask t sent out (Some command # typed) =
     (case scan_after MARK (cstr command) of
        None \<Rightarrow> client2_ask t sent (out @ ascii ''> Invalid command. Use MARK <position>'' @ [10]) typed
      | Some position \<Rightarrow>
          bindE (ttt_makeMove t position)
            (\<lambda>(_, t). Inr (t, client2_sendCommand command sent, out @ ascii ''> '', typed)))"

text \<open>The game ends with its result, what the client has sent and printed, and its board.\<close>

type_synonym client2_end = "verdict \<times> bytes list \<times> bytes \<times> TicTacToe"

fun client2_loop ::
    "TicTacToe \<Rightarrow> bytes list \<Rightarrow> bytes \<Rightarrow> bytes option list \<Rightarrow> bytes option list \<Rightarrow> client2_end res" where
  "client2_loop t sent out [] typed = Inl Blocked"
| "client2_loop t sent out (r # recvs) typed =
     bindE (client2_receiveServerResponse t r) (\<lambda>resp.
     let out = out @ ascii ''Waiting for server response...'' @ [10] in
     case resp of
       Client_exits v shown \<Rightarrow> Inr (v, sent, out @ shown, t)
     | Got response t shown \<Rightarrow>
         let out = out @ shown @ ascii ''got response: '' @ response @ [10];
             sent = client2_sendCommand ACK sent in
         bindE (if response = TURN then client2_ask t sent out typed else Inr (t, sent, out, typed))
           (\<lambda>(t, sent, out, typed).
         case client2_verdict t of
           Some v \<Rightarrow> Inr (v, sent, out @ show_result v t, t)
         | None \<Rightarrow> client2_loop t sent (out @ [10]) recvs typed))"

definition client2_runGame ::
    "TicTacToe \<Rightarrow> bytes list \<Rightarrow> bytes \<Rightarrow> bytes option list \<Rightarrow> bytes option list \<Rightarrow> client2_end res" where
  "client2_runGame t sent out recvs typed =
     client2_loop t sent (out @ ascii ''Game started'' @ [10]) recvs typed"

text \<open>
  \<^verbatim>\<open>input_parser\<close>, which nothing calls: the command rebuilt from its number; \<^verbatim>\<open>snprintf\<close> keeps 15
  characters.
\<close>

definition scan_command_15 :: "bytes \<Rightarrow> (bytes \<times> int) option" where
  "scan_command_15 s =
     (case scan_word 15 s of
        None \<Rightarrow> None
      | Some (cmd, r) \<Rightarrow> map_option (\<lambda>(n, _). (cmd, long_to_int n)) (parse_int r))"

definition input_parser_p2 :: "bytes option \<Rightarrow> bytes list \<times> bytes" where
  "input_parser_p2 line =
     (case line of
        None \<Rightarrow> ([], ascii ''Error reading input'' @ [10])
      | Some l \<Rightarrow>
        (case scan_command_15 (cut_line l) of
           None \<Rightarrow> ([], ascii ''Invalid command'' @ [10])
         | Some (cmd, n) \<Rightarrow>
             if cmd = MARK then ([take 15 (MARK @ [32] @ print_int n)], [])
             else if cmd = ascii ''JOIN'' then ([take 15 (ascii ''JOIN '' @ print_int n)], [])
             else ([], ascii ''Invalid command'' @ [10])))"

text \<open>\<^verbatim>\<open>main\<close>, once connected: the room command, then the game.\<close>

definition client2_main :: "bytes option list \<Rightarrow> bytes option list \<Rightarrow> client2_end res" where
  "client2_main typed recvs =
     bindE (client2_handleRoomSelection [] typed) (\<lambda>(command, out, typed).
     client2_runGame ttt_new (client2_sendCommand command []) out recvs typed)"

end
