(* ===== verification/Rooms.thy ===== *)
theory Rooms
  imports Game_P2 Reachability
begin

text \<open>
  The rooms of \<^verbatim>\<open>server-p2.c\<close> under every interleaving of its threads: the invariant of the reachable
  states.
\<close>

section \<open>The invariant\<close>

fun in_game :: "nat \<Rightarrow> thread option \<Rightarrow> bool" where
  "in_game i (Some (In_game j _)) \<longleftrightarrow> j = i"
| "in_game i _ \<longleftrightarrow> False"

lemma in_game_iff: "in_game i th \<longleftrightarrow> (\<exists>w. th = Some (In_game i w))"
  by (cases "(i, th)" rule: in_game.cases) auto

text \<open>
  A player of a room is a client that has left \<^verbatim>\<open>server2_joinRoom\<close>, or that runs the room's game; a
  game runs exactly while some thread is in it.
\<close>

definition settled :: "ServerP2 \<Rightarrow> nat \<Rightarrow> int \<Rightarrow> bool" where
  "settled s i c \<longleftrightarrow> c = - 1 \<or> 0 \<le> c \<and> (threads s c = Some Returned \<or> in_game i (threads s c))"

definition players_ok :: "ServerP2 \<Rightarrow> nat \<Rightarrow> bool" where
  "players_ok s i \<longleftrightarrow>
     (let r = rooms s ! i in
      numActivePlayers r \<in> {0, 1, 2}
      \<and> (numActivePlayers r \<noteq> 0 \<longrightarrow> player1Socket r \<noteq> - 1) \<and> (numActivePlayers r = 2 \<longrightarrow> player2Socket r \<noteq> - 1)
      \<and> settled s i (player1Socket r) \<and> settled s i (player2Socket r)
      \<and> (player1Socket r = player2Socket r \<longrightarrow> player1Socket r = - 1))"

definition one_game :: "ServerP2 \<Rightarrow> nat \<Rightarrow> bool" where
  "one_game s i \<longleftrightarrow> (gameRunning (rooms s ! i) \<longleftrightarrow> (\<exists>c. in_game i (threads s c)))
     \<and> (\<forall>c d. in_game i (threads s c) \<and> in_game i (threads s d) \<longrightarrow> c = d)"

definition fair_game :: "ServerP2 \<Rightarrow> nat \<Rightarrow> bool" where
  "fair_game s i \<longleftrightarrow> (\<forall>t. room_t (rooms s ! i) = Some t \<longrightarrow> fair t)"

definition room_inv :: "ServerP2 \<Rightarrow> nat \<Rightarrow> bool" where
  "room_inv s i \<longleftrightarrow> players_ok s i \<and> one_game s i \<and> fair_game s i"

definition server2_inv :: "ServerP2 \<Rightarrow> bool" where
  "server2_inv s \<longleftrightarrow> length (rooms s) = 5 \<and> (\<forall>i < 5. exit_status s = None \<longrightarrow> room_inv s i)
     \<and> (\<forall>c. threads s c \<noteq> None \<longrightarrow> 0 \<le> c)
     \<and> (\<forall>c i. threads s c \<in> {Some (Joining i), Some (Creating i)} \<or> in_game i (threads s c) \<longrightarrow> i < 5)"

definition server2_initial :: "ServerP2 \<Rightarrow> bool" where
  "server2_initial s \<longleftrightarrow> s = server2_new (replicate 5 False)"

lemma go_simps [simp]:
  "rooms (go c th s) = rooms s" "threads (go c th s) = (threads s)(c \<mapsto> th)"
  "exit_status (go c th s) = exit_status s" "closed (go c th s) = closed s"
  "rooms (close_socket c s) = rooms s" "threads (close_socket c s) = threads s"
  "exit_status (close_socket c s) = exit_status s" "closed (close_socket c s) = c # closed s"
  by (simp_all add: go_def close_socket_def)

lemma start_inv: "server2_initial s \<Longrightarrow> server2_inv s"
  by (auto simp: server2_initial_def server2_inv_def server2_new_def new_room_def room_inv_def players_ok_def one_game_def fair_game_def
      settled_def Let_def)

definition pending :: "thread option \<Rightarrow> bool" where
  "pending th \<longleftrightarrow> (\<forall>i. \<not> in_game i th) \<and> th \<noteq> Some Returned"

lemma settled_pending:
  assumes "settled s i d" "pending (threads s c)" "0 \<le> c"
  shows "d \<noteq> c" "threads s' = (threads s)(c \<mapsto> th) \<Longrightarrow> settled s' i d"
  using assms by (auto simp: settled_def pending_def)

text \<open>A thread that has not settled is no player, so moving it on keeps the rooms it does not touch.\<close>

lemma room_inv_go:
  assumes "room_inv s i" "threads s c \<noteq> Some Returned" "\<not> in_game i (threads s c)"
    and "\<not> in_game i (Some th)" "rooms s' ! i = rooms s ! i" "threads s' = (threads s)(c \<mapsto> th)"
  shows "room_inv s' i"
proof -
  have "settled s i d \<Longrightarrow> settled s' i d" for d
    using assms(2,3,6) by (auto simp: settled_def)
  moreover have "in_game i (threads s' d) \<longleftrightarrow> in_game i (threads s d)" for d
    using assms(3,4,6) by auto
  ultimately show ?thesis
    using assms(1,5) by (simp add: room_inv_def players_ok_def one_game_def fair_game_def Let_def)
qed

lemma one_game_cong:
  assumes "one_game s i" "gameRunning (rooms s' ! i) = gameRunning (rooms s ! i)"
    and "\<And>d. in_game i (threads s' d) \<longleftrightarrow> in_game i (threads s d)"
  shows "one_game s' i"
  using assms by (simp add: one_game_def)

text \<open>
  A step of a pending thread that changes at most room \<open>i\<close>: it is enough to look at that room.
\<close>

lemma inv_local:
  assumes "server2_inv s" "exit_status s = None" "pending (threads s c)" "0 \<le> c"
    and "length (rooms s') = 5" "threads s' = (threads s)(c \<mapsto> th)"
    and "\<And>j. j \<noteq> i \<Longrightarrow> j < 5 \<Longrightarrow> rooms s' ! j = rooms s ! j \<and> \<not> in_game j (Some th)"
    and "i < 5 \<Longrightarrow> room_inv s' i" "\<forall>j. th \<in> {Joining j, Creating j} \<or> in_game j (Some th) \<longrightarrow> j < 5"
  shows "server2_inv s'"
proof -
  have "room_inv s' j" if "j < 5" for j
  proof (cases "j = i")
    case True
    then show ?thesis
      using assms(8) that by simp
  next
    case False
    then show ?thesis
      using room_inv_go [of s j c th s'] assms(1-3,6,7) that by (auto simp: server2_inv_def pending_def)
  qed
  then show ?thesis
    using assms(1,4-6,9) by (auto simp: server2_inv_def)
qed

text \<open>A step that leaves the rooms alone.\<close>

lemma inv_thread:
  assumes "server2_inv s" "exit_status s = None" "pending (threads s c)" "0 \<le> c"
    and "rooms s' = rooms s" "threads s' = (threads s)(c \<mapsto> th)" "\<And>i. \<not> in_game i (Some th)"
    and "\<forall>j. th \<in> {Joining j, Creating j} \<longrightarrow> j < 5"
  shows "server2_inv s'"
proof (rule inv_local [OF assms(1-4), where i = 0])
  show "room_inv s' 0"
    using room_inv_go [of s 0 c th s'] assms by (auto simp: server2_inv_def pending_def)
qed (use assms in \<open>auto simp: server2_inv_def\<close>)

text \<open>A step that changes the room it is about and settles the thread.\<close>

lemma inv_room:
  assumes "server2_inv s" "exit_status s = None" "pending (threads s c)" "0 \<le> c" "i < 5"
    and "rooms s' = (rooms s)[i := r]" "threads s' = (threads s)(c \<mapsto> th)" "th = Returned \<or> th = In_game i None"
    and "room_inv s' i"
  shows "server2_inv s'"
proof (rule inv_local [OF assms(1-4) _ assms(7)])
  show "length (rooms s') = 5"
    using assms(1,6) by (simp add: server2_inv_def)
  show "rooms s' ! j = rooms s ! j \<and> \<not> in_game j (Some th)" if "j \<noteq> i" "j < 5" for j
    using assms(6,8) that by auto
  show "\<forall>j. th \<in> {Joining j, Creating j} \<or> in_game j (Some th) \<longrightarrow> j < 5"
    using assms(5,8) by auto
qed (rule assms(9))

lemma handleNewClient_inv:
  assumes "server2_inv s" "exit_status s = None" "threads s c = Some Reading_command"
  shows "server2_inv (server2_handleNewClient s c b)"
proof -
  have c: "pending (threads s c)" "0 \<le> c"
    using assms(1,3) by (auto simp: pending_def server2_inv_def)
  have joining: "server2_inv (go c (Joining n) s)" if "n < 5" for n
    by (rule inv_thread [OF assms(1,2) c]) (use that in auto)
  have returned: "server2_inv (go c Returned s)" "server2_inv (go c Returned (close_socket c s))"
    by (rule inv_thread [OF assms(1,2) c]; auto)+
  have exits: "server2_inv (s'\<lparr>exit_status := Some n\<rparr>)" if "rooms s' = rooms s" "threads s' = threads s" for n s'
    using assms(1) that by (auto simp: server2_inv_def)
  show ?thesis
    using joining returned exits [of "close_socket c s"] by (auto simp: server2_handleNewClient_def Let_def)
qed

lemma createRoom_inv:
  assumes "server2_inv s" "exit_status s = None" "threads s c = Some (Creating i)"
  shows "server2_inv (server2_createRoom s c i)"
proof -
  have c: "pending (threads s c)" "0 \<le> c" "i < 5" "length (rooms s) = 5"
    using assms(1,3) by (auto simp: pending_def server2_inv_def)
  have r: "room_inv s i"
    using assms(1,2) c(3) by (simp add: server2_inv_def)
  let ?s = "server2_createRoom s c i"
  have rs: "rooms ?s = (rooms s)[i := (rooms s ! i)\<lparr>player1Socket := c, numActivePlayers := 1\<rparr>]"
    by (simp add: server2_createRoom_def)
  have s': "threads ?s = (threads s)(c \<mapsto> Returned)"
    "rooms ?s ! i = (rooms s ! i)\<lparr>player1Socket := c, numActivePlayers := 1\<rparr>"
    using c(3,4) by (simp_all add: server2_createRoom_def)
  have p2: "settled s i (player2Socket (rooms s ! i))"
    using r by (simp add: room_inv_def players_ok_def Let_def)
  have "settled ?s i c"
    using c(2) by (simp add: s' settled_def)
  with settled_pending(1) [OF p2 c(1,2)] settled_pending(2) [OF p2 c(1,2) s'(1)] c(2)
  have "players_ok ?s i"
    by (simp add: players_ok_def Let_def s')
  moreover have "one_game ?s i"
    by (rule one_game_cong [of s i]) (use r assms(3) in \<open>auto simp: s' room_inv_def\<close>)
  moreover have "fair_game ?s i"
    using r by (simp add: room_inv_def fair_game_def s')
  ultimately have "room_inv (server2_createRoom s c i) i"
    by (simp add: room_inv_def)
  with rs s'(1) show ?thesis
    by (intro inv_room [OF assms(1,2) c(1-3) rs s'(1)]) simp_all
qed

text \<open>The second player takes the room: its thread plays the game, or finds one running and returns.\<close>

lemma second_player_inv:
  assumes "server2_inv s" "exit_status s = None" "threads s c = Some (Joining i)"
    and "numActivePlayers (rooms s ! i) = 1"
    and "rooms s' = (rooms s)[i := (rooms s ! i)\<lparr>player2Socket := c, numActivePlayers := 2, gameRunning := True\<rparr>]"
    and "threads s' = (threads s)(c \<mapsto> th)" "th = (if gameRunning (rooms s ! i) then Returned else In_game i None)"
  shows "server2_inv s'"
proof -
  let ?r = "rooms s ! i"
  have c: "pending (threads s c)" "0 \<le> c" "i < 5" "length (rooms s) = 5"
    using assms(1,3) by (auto simp: pending_def server2_inv_def)
  have r: "room_inv s i"
    using assms(1,2) c(3) by (simp add: server2_inv_def)
  have r': "rooms s' ! i = ?r\<lparr>player2Socket := c, numActivePlayers := 2, gameRunning := True\<rparr>"
    using c(3,4) by (simp add: assms(5))
  have p1: "settled s i (player1Socket ?r)" "player1Socket ?r \<noteq> - 1"
    using r assms(4) by (simp_all add: room_inv_def players_ok_def Let_def)
  have "settled s' i c"
    using c(2) by (simp add: settled_def assms(6,7))
  with p1 c(2) settled_pending(1) [OF p1(1) c(1,2)] settled_pending(2) [OF p1(1) c(1,2) assms(6)]
  have "players_ok s' i"
    by (simp add: players_ok_def Let_def r')
  moreover have "one_game s' i"
  proof (cases "gameRunning ?r")
    case True
    show ?thesis
      by (rule one_game_cong [of s i]) (use True r assms(3) in \<open>auto simp: r' assms(6,7) room_inv_def\<close>)
  next
    case False
    then show ?thesis
      using r by (auto simp: one_game_def r' assms(6,7) room_inv_def)
  qed
  moreover have "fair_game s' i"
    using r by (simp add: room_inv_def fair_game_def r')
  ultimately show ?thesis
    using assms(7) by (intro inv_room [OF assms(1,2) c(1-3) assms(5,6)]) (simp_all add: room_inv_def)
qed

lemma running_update: "gameRunning r \<Longrightarrow>
   r\<lparr>player2Socket := c, numActivePlayers := 2, gameRunning := True\<rparr> = r\<lparr>player2Socket := c, numActivePlayers := 2\<rparr>"
  by (cases r) simp

lemma joinRoom_inv:
  assumes "server2_inv s" "exit_status s = None" "threads s c = Some (Joining i)"
  shows "server2_inv (server2_joinRoom s c i)"
proof -
  have c: "pending (threads s c)" "0 \<le> c" "i < 5"
    using assms(1,3) by (auto simp: pending_def server2_inv_def)
  consider (one) "numActivePlayers (rooms s ! i) = 1" | (empty) "numActivePlayers (rooms s ! i) = 0"
    | (full) "numActivePlayers (rooms s ! i) \<noteq> 0" "numActivePlayers (rooms s ! i) \<noteq> 1"
    by blast
  then show ?thesis
  proof cases
    case one
    show ?thesis
      by (rule second_player_inv [OF assms one _ _ refl])
         (simp_all add: server2_joinRoom_def one Let_def running_update)
  next
    case empty
    then show ?thesis
      by (intro inv_thread [OF assms(1,2) c(1,2), of _ "Creating i"])
         (use c in \<open>auto simp: server2_joinRoom_def Let_def\<close>)
  next
    case full
    then show ?thesis
      by (intro inv_thread [OF assms(1,2) c(1,2), of _ Returned])
         (use c in \<open>auto simp: server2_joinRoom_def Let_def\<close>)
  qed
qed

lemma endGame_inv: "server2_inv s \<Longrightarrow> server2_inv (server2_endGame s c i)"
  if "in_game i (threads s c)"
  using that by (auto simp: server2_inv_def server2_endGame_def Let_def in_game_iff)

text \<open>A step of a game that goes on changes only the board.\<close>

lemma inv_board:
  assumes "server2_inv s" "exit_status s = None" "fair t" "in_game i (threads s c)" "in_game i (threads s' c)"
    and "rooms s' = (rooms s)[i := (rooms s ! i)\<lparr>room_t := Some t\<rparr>]" "\<And>d. d \<noteq> c \<Longrightarrow> threads s' d = threads s d"
  shows "server2_inv s'"
proof -
  have same: "in_game j (threads s' d) \<longleftrightarrow> in_game j (threads s d)" for j d
    using assms(4,5,7) by (cases "d = c") (auto simp: in_game_iff)
  have other: "threads s' d = Some th \<longleftrightarrow> threads s d = Some th" if "\<And>w. th \<noteq> In_game i w" for d th
    using assms(4,5,7) that by (cases "d = c") (auto simp: in_game_iff)
  have room: "room_inv s' j" if "j < 5" for j
  proof -
    have old: "room_inv s j" and len: "j < length (rooms s)"
      using assms(1,2) that by (simp_all add: server2_inv_def)
    have settled: "settled s' k = settled s k" for k
      by (simp add: settled_def same other fun_eq_iff)
    show ?thesis
      using old len assms(3) by (cases "j = i")
        (simp_all add: room_inv_def players_ok_def one_game_def fair_game_def Let_def settled same assms(6))
  qed
  have "threads s' d \<noteq> None \<longleftrightarrow> threads s d \<noteq> None" for d
    using assms(4,5,7) by (cases "d = c") (auto simp: in_game_iff)
  then show ?thesis
    using assms(1,6) room by (simp add: server2_inv_def same other)
qed

lemma newBoard_fair: "fair (server2_newBoard junk)"
  by (simp add: fair_def server2_newBoard_def wf_board_def tally_def cells_def numeral_3_eq_3)

lemma move_fair:
  assumes "fair t" "server2_move p1 p2 players t b sent = Inr (Next_turn t' sent')"
  shows "fair t'"
  using assms makeMove_fair [OF assms(1)]
  by (auto simp: server2_move_def Let_def bindE_eq_Inr split: if_splits option.splits prod.splits)

lemma outbox_inv: "server2_inv s \<Longrightarrow> server2_inv (s\<lparr>outbox := sent\<rparr>)"
  by (simp add: server2_inv_def room_inv_def players_ok_def one_game_def fair_game_def settled_def)

lemma game_room:
  assumes "server2_inv s" "exit_status s = None" "in_game i (threads s c)" "room_t (rooms s ! i) = Some t"
  shows "fair t"
proof -
  have "i < 5"
    using assms(1,3) by (auto simp: server2_inv_def)
  then show ?thesis
    using assms(1,2,4) by (simp add: server2_inv_def room_inv_def fair_game_def)
qed

lemma gameTurn_inv:
  assumes "server2_inv s" "exit_status s = None" "in_game i (threads s c)" "server2_gameTurn s c i = Inr s'"
  shows "server2_inv s'"
proof -
  obtain t where t: "room_t (rooms s ! i) = Some t"
    using assms(4) by (auto simp: server2_gameTurn_def Let_def split: option.splits)
  have "rooms s' = rooms s" "in_game i (threads s' c)" "\<And>d. d \<noteq> c \<Longrightarrow> threads s' d = threads s d"
    using assms(4) t by (auto simp: server2_gameTurn_def Let_def split: prod.splits)
  moreover have "rooms s = (rooms s)[i := (rooms s ! i)\<lparr>room_t := Some t\<rparr>]"
    using t by (cases "rooms s ! i") (simp, metis list_update_id)
  ultimately show ?thesis
    using game_room [OF assms(1-3) t] by (intro inv_board [OF assms(1,2) _ assms(3)]) auto
qed

lemma gameMove_inv:
  assumes "server2_inv s" "exit_status s = None" "in_game i (threads s c)"
    and "server2_gameMove s c i players b = Inr s'"
  shows "server2_inv s'"
proof -
  obtain t r where t: "room_t (rooms s ! i) = Some t"
    and r: "server2_move (player1Socket (rooms s ! i)) (player2Socket (rooms s ! i)) players t b (outbox s) = Inr r"
    using assms(4) by (auto simp: server2_gameMove_def Let_def bindE_eq_Inr split: option.splits)
  note f = game_room [OF assms(1-3) t]
  show ?thesis
  proof (cases r)
    case (Next_turn t' sent')
    have "fair t'"
      using move_fair [OF f] r Next_turn by blast
    then show ?thesis
      by (rule inv_board [OF assms(1,2) _ assms(3)])
         (use assms(4) t r Next_turn in \<open>auto simp: server2_gameMove_def\<close>)
  next
    case (Game_over t' sent')
    from endGame_inv [OF _ outbox_inv [OF assms(1)], where i = i and c = c] show ?thesis
      using assms(3,4) t r Game_over by (auto simp: server2_gameMove_def)
  next
    case Player_left
    then show ?thesis
      using assms(1,4) t r by (auto simp: server2_gameMove_def server2_inv_def)
  qed
qed

interpretation rooms: inductive_invariant server2_initial server2_step server2_inv
proof unfold_locales
  show "server2_inv s" if "server2_initial s" for s
    using that by (rule start_inv)
  show "server2_inv s'" if "server2_inv s" "server2_step s s'" for s s'
    using that(2)
  proof cases
    case (accept c)
    then show ?thesis
      using inv_thread [OF that(1) accept(2), of c s' Reading_command] by (simp add: pending_def)
  next
    case (game_start c i junk)
    then show ?thesis
      by (intro inv_board [OF that(1) game_start(2) newBoard_fair, of i c]) (simp_all add: server2_gameStart_def)
  next
    case (game_turn c i)
    then show ?thesis
      using gameTurn_inv [OF that(1), of i c] by simp
  next
    case (game_move c i players b)
    then show ?thesis
      using gameMove_inv [OF that(1), of i c] by simp
  qed (use that(1) handleNewClient_inv joinRoom_inv createRoom_inv in auto)
qed

section \<open>A game as steps\<close>

text \<open>A game that ends, as a function of its reads, is a run of the server in which only its thread moves.\<close>

lemma turn_is_steps:
  assumes "exit_status s = None" "threads s c = Some (In_game i None)" "room_t (rooms s ! i) = Some t"
    and "server2_turn (player1Socket (rooms s ! i)) (player2Socket (rooms s ! i)) t b (outbox s) = Inr x"
  shows "\<exists>s1 players. server2_step s s1 \<and> threads s1 c = Some (In_game i (Some players))
    \<and> rooms s1 = rooms s \<and> exit_status s1 = None
    \<and> server2_move (player1Socket (rooms s ! i)) (player2Socket (rooms s ! i)) players t b (outbox s1) = Inr x"
proof -
  obtain cur opp where p: "players_of_turn (player1Socket (rooms s ! i)) (player2Socket (rooms s ! i)) t = (cur, opp)"
    by fastforce
  let ?s1 = "go c (In_game i (Some (cur, opp))) (s\<lparr>outbox := announce cur opp t (outbox s)\<rparr>)"
  have "server2_gameTurn s c i = Inr ?s1"
    using assms(3) p by (simp add: server2_gameTurn_def)
  from server2_step.game_turn [OF assms(1,2) this] have "server2_step s ?s1" .
  moreover have "outbox ?s1 = announce cur opp t (outbox s)"
    by (simp add: go_def)
  ultimately show ?thesis
    using assms(1,4) p by (intro exI [of _ ?s1] exI [of _ "(cur, opp)"]) (simp add: server2_turn_def)
qed

lemma game_is_steps:
  assumes "server2_game p1 p2 t sent recvs = Inr (Game_over t' sent')"
    and "exit_status s = None" "threads s c = Some (In_game i None)" "i < length (rooms s)"
    and "rooms s ! i = r" "player1Socket r = p1" "player2Socket r = p2" "room_t r = Some t" "outbox s = sent"
  shows "\<exists>s'. server2_step\<^sup>*\<^sup>* s s' \<and> exit_status s' = Some 0 \<and> outbox s' = sent'"
  using assms
proof (induction p1 p2 t sent recvs arbitrary: s r rule: server2_game.induct)
  case (1 p1 p2 t sent ack b recvs)
  then obtain x where x: "server2_turn p1 p2 t b sent = Inr x"
    by (auto simp: bindE_eq_Inr)
  obtain s1 players where s1: "server2_step s s1" "threads s1 c = Some (In_game i (Some players))"
    "rooms s1 = rooms s" "exit_status s1 = None" "server2_move p1 p2 players t b (outbox s1) = Inr x"
    using turn_is_steps [of s c i t b x] "1.prems" x by auto
  note move = server2_step.game_move [OF s1(4,2), of b]
  show ?case
  proof (cases x)
    case (Next_turn t1 sent1)
    let ?s = "go c (In_game i None) (s1\<lparr>rooms := (rooms s1)[i := r\<lparr>room_t := Some t1\<rparr>], outbox := sent1\<rparr>)"
    have "server2_step s1 ?s"
      using "1.prems" s1 Next_turn by (intro move) (simp add: server2_gameMove_def)
    moreover have "outbox ?s = sent1"
      by (simp add: go_def)
    then obtain s' where "server2_step\<^sup>*\<^sup>* ?s s'" "exit_status s' = Some 0" "outbox s' = sent'"
      using "1.IH" [of t1 sent1 ?s "r\<lparr>room_t := Some t1\<rparr>"] "1.prems" x Next_turn s1 by auto
    ultimately show ?thesis
      using s1(1) by (intro exI [of _ s']) (simp add: converse_rtranclp_into_rtranclp)
  next
    case (Game_over t1 sent1)
    then have e: "t1 = t'" "sent1 = sent'"
      using "1.prems"(1) x by simp_all
    let ?s = "server2_endGame (s1\<lparr>outbox := sent'\<rparr>) c i"
    have "server2_step s1 ?s"
      using "1.prems" s1 Game_over e by (intro move) (simp add: server2_gameMove_def)
    moreover have "exit_status ?s = Some 0" "outbox ?s = sent'"
      by (simp_all add: server2_endGame_def Let_def go_def close_socket_def)
    ultimately show ?thesis
      using s1(1) by (meson converse_rtranclp_into_rtranclp rtranclp.rtrancl_refl)
  next
    case Player_left
    then show ?thesis
      using "1.prems"(1) x by simp
  qed
qed simp_all

end
