(* ===== verification/Game_Properties.thy ===== *)
theory Game_Properties
  imports Game_P1
begin

text \<open>
  The game is played by the rules, and the two programs that play it over a connection agree: lemmas
  on one message, and the properties of whole games.
\<close>

section \<open>One message each\<close>

definition opposite :: "verdict \<Rightarrow> verdict" where
  "opposite v = (case v of You_won \<Rightarrow> You_lost | You_lost \<Rightarrow> You_won | x \<Rightarrow> x)"

lemma server_handles_line:
  assumes "j < 10" "ttt_makeMove t (int j) = Inr (True, t')"
  shows "server_handleServerMove \<lparr>io_board = t, io_stdin = mark_text j @ 10 # inp, io_sent = s, io_out = out\<rparr> =
    (let io = \<lparr>io_board = t', io_stdin = inp, io_sent = s @ [mark_text j @ [0]], io_out = out @ ascii ''> ''\<rparr>
     in case server_verdict t' of
          Some v \<Rightarrow> Inr (Ended v (server_print (show_result v t') io)) | None \<Rightarrow> Inr (Playing io))"
proof -
  have "fgets_line 15 (mark_text j @ 10 # inp) = mark_text j @ [10]"
    by (rule fgets_line_newline) (simp_all add: mark_text_parse [OF assms(1)])
  moreover have "cut_line (mark_text j @ [10]) = mark_text j" "cstr (mark_text j) = mark_text j"
    using mark_text_parse [OF assms(1)] cut_line_newline by simp_all
  ultimately show ?thesis
    using assms(2) mark_text_parse(1) [OF assms(1)]
    by (simp add: server_handleServerMove.simps [of "\<lparr>io_board = t, io_stdin = mark_text j @ 10 # inp, io_sent = s, io_out = out\<rparr>"]
        server_sendGameState_def server_print_def Let_def split: option.split)
qed

lemma server_handles_message:
  assumes "k < 10" "ttt_makeMove t (int k) = Inr (True, t')"
  shows "server_message \<lparr>io_board = t, io_stdin = inp, io_sent = s, io_out = out\<rparr> (mark_text k) =
    (case server_verdict t' of
       Some v \<Rightarrow> Inr (Ended v \<lparr>io_board = t', io_stdin = inp, io_sent = s @ [MARK @ [0]],
         io_out = out @ show_result v t'\<rparr>)
     | None \<Rightarrow> server_handleServerMove \<lparr>io_board = t', io_stdin = inp, io_sent = s,
         io_out = out @ ttt_drawBoard t'\<rparr>)"
proof -
  have "cstr (mark_text k) = mark_text k" "mark_text k \<noteq> []" "MARK \<noteq> TIMEOUT" "take 1023 (cstr MARK) = MARK"
    using mark_text_parse(6) [OF assms(1)] by (simp_all add: mark_text_def MARK_def TIMEOUT_def)
  then show ?thesis
    using mark_text_parse [OF assms(1)] assms(2)
    by (simp add: server_message_def server_sendGameState_def server_print_def Let_def split: option.split)
qed

lemma client_handles_line:
  assumes "k < 10" "ttt_makeMove t (int k) = Inr (True, t')"
  shows "input_parser_p1 \<lparr>ci_board = t, ci_keys = Typed (mark_text k @ [10]) # ks, ci_sent = s, ci_out = out\<rparr> =
    (let io = \<lparr>ci_board = t', ci_keys = ks, ci_sent = s @ [mark_text k], ci_out = out @ ascii ''> ''\<rparr>
     in case client_verdict t' of
          Some v \<Rightarrow> Inr (C_ended v (client_print (show_result v t') io)) | None \<Rightarrow> Inr (C_playing io))"
proof -
  have "cut_line (mark_text k @ [10]) = mark_text k" "cstr (mark_text k) = mark_text k"
    using mark_text_parse [OF assms(1)] cut_line_newline by simp_all
  then show ?thesis
    using mark_text_parse(1) [OF assms(1)] assms(2)
    by (simp add: input_parser_p1_def client_sendCommand_def client_print_def Let_def split: option.split)
qed

lemma client_handles_response:
  assumes "j < 10" "ttt_makeMove t (int j) = Inr (ok, t')"
  shows "client_receiveServerResponse t (mark_text j @ [0]) = Inr (t', ttt_drawBoard t')"
proof -
  have "cstr (mark_text j @ [0]) = mark_text j"
    using cstr_append_replicate [of "mark_text j" 1] mark_text_parse(6) [OF assms(1)] by simp
  then show ?thesis
    using mark_text_parse(1) [OF assms(1)] assms(2) by (simp add: client_receiveServerResponse_def)
qed

section \<open>The verdicts\<close>

lemma moved_keeps_line:
  assumes "moved t k t'" "has_line t' p" "p \<noteq> currentPlayer t" "wf_board (board t)"
  shows "has_line t p"
proof -
  have k: "k < length (cells t)" "cells t' = (cells t)[k := currentPlayer t]"
    using assms(1,4) length_cells by (auto simp: moved_def)
  then have "cells t' ! n = p \<Longrightarrow> cells t ! n = p" for n
    using assms(3) by (cases "n = k") auto
  then show ?thesis
    using assms(2) unfolding has_line_def by fast
qed

lemma verdict_None: "client_verdict t = None \<longleftrightarrow> server_verdict t = None"
  by (auto simp: client_verdict_def server_verdict_def)

text \<open>After a move in a game nobody had won, at most one player has a line.\<close>

lemma verdicts_opposite:
  assumes "ttt_inv t" "server_verdict t = None" "ttt_makeMove t m = Inr (True, t')"
  shows "client_verdict t' = map_option opposite (server_verdict t')"
proof -
  have mv: "moved t (nat (m - 1)) t'" and wf: "wf_board (board t)"
    using makeMove_True [OF assms(1,3)] assms(1) by (auto simp: ttt_inv_def)
  have no: "\<not> has_line t mark_X" "\<not> has_line t mark_O"
    using assms(2) by (auto simp: server_verdict_def checkWin_has_line [OF wf] split: if_splits)
  have "\<not> (has_line t' mark_X \<and> has_line t' mark_O)"
    using moved_keeps_line [OF mv _ _ wf] no by (metis marks_distinct(1))
  then show ?thesis
    using mv by (auto simp: client_verdict_def server_verdict_def checkWin_has_line moved_def opposite_def)
qed

section \<open>Rounds\<close>

text \<open>
  A round is a move of the client and one of the server, both accepted, with nobody winning.
\<close>

fun rounds :: "TicTacToe \<Rightarrow> (nat \<times> nat) list \<Rightarrow> TicTacToe \<Rightarrow> bool" where
  "rounds t [] t' \<longleftrightarrow> t' = t"
| "rounds t ((k, j) # ms) t' \<longleftrightarrow> k < 10 \<and> j < 10 \<and>
     (\<exists>t1 t2. ttt_makeMove t (int k) = Inr (True, t1) \<and> server_verdict t1 = None
       \<and> ttt_makeMove t1 (int j) = Inr (True, t2) \<and> server_verdict t2 = None \<and> rounds t2 ms t')"

definition client_lines :: "(nat \<times> nat) list \<Rightarrow> key_event list" where
  "client_lines ms = map (\<lambda>(k, j). Typed (mark_text k @ [10])) ms"

definition client_messages :: "(nat \<times> nat) list \<Rightarrow> bytes list" where
  "client_messages ms = map (\<lambda>(k, j). mark_text k) ms"

definition server_lines :: "(nat \<times> nat) list \<Rightarrow> bytes" where
  "server_lines ms = concat (map (\<lambda>(k, j). mark_text j @ [10]) ms)"

definition server_messages :: "(nat \<times> nat) list \<Rightarrow> bytes list" where
  "server_messages ms = map (\<lambda>(k, j). mark_text j @ [0]) ms"

text \<open>What the two programs print in the rounds: each shows the board after the other's move.\<close>

fun server_prints :: "TicTacToe \<Rightarrow> (nat \<times> nat) list \<Rightarrow> bytes" where
  "server_prints t [] = []"
| "server_prints t ((k, j) # ms) =
     (let t1 = snd (projr (ttt_makeMove t (int k))); t2 = snd (projr (ttt_makeMove t1 (int j)))
      in ttt_drawBoard t1 @ ascii ''> '' @ server_prints t2 ms)"

fun client_prints :: "TicTacToe \<Rightarrow> (nat \<times> nat) list \<Rightarrow> bytes" where
  "client_prints t [] = []"
| "client_prints t ((k, j) # ms) =
     (let t1 = snd (projr (ttt_makeMove t (int k))); t2 = snd (projr (ttt_makeMove t1 (int j)))
      in ascii ''> '' @ ttt_drawBoard t2 @ client_prints t2 ms)"

lemmas transcript_defs = client_lines_def client_messages_def server_lines_def server_messages_def

lemma rounds_inv: "ttt_inv t \<Longrightarrow> rounds t ms t' \<Longrightarrow> ttt_inv t'"
proof (induction t ms t' rule: rounds.induct)
  case (2 t k j ms t')
  then obtain t1 t2 where "ttt_makeMove t (int k) = Inr (True, t1)" "ttt_makeMove t1 (int j) = Inr (True, t2)"
    "rounds t2 ms t'"
    by auto
  with 2 ttt.inv_step ttt_step.move show ?case
    by metis
qed simp

lemma rounds_verdict: "server_verdict t = None \<Longrightarrow> rounds t ms t' \<Longrightarrow> server_verdict t' = None"
  by (induction t ms t' rule: rounds.induct) auto

lemma new_verdict: "server_verdict ttt_new = None"
  by code_simp

lemma server_rounds:
  "rounds t ms t' \<Longrightarrow>
   server_runGame \<lparr>io_board = t, io_stdin = server_lines ms @ inp, io_sent = s, io_out = out\<rparr> (client_messages ms @ bs)
   = server_runGame \<lparr>io_board = t', io_stdin = inp, io_sent = s @ server_messages ms,
       io_out = out @ server_prints t ms\<rparr> bs"
proof (induction t ms t' arbitrary: s out rule: rounds.induct)
  case (2 t k j ms t')
  then obtain t1 t2 where m: "k < 10" "j < 10" "ttt_makeMove t (int k) = Inr (True, t1)" "server_verdict t1 = None"
    "ttt_makeMove t1 (int j) = Inr (True, t2)" "server_verdict t2 = None" "rounds t2 ms t'"
    by auto
  from "2.IH" [OF m(7)] server_handles_message [OF m(1,3)] server_handles_line [OF m(2,5)] m(3-6)
  show ?case
    by (simp add: transcript_defs Let_def)
qed (simp add: transcript_defs)

lemma client_rounds:
  "rounds t ms t' \<Longrightarrow>
   client_main \<lparr>ci_board = t, ci_keys = client_lines ms @ ks, ci_sent = s, ci_out = out\<rparr> (server_messages ms @ bs)
   = client_main \<lparr>ci_board = t', ci_keys = ks, ci_sent = s @ client_messages ms,
       ci_out = out @ client_prints t ms\<rparr> bs"
proof (induction t ms t' arbitrary: s out rule: rounds.induct)
  case (2 t k j ms t')
  then obtain t1 t2 where m: "k < 10" "j < 10" "ttt_makeMove t (int k) = Inr (True, t1)" "server_verdict t1 = None"
    "ttt_makeMove t1 (int j) = Inr (True, t2)" "server_verdict t2 = None" "rounds t2 ms t'"
    by auto
  let ?io = "\<lparr>ci_board = t, ci_keys = Typed (mark_text k @ [10]) # client_lines ms @ ks, ci_sent = s, ci_out = out\<rparr>"
  have "client_main ?io ((mark_text j @ [0]) # server_messages ms @ bs)
      = client_main \<lparr>ci_board = t2, ci_keys = client_lines ms @ ks, ci_sent = s @ [mark_text k],
            ci_out = out @ ascii ''> '' @ ttt_drawBoard t2\<rparr>
          (server_messages ms @ bs)"
    using client_handles_line [OF m(1,3)] client_handles_response [OF m(2,5)] m(4,6) [folded verdict_None]
    by (simp add: client_main.simps [of ?io] client_print_def Let_def)
  with "2.IH" [OF m(7)] m(3,5) show ?case
    by (simp add: transcript_defs Let_def)
qed (simp add: transcript_defs)

section \<open>The board\<close>

text \<open>
  C26. \<^verbatim>\<open>ttt_checkWin\<close> finds a win exactly when one of the eight lines of the board, three rows, three
  columns and two diagonals by their cell numbers, is full of the player's marks.
\<close>

theorem checkWin_is_a_full_line:
  assumes "wf_board (board t)"
  shows "ttt_checkWin t p \<longleftrightarrow> (\<exists>(a, b, c) \<in> set [(1, 2, 3), (4, 5, 6), (7, 8, 9), (1, 4, 7), (2, 5, 8),
      (3, 6, 9), (1, 5, 9), (7, 5, 3)].
    ttt_getBoardCell t a = Inr p \<and> ttt_getBoardCell t b = Inr p \<and> ttt_getBoardCell t c = Inr p)"
proof -
  obtain c1 c2 c3 c4 c5 c6 c7 c8 c9 where "board t = [[c1, c2, c3], [c4, c5, c6], [c7, c8, c9]]"
    using assms by (rule wf_boardE)
  then show ?thesis
    unfolding checkWin_has_line [OF assms] has_line_def lines3_def cells_def
    by (simp add: ttt_getBoardCell_def board_at_def eval_nat_numeral)
qed

definition won_board :: TicTacToe where
  "won_board = \<lparr>board = [[88, 79, 32], [79, 88, 32], [32, 32, 88]], currentPlayer = 79, turnCount = 5\<rparr>"

lemma checkWin_is_a_full_line_witness:
  "ttt_checkWin won_board mark_X \<and> ttt_getBoardCell won_board 5 = Inr mark_X"
proof -
  have "wf_board (board won_board)"
    by (simp add: won_board_def wf_board_def marks)
  from checkWin_is_a_full_line [OF this, of mark_X] show ?thesis
    by (simp add: won_board_def ttt_getBoardCell_def board_at_def marks)
qed

text \<open>
  C27. In every state a game reaches, the board has nine cells holding X, O or a blank, the turn counter
  is the number of marks and at most nine, the marks of X and O alternate starting with X, and the
  player to move is the one whose turn it is; no access to the board is out of bounds.
\<close>

theorem game_invariant:
  assumes "reach ttt_start ttt_step t"
  shows "wf_board (board t) \<and> turnCount t = int (tally t mark_X + tally t mark_O) \<and> turnCount t \<le> 9
    \<and> (tally t mark_X = tally t mark_O \<and> currentPlayer t = mark_X
       \<or> tally t mark_X = Suc (tally t mark_O) \<and> currentPlayer t = mark_O)
    \<and> (\<exists>r. ttt_makeMove t m = Inr r)"
proof -
  have inv: "ttt_inv t"
    using assms by (rule ttt.reach_inv)
  then have "currentPlayer t \<in> {mark_X, mark_O}" "wf_board (board t)"
    by (auto simp: ttt_inv_def)
  then have "\<exists>r. ttt_makeMove t m = Inr r"
    using makeMove_outside [of m t] makeMove_inside [of t m] by (cases "m < 1 \<or> 9 < m") (auto split: if_splits)
  then show ?thesis
    using inv tally_le_9 [OF inv] by (auto simp: ttt_inv_def)
qed

lemma game_invariant_witness: "\<exists>r. ttt_makeMove ttt_new (-7) = Inr r"
  using game_invariant [OF new_reach, of "-7"] by blast

text \<open>
  C28. In a game, a move is accepted exactly when it names a free cell; then that cell gets the mark of
  the player to move, no other cell changes, the counter goes up by one and the other player is to
  move; a refused move changes nothing.
\<close>

theorem move_takes_a_free_cell:
  assumes "reach ttt_start ttt_step t"
  shows "if 1 \<le> m \<and> m \<le> 9 \<and> ttt_getBoardCell t m = Inr blank
    then \<exists>t'. ttt_makeMove t m = Inr (True, t') \<and> cells t' = (cells t)[nat (m - 1) := currentPlayer t]
      \<and> turnCount t' = turnCount t + 1 \<and> currentPlayer t' = other (currentPlayer t)
    else ttt_makeMove t m = Inr (False, t)"
proof -
  have inv: "wf_board (board t)" "currentPlayer t \<in> {mark_X, mark_O}"
    using ttt.reach_inv [OF assms] by (auto simp: ttt_inv_def)
  show ?thesis
  proof (cases "1 \<le> m \<and> m \<le> 9")
    case True
    then show ?thesis
      using boardCell_cells [OF inv(1), of m] makeMove_inside [OF inv(1) _ _ inv(2), of m]
      by (auto simp: moved_def)
  next
    case False
    then show ?thesis
      using makeMove_outside [of m t] by auto
  qed
qed

lemma move_takes_a_free_cell_witness:
  "\<exists>t'. ttt_makeMove ttt_new 5 = Inr (True, t') \<and> cells t' = (cells ttt_new)[4 := mark_X]"
  using move_takes_a_free_cell [OF new_reach, of 5]
  by (auto simp: ttt_getBoardCell_def board_at_def ttt_new_def)

section \<open>Whole games\<close>

text \<open>The board after a list of moves, for the concrete games.\<close>

fun after :: "TicTacToe \<Rightarrow> int list \<Rightarrow> TicTacToe option" where
  "after t [] = Some t"
| "after t (m # ms) = (case ttt_makeMove t m of Inr (True, t') \<Rightarrow> after t' ms | _ \<Rightarrow> None)"

lemma after_reach: "reach ttt_start ttt_step t \<Longrightarrow> after t ms = Some t' \<Longrightarrow> reach ttt_start ttt_step t'"
proof (induction t ms rule: after.induct)
  case (2 t m ms)
  then obtain t1 where t1: "ttt_makeMove t m = Inr (True, t1)" "after t1 ms = Some t'"
    by (auto split: sum.splits bool.splits prod.splits)
  with "2.prems"(1) have "reach ttt_start ttt_step t1"
    by (blast intro: reach_step ttt_step.move)
  with "2.IH" t1 show ?case
    by simp
qed simp

definition board_after :: "int list \<Rightarrow> TicTacToe" where
  "board_after ms = the (after ttt_new ms)"

lemma game_moves:
  "ttt_makeMove ttt_new 1 = Inr (True, board_after [1])"
  "ttt_makeMove (board_after [1]) 4 = Inr (True, board_after [1, 4])"
  "ttt_makeMove (board_after [1, 4]) 2 = Inr (True, board_after [1, 4, 2])"
  "ttt_makeMove (board_after [1, 4, 2]) 5 = Inr (True, board_after [1, 4, 2, 5])"
  "ttt_makeMove (board_after [1, 4, 2, 5]) 3 = Inr (True, board_after [1, 4, 2, 5, 3])"
  "ttt_makeMove (board_after [1, 4, 2, 5]) 9 = Inr (True, board_after [1, 4, 2, 5, 9])"
  "ttt_makeMove (board_after [1, 4, 2, 5, 9]) 6 = Inr (True, board_after [1, 4, 2, 5, 9, 6])"
  by code_simp+

lemma game_verdicts:
  "server_verdict (board_after [1]) = None" "server_verdict (board_after [1, 4]) = None"
  "server_verdict (board_after [1, 4, 2]) = None" "server_verdict (board_after [1, 4, 2, 5]) = None"
  "client_verdict (board_after [1, 4, 2, 5, 3]) = Some You_won"
  "server_verdict (board_after [1, 4, 2, 5, 9]) = None"
  "server_verdict (board_after [1, 4, 2, 5, 9, 6]) = Some You_won"
  by code_simp+

lemma game_rounds: "rounds ttt_new [(1, 4), (2, 5)] (board_after [1, 4, 2, 5])"
  by (simp add: game_moves game_verdicts)

text \<open>
  A game that the client's move ends, and one that the server's move ends, after any number of rounds
  from the empty board.
\<close>

lemma client_ends:
  assumes "rounds ttt_new ms t" "k < 10" "ttt_makeMove t (int k) = Inr (True, t')" "client_verdict t' = Some v"
  shows "client_main \<lparr>ci_board = ttt_new, ci_keys = client_lines ms @ Typed (mark_text k @ [10]) # ks, ci_sent = [],
       ci_out = []\<rparr> (server_messages ms @ bs)
    = Inr (C_ended v \<lparr>ci_board = t', ci_keys = ks, ci_sent = client_messages ms @ [mark_text k],
        ci_out = client_prints ttt_new ms @ ascii ''> '' @ show_result v t'\<rparr>)
   \<and> server_runGame \<lparr>io_board = ttt_new, io_stdin = server_lines ms @ inp, io_sent = [], io_out = []\<rparr>
      (client_messages ms @ mark_text k # cs)
    = Inr (Ended (opposite v) \<lparr>io_board = t', io_stdin = inp, io_sent = server_messages ms @ [MARK @ [0]],
        io_out = server_prints ttt_new ms @ show_result (opposite v) t'\<rparr>)"
proof -
  have "ttt_inv t" "server_verdict t = None"
    using rounds_inv [OF new_inv assms(1)] rounds_verdict [OF _ assms(1)] new_verdict by blast+
  from verdicts_opposite [OF this assms(3)] assms(4) have "server_verdict t' = Some (opposite v)"
    by (auto simp: opposite_def server_verdict_def split: if_splits)
  then show ?thesis
    using client_rounds [OF assms(1), of _ "[]" "[]"] server_rounds [OF assms(1), of _ "[]" "[]"] assms(4)
      client_handles_line [OF assms(2,3)] server_handles_message [OF assms(2,3)]
    by (simp add: client_main.simps [of "\<lparr>ci_board = t, ci_keys = _, ci_sent = _, ci_out = _\<rparr>"] client_print_def Let_def)
qed

lemma server_ends:
  assumes "rounds ttt_new ms t" "k < 10" "j < 10" "ttt_makeMove t (int k) = Inr (True, t1)"
    and "server_verdict t1 = None" "ttt_makeMove t1 (int j) = Inr (True, t')" "server_verdict t' = Some v"
  shows "server_runGame \<lparr>io_board = ttt_new, io_stdin = server_lines ms @ mark_text j @ 10 # inp, io_sent = [], io_out = []\<rparr>
      (client_messages ms @ mark_text k # cs)
    = Inr (Ended v \<lparr>io_board = t', io_stdin = inp, io_sent = server_messages ms @ [mark_text j @ [0]],
        io_out = server_prints ttt_new ms @ ttt_drawBoard t1 @ ascii ''> '' @ show_result v t'\<rparr>)
   \<and> client_main \<lparr>ci_board = ttt_new, ci_keys = client_lines ms @ Typed (mark_text k @ [10]) # ks, ci_sent = [],
       ci_out = []\<rparr> (server_messages ms @ (mark_text j @ [0]) # bs)
    = Inr (C_ended (opposite v) \<lparr>ci_board = t', ci_keys = ks,
        ci_sent = client_messages ms @ [mark_text k, mark_text j],
        ci_out = client_prints ttt_new ms @ ascii ''> '' @ ttt_drawBoard t' @ show_result (opposite v) t'\<rparr>)"
proof -
  have inv: "ttt_inv t1"
    using rounds_inv [OF new_inv assms(1)] ttt.inv_step ttt_step.move assms(4) by blast
  from verdicts_opposite [OF inv assms(5,6)] assms(7) have "client_verdict t' = Some (opposite v)"
    by simp
  moreover have "client_verdict t1 = None" "cstr (mark_text j @ [0]) = mark_text j"
    using assms(5) verdict_None cstr_append_replicate [of "mark_text j" 1] mark_text_parse(6) [OF assms(3)] by auto
  ultimately show ?thesis
    using client_rounds [OF assms(1), of _ "[]" "[]"] server_rounds [OF assms(1), of _ "[]" "[]"] assms(5,7)
      client_handles_line [OF assms(2,4)] server_handles_message [OF assms(2,4)]
      server_handles_line [OF assms(3,6)] client_handles_response [OF assms(3,6)]
    by (simp add: client_main.simps [of "\<lparr>ci_board = t, ci_keys = _, ci_sent = _, ci_out = _\<rparr>"] client_sendCommand_def
        client_print_def server_print_def Let_def)
qed

section \<open>What goes wrong\<close>

text \<open>
  \<^verbatim>\<open>ttt_isDraw\<close> asks whether the player to move has won, not the player who has just moved: a game
  exists whose ninth move gives X a full line and leaves a board that \<^verbatim>\<open>ttt_isDraw\<close> calls a draw.
\<close>

lemma isDraw_misses_last_move:
  "\<exists>t. reach ttt_start ttt_step t \<and> ttt_checkWin t mark_X \<and> \<not> ttt_hasWinner t \<and> ttt_isDraw t"
proof -
  have "after ttt_new [1, 4, 2, 5, 6, 7, 8, 9, 3] = Some (board_after [1, 4, 2, 5, 6, 7, 8, 9, 3])"
    by code_simp
  then have "reach ttt_start ttt_step (board_after [1, 4, 2, 5, 6, 7, 8, 9, 3])"
    by (rule after_reach [OF new_reach])
  moreover have "ttt_checkWin (board_after [1, 4, 2, 5, 6, 7, 8, 9, 3]) mark_X
      \<and> \<not> ttt_hasWinner (board_after [1, 4, 2, 5, 6, 7, 8, 9, 3]) \<and> ttt_isDraw (board_after [1, 4, 2, 5, 6, 7, 8, 9, 3])"
    by code_simp
  ultimately show ?thesis
    by blast
qed

text \<open>
  The client's thirty-second limit is gone after a refused move: the alarm is cancelled before the
  move is tried and never set again in that turn, so however often time runs out the client waits on.
\<close>

lemma refused_move_disables_timeout:
  assumes "scan_command (cut_line line) = Some (MARK, n)" "ttt_makeMove (ci_board io) n = Inr (False, ci_board io)"
  shows "input_loop_p1 True io (Typed line # replicate k Alarm) = Inl Blocked
    \<and> (\<exists>io'. input_loop_p1 True io (replicate (Suc k) Alarm) = Inr (C_ended Client_timeout io'))"
proof -
  have "input_loop_p1 False io' (replicate k Alarm) = Inl Blocked" for io'
    by (induction k) simp_all
  then show ?thesis
    using assms by (simp add: client_print_def Let_def)
qed

lemma refused_move_disables_timeout_witness:
  "input_loop_p1 True \<lparr>ci_board = board_after [1], ci_keys = [], ci_sent = [], ci_out = []\<rparr>
     (Typed [77, 65, 82, 75, 32, 49, 10] # replicate 3 Alarm) = Inl Blocked"
proof -
  let ?io = "\<lparr>ci_board = board_after [1], ci_keys = [], ci_sent = [], ci_out = []\<rparr>"
  have "scan_command (cut_line [77, 65, 82, 75, 32, 49, 10]) = Some (MARK, 1)"
    "ttt_makeMove (ci_board ?io) 1 = Inr (False, ci_board ?io)"
    by code_simp+
  from refused_move_disables_timeout [OF this, of 3] show ?thesis ..
qed

text \<open>
  The two ends take commands apart differently: for a move typed with a tab after \<^verbatim>\<open>MARK\<close> the client
  plays it and sends it on, and the server, whose second \<^verbatim>\<open>strtok\<close> returns null, passes a null pointer
  to \<^verbatim>\<open>atoi\<close>.
\<close>

lemma tab_crashes_server:
  assumes "ttt_makeMove t 5 = Inr (True, t')" "client_verdict t' = None"
  shows "input_parser_p1 \<lparr>ci_board = t, ci_keys = [Typed (MARK @ [9, 53, 10])], ci_sent = [], ci_out = []\<rparr>
      = Inr (C_playing \<lparr>ci_board = t', ci_keys = [], ci_sent = [MARK @ [9, 53]], ci_out = ascii ''> ''\<rparr>)
    \<and> server_message io (MARK @ [9, 53]) = Inl NullDeref"
proof -
  have "cut_line (MARK @ [9, 53, 10]) = MARK @ [9, 53]" "scan_command (MARK @ [9, 53]) = Some (MARK, 5)"
    "cstr (MARK @ [9, 53]) = MARK @ [9, 53]" "strtok_space (MARK @ [9, 53]) = Some ([], MARK @ [9, 53], [])"
    "strtok_space [] = None" "MARK @ [9, 53] \<noteq> TIMEOUT" "length (MARK @ [9, 53 :: u8]) = 6"
    by code_simp+
  with assms show ?thesis
    by (simp add: input_parser_p1_def client_sendCommand_def client_print_def server_message_def Let_def del: append_Cons)
qed

lemma tab_crashes_server_witness:
  "server_message \<lparr>io_board = ttt_new, io_stdin = [], io_sent = [], io_out = []\<rparr> (MARK @ [9, 53]) = Inl NullDeref"
proof -
  have "ttt_makeMove ttt_new 5 = Inr (True, board_after [5])" "client_verdict (board_after [5]) = None"
    by code_simp+
  from tab_crashes_server [OF this] show ?thesis
    by blast
qed

end
