(* ===== verification/Rooms_Properties.thy ===== *)
theory Rooms_Properties
  imports Rooms Game_Properties
begin

text \<open>
  The rooms of the second server under interleaving, and a game between two clients of a room.
\<close>

section \<open>Rooms\<close>

text \<open>
  C29. In every state the server reaches, however its threads interleave, each room has at most two
  players, who are distinct clients; a room's \<^verbatim>\<open>gameRunning\<close> is set exactly while a thread plays its
  game, and there is at most one such thread; and the board of a game is one that alternate moves can
  give.  (The flags are assumed to start as \<^verbatim>\<open>false\<close>.)
\<close>

theorem rooms_invariant:
  assumes "reach server2_initial server2_step s" "exit_status s = None" "i < 5"
  shows "players_ok s i \<and> one_game s i \<and> fair_game s i"
  using rooms.reach_inv [OF assms(1)] assms(2,3) by (simp add: server2_inv_def room_inv_def)

definition two_joining :: ServerP2 where
  "two_joining = go 8 (Joining 3) (go 7 (Joining 3) (server2_new (replicate 5 False)))"

definition join_3 :: bytes where "join_3 = JOIN_space @ [51, 10]"

lemma two_joining_reach: "reach server2_initial server2_step two_joining"
proof -
  let ?s0 = "server2_new (replicate 5 False)"
  have joins: "server2_handleNewClient s c join_3 = go c (Joining 3) s" for s c
  proof -
    have "cstr join_3 = join_3" "strncmp_eq 5 join_3 JOIN_space" "atoi (drop 5 join_3) = 3" "join_3 \<noteq> []"
      by code_simp+
    then show ?thesis
      by (simp add: server2_handleNewClient_def Let_def)
  qed
  have again: "go c th (go c th' s) = go c th s" for c th th' s
    by (simp add: go_def)
  have "reach server2_initial server2_step ?s0"
    by (rule reach_init) (simp add: server2_initial_def)
  moreover have "server2_step ?s0 (go 7 Reading_command ?s0)"
    by (rule server2_step.accept) (simp_all add: server2_new_def)
  moreover have "server2_step (go 7 Reading_command ?s0) (go 7 (Joining 3) ?s0)"
    using server2_step.command [of "go 7 Reading_command ?s0" 7 join_3] by (simp add: joins again server2_new_def)
  moreover have "server2_step (go 7 (Joining 3) ?s0) (go 8 Reading_command (go 7 (Joining 3) ?s0))"
    by (rule server2_step.accept) (simp_all add: server2_new_def)
  moreover have "server2_step (go 8 Reading_command (go 7 (Joining 3) ?s0)) two_joining"
    using server2_step.command [of "go 8 Reading_command (go 7 (Joining 3) ?s0)" 8 join_3]
    by (simp add: joins again two_joining_def server2_new_def)
  ultimately show ?thesis
    by (blast intro: reach_step)
qed

lemma two_joining_simps:
  "exit_status two_joining = None" "threads two_joining 7 = Some (Joining 3)"
  "threads two_joining 8 = Some (Joining 3)" "numActivePlayers (rooms two_joining ! 3) = 0"
  "player2Socket (rooms two_joining ! 3) \<noteq> 7" "length (rooms two_joining) = 5"
  by (simp_all add: two_joining_def server2_new_def new_room_def)

lemma rooms_invariant_witness: "players_ok two_joining 3 \<and> one_game two_joining 3 \<and> fair_game two_joining 3"
  using rooms_invariant [OF two_joining_reach two_joining_simps(1), of 3] by simp



text \<open>
  With a third client the race reaches into a game: a thread that found the room empty creates it while
  the game of the two others waits for a move, and the room's first player, to whom the result will be
  sent, is no longer the client that plays.
\<close>

lemma join_race_takes_game:
  assumes "exit_status s = None" "threads s c = Some (Joining i)" "threads s d = Some (Joining i)"
    and "threads s e = Some (Joining i)" "distinct [c, d, e]" "i < length (rooms s)"
    and "numActivePlayers (rooms s ! i) = 0" "\<not> gameRunning (rooms s ! i)" "room_t (rooms s ! i) = None"
  shows "\<exists>s'. server2_step\<^sup>*\<^sup>* s s' \<and> threads s' e = Some (In_game i (Some (d, e)))
    \<and> player1Socket (rooms s' ! i) = c \<and> player2Socket (rooms s' ! i) = e \<and> gameRunning (rooms s' ! i)"
proof -
  note steps = server2_joinRoom_def server2_createRoom_def server2_gameStart_def server2_gameTurn_def
    players_of_turn_def server2_newBoard_def Let_def
  define s1 where "s1 = server2_joinRoom s c i"
  define s2 where "s2 = server2_joinRoom s1 d i"
  define s3 where "s3 = server2_createRoom s2 d i"
  define s4 where "s4 = server2_joinRoom s3 e i"
  define s5 where "s5 = server2_gameStart 0 s4 i"
  define s6 where "s6 = projr (server2_gameTurn s5 e i)"
  define s7 where "s7 = server2_createRoom s6 c i"
  have 1: "s1 = go c (Creating i) s"
    using assms by (simp add: s1_def steps)
  have 2: "s2 = go d (Creating i) s1"
    using assms by (simp add: s2_def 1 steps)
  have 3: "rooms s3 ! i = (rooms s ! i)\<lparr>player1Socket := d, numActivePlayers := 1\<rparr>"
    "length (rooms s3) = length (rooms s)" "exit_status s3 = None" "threads s3 c = Some (Creating i)"
    "threads s3 e = Some (Joining i)"
    using assms by (auto simp: s3_def 1 2 steps)
  have 4: "rooms s4 ! i = (rooms s ! i)\<lparr>player1Socket := d, player2Socket := e, numActivePlayers := 2, gameRunning := True\<rparr>"
    "length (rooms s4) = length (rooms s)" "exit_status s4 = None" "threads s4 c = Some (Creating i)"
    "threads s4 e = Some (In_game i None)"
    using assms 3 by (auto simp: s4_def steps)
  have 5: "rooms s5 ! i = (rooms s4 ! i)\<lparr>room_t := Some (server2_newBoard 0)\<rparr>"
    "length (rooms s5) = length (rooms s)" "exit_status s5 = None" "threads s5 = threads s4"
    using assms 4 by (auto simp: s5_def server2_gameStart_def)
  have 6: "server2_gameTurn s5 e i = Inr s6" "rooms s6 = rooms s5" "exit_status s6 = None"
    "threads s6 = (threads s4)(e \<mapsto> In_game i (Some (d, e)))"
    using 4 5 by (simp_all add: s6_def steps)
  have 7: "rooms s7 ! i = (rooms s5 ! i)\<lparr>player1Socket := c, numActivePlayers := 1\<rparr>"
    "threads s7 e = Some (In_game i (Some (d, e)))"
    using assms 5 6 by (auto simp: s7_def steps)
  have "server2_step s s1"
    unfolding s1_def using assms(1,2) by (rule server2_step.join)
  moreover have "server2_step s1 s2"
    unfolding s2_def using assms by (intro server2_step.join) (auto simp: 1)
  moreover have "server2_step s2 s3"
    unfolding s3_def using assms by (intro server2_step.create) (auto simp: 1 2)
  moreover have "server2_step s3 s4"
    unfolding s4_def using 3 by (intro server2_step.join) auto
  moreover have "server2_step s4 s5"
    unfolding s5_def using assms 4 by (intro server2_step.game_start) auto
  moreover have "server2_step s5 s6"
    using 4 5 6 by (intro server2_step.game_turn [of s5 e i]) auto
  moreover have "server2_step s6 s7"
    unfolding s7_def using assms 4 6 by (intro server2_step.create) auto
  ultimately have "server2_step\<^sup>*\<^sup>* s s7"
    by (meson converse_rtranclp_into_rtranclp rtranclp.rtrancl_refl)
  with 4 5 7 show ?thesis
    by (intro exI [of _ s7]) simp
qed

section \<open>Games between two clients\<close>

definition move_line :: "nat \<Rightarrow> bytes" where
  "move_line k = mark_text k @ [10]"

lemma move_line_checked:
  "\<forall>k \<in> set [0..<10]. scan_after MARK (move_line k) = Some (int k) \<and> scan_command (move_line k) = Some (MARK, int k)
     \<and> atoi (drop 5 (move_line k)) = int k \<and> strncmp_eq 5 (move_line k) (MARK @ [32])
     \<and> cstr (move_line k) = move_line k \<and> move_line k \<notin> set [TURN, WIN, LOSE, DRAW, []]
     \<and> cstr (move_line k @ [0]) = move_line k"
  by code_simp

lemma move_line_parse:
  assumes "k < 10"
  shows "scan_after MARK (move_line k) = Some (int k)" "scan_command (move_line k) = Some (MARK, int k)"
    "atoi (drop 5 (move_line k)) = int k" "strncmp_eq 5 (move_line k) (MARK @ [32])"
    "cstr (move_line k) = move_line k" "cstr (move_line k @ [0]) = move_line k" "move_line k \<noteq> TURN"
    "move_line k \<noteq> []"
proof -
  have "k \<in> set [0..<10]"
    using assms by simp
  from bspec [OF move_line_checked this]
  show "scan_after MARK (move_line k) = Some (int k)" "scan_command (move_line k) = Some (MARK, int k)"
    "atoi (drop 5 (move_line k)) = int k" "strncmp_eq 5 (move_line k) (MARK @ [32])"
    "cstr (move_line k) = move_line k" "cstr (move_line k @ [0]) = move_line k" "move_line k \<noteq> TURN"
    "move_line k \<noteq> []"
    by simp_all
qed

text \<open>A game of accepted moves in which only the last one decides.\<close>

fun plays :: "TicTacToe \<Rightarrow> nat list \<Rightarrow> TicTacToe \<Rightarrow> bool" where
  "plays t [] t' \<longleftrightarrow> False"
| "plays t (k # ks) t' \<longleftrightarrow> k < 10 \<and>
     (\<exists>t1. ttt_makeMove t (int k) = Inr (True, t1)
       \<and> (if ks = [] then t' = t1 \<and> server2_verdict t1 \<noteq> None else server2_verdict t1 = None \<and> plays t1 ks t'))"

text \<open>What the server sends during the moves, the player to move first.\<close>

fun turn_messages :: "int \<Rightarrow> int \<Rightarrow> nat list \<Rightarrow> sent" where
  "turn_messages current opponent [] = []"
| "turn_messages current opponent (k # ks) =
     [(current, TURN @ [0]), (opponent, WAIT @ [0]), (opponent, move_line k @ [0]), (current, move_line k @ [0])]
     @ turn_messages opponent current ks"

text \<open>The reads of the server: whatever comes as an acknowledgement, and the move.\<close>

definition server_reads :: "bytes list \<Rightarrow> nat list \<Rightarrow> bytes list" where
  "server_reads acks ks = concat (map2 (\<lambda>a k. [a, move_line k]) acks ks)"

definition to_move :: "TicTacToe \<Rightarrow> 'a \<Rightarrow> 'a \<Rightarrow> 'a" where
  "to_move t x y = (if currentPlayer t = mark_X then x else y)"

lemma to_move_next:
  "ttt_inv t \<Longrightarrow> ttt_makeMove t m = Inr (True, t') \<Longrightarrow> to_move t' x y = to_move t y x"
  using makeMove_True [of t m t'] by (auto simp: moved_def other_def to_move_def ttt_inv_def)

lemma sendGameState_const: "length m \<le> 1023 \<Longrightarrow> cstr m = m \<Longrightarrow> server2_sendGameState c m s = s @ [(c, m @ [0])]"
  by (simp add: server2_sendGameState_def)

lemma words_const: "cstr TURN = TURN" "cstr WAIT = WAIT" "cstr WIN = WIN" "cstr LOSE = LOSE" "cstr DRAW = DRAW"
  "length TURN \<le> 1023" "length WAIT \<le> 1023" "length WIN \<le> 1023" "length LOSE \<le> 1023" "length DRAW \<le> 1023"
  by code_simp+

lemma send_move: "k < 10 \<Longrightarrow> server2_sendGameState c (move_line k) s = s @ [(c, move_line k @ [0])]"
  by (rule sendGameState_const) (simp_all add: move_line_parse, simp add: move_line_def)

lemmas sends = sendGameState_const [OF words_const(6,1)] sendGameState_const [OF words_const(7,2)]
  sendGameState_const [OF words_const(8,3)] sendGameState_const [OF words_const(9,4)]
  sendGameState_const [OF words_const(10,5)] send_move

lemma verdict_words: "server2_verdict t = Some (m1, m2) \<Longrightarrow>
   server2_sendGameState p2 m2 (server2_sendGameState p1 m1 s) = s @ [(p1, m1 @ [0]), (p2, m2 @ [0])]"
  by (auto simp: server2_verdict_def sends split: if_splits)

lemma server_turn:
  assumes "k < 10" "ttt_makeMove t (int k) = Inr (True, t')"
  shows "server2_turn p1 p2 t (move_line k) s =
    (let s' = s @ turn_messages (to_move t p1 p2) (to_move t p2 p1) [k] in
     case server2_verdict t' of
       None \<Rightarrow> Inr (Next_turn t' s')
     | Some (m1, m2) \<Rightarrow> Inr (Game_over t' (s' @ [(p1, m1 @ [0]), (p2, m2 @ [0])])))"
  using move_line_parse [OF assms(1)] assms
  by (simp add: server2_turn_def server2_move_def players_of_turn_def announce_def Let_def sends to_move_def verdict_words split: option.split)

lemma server_plays:
  assumes "ttt_inv t" "plays t ks t'" "length acks = length ks" "server2_verdict t' = Some (m1, m2)"
  shows "server2_game p1 p2 t s (server_reads acks ks @ rs)
    = Inr (Game_over t' (s @ turn_messages (to_move t p1 p2) (to_move t p2 p1) ks @ [(p1, m1 @ [0]), (p2, m2 @ [0])]))"
  using assms
proof (induction ks arbitrary: t s acks)
  case (Cons k ks)
  then obtain t1 a as where t1: "k < 10" "ttt_makeMove t (int k) = Inr (True, t1)" "acks = a # as"
    "if ks = [] then t' = t1 \<and> server2_verdict t1 \<noteq> None else server2_verdict t1 = None \<and> plays t1 ks t'"
    by (auto simp: length_Suc_conv)
  have inv: "ttt_inv t1"
    using Cons.prems(1) t1(2) ttt.inv_step ttt_step.move by blast
  show ?case
  proof (cases "ks = []")
    case True
    then show ?thesis
      using t1 Cons.prems(4) by (simp add: server_reads_def server_turn)
  next
    case False
    then show ?thesis
      using t1 Cons.IH [OF inv, of as] Cons.prems(3,4) to_move_next [OF Cons.prems(1) t1(2), of p1 p2]
        to_move_next [OF Cons.prems(1) t1(2), of p2 p1]
      by (simp add: server_reads_def server_turn)
  qed
qed simp

text \<open>
  A client, when every message arrives by itself: \<open>mine\<close> says whether its player is to move.  It types
  its own moves; the other's are those it receives.
\<close>

fun own_moves :: "bool \<Rightarrow> nat list \<Rightarrow> nat list" where
  "own_moves mine [] = []"
| "own_moves mine (k # ks) = (if mine then k # own_moves False ks else own_moves True ks)"

definition inbox :: "int \<Rightarrow> sent \<Rightarrow> bytes list" where
  "inbox c ms = map snd (filter (\<lambda>(d, _). d = c) ms)"

lemma inbox_simps [simp]:
  "inbox c [] = []" "inbox c ((d, m) # ms) = (if d = c then m # inbox c ms else inbox c ms)"
  "inbox c (ms @ ms') = inbox c ms @ inbox c ms'"
  by (simp_all add: inbox_def)

lemma move_again:
  assumes "ttt_inv t" "ttt_makeMove t (int k) = Inr (True, t')"
  shows "ttt_makeMove t' (int k) = Inr (False, t')"
proof -
  note m = makeMove_True [OF assms]
  have inv: "ttt_inv t'"
    using moved_inv [OF assms(1)] m by blast
  then have wf: "wf_board (board t')" "currentPlayer t' \<in> {mark_X, mark_O}"
    by (auto simp: ttt_inv_def)
  have "length (cells t) = 9" "currentPlayer t \<noteq> blank"
    using assms(1) length_cells by (auto simp: ttt_inv_def)
  then have "cells t' ! nat (int k - 1) \<noteq> blank"
    using m by (auto simp: moved_def)
  with makeMove_inside [OF wf(1) _ _ wf(2), of "int k"] m show ?thesis
    by simp
qed

lemma verdict_iff: "client2_verdict t = None \<longleftrightarrow> server2_verdict t = None"
  by (auto simp: client2_verdict_def server2_verdict_def)

lemma responses:
  "\<exists>shown. client2_receiveServerResponse t (Some (TURN @ [0])) = Inr (Got TURN t shown)"
  "\<exists>shown. client2_receiveServerResponse t (Some (WAIT @ [0])) = Inr (Got WAIT t shown)" "WAIT \<noteq> TURN"
proof -
  have "scan_command TURN = None" "scan_command WAIT = None" "cstr (TURN @ [0]) = TURN"
    "cstr (WAIT @ [0]) = WAIT" "TURN \<notin> set [WIN, LOSE, DRAW]" "WAIT \<notin> set [WIN, LOSE, DRAW, TURN]"
    by code_simp+
  then show "\<exists>shown. client2_receiveServerResponse t (Some (TURN @ [0])) = Inr (Got TURN t shown)"
    "\<exists>shown. client2_receiveServerResponse t (Some (WAIT @ [0])) = Inr (Got WAIT t shown)"
    by (simp_all add: client2_receiveServerResponse_def Let_def)
  show "WAIT \<noteq> TURN"
    by code_simp
qed

lemma response_move:
  assumes "k < 10" "ttt_makeMove t (int k) = Inr (b, t')"
  shows "\<exists>shown. client2_receiveServerResponse t (Some (move_line k @ [0])) = Inr (Got (move_line k) t' shown)"
  using move_line_parse [OF assms(1)] assms(2) by (simp add: client2_receiveServerResponse_def Let_def)

lemma ask_move:
  assumes "k < 10" "ttt_makeMove t (int k) = Inr (b, t')"
  shows "client2_ask t sent out (Some (move_line k) # typed) = Inr (t', sent @ [move_line k], out @ ascii ''> '', typed)"
  using move_line_parse [OF assms(1)] assms(2) by (simp add: client2_sendCommand_def)

lemma send_ACK: "client2_sendCommand ACK sent = sent @ [ACK]"
proof -
  have "cstr ACK = ACK"
    by code_simp
  then show ?thesis
    by (simp add: client2_sendCommand_def)
qed

text \<open>One turn as the client sees it, its own and the other's.\<close>

lemma client_turns:
  assumes "ttt_inv t" "k < 10" "ttt_makeMove t (int k) = Inr (True, t1)" "client2_verdict t = None"
  shows "\<exists>shown. client2_loop t s out (Some (TURN @ [0]) # Some (move_line k @ [0]) # rs) (Some (move_line k) # typed)
      = (case client2_verdict t1 of
           Some v \<Rightarrow> Inr (v, s @ [ACK, move_line k], shown @ show_result v t1, t1)
         | None \<Rightarrow> client2_loop t1 (s @ [ACK, move_line k, ACK]) shown rs typed)" (is ?own)
    and "\<exists>shown. client2_loop t s out (Some (WAIT @ [0]) # Some (move_line k @ [0]) # rs) typed
      = (case client2_verdict t1 of
           Some v \<Rightarrow> Inr (v, s @ [ACK, ACK], shown @ show_result v t1, t1)
         | None \<Rightarrow> client2_loop t1 (s @ [ACK, ACK]) shown rs typed)" (is ?other)
proof -
  note [simp del] = client2_ask.simps
  obtain turn wait where resp: "client2_receiveServerResponse t (Some (TURN @ [0])) = Inr (Got TURN t turn)"
    "client2_receiveServerResponse t (Some (WAIT @ [0])) = Inr (Got WAIT t wait)"
    using responses by blast
  obtain played where move: "client2_receiveServerResponse t (Some (move_line k @ [0])) = Inr (Got (move_line k) t1 played)"
    using response_move [OF assms(2,3)] by blast
  obtain again where same: "client2_receiveServerResponse t1 (Some (move_line k @ [0])) = Inr (Got (move_line k) t1 again)"
    using response_move [OF assms(2) move_again [OF assms(1,3)]] by blast
  note facts = send_ACK resp move same ask_move [OF assms(2,3)] assms(4) responses(3) move_line_parse(7) [OF assms(2)]
  show ?own
    by (cases "client2_verdict t1") (auto simp: facts Let_def)
  show ?other
    by (cases "client2_verdict t1") (auto simp: facts Let_def)
qed

declare client2_loop.simps [simp del]

lemma client_plays:
  assumes "ttt_inv t" "client2_verdict t = None" "plays t ks t'" "me \<noteq> other_socket"
  shows "\<exists>v sent' shown. client2_verdict t' = Some v \<and> client2_loop t s out
      (map Some (inbox me (if mine then turn_messages me other_socket ks else turn_messages other_socket me ks) @ rs))
      (map (Some \<circ> move_line) (own_moves mine ks) @ typed) = Inr (v, s @ sent', shown @ show_result v t', t')"
  using assms
proof (induction ks arbitrary: t s out mine)
  case (Cons k ks)
  then obtain t1 where t1: "k < 10" "ttt_makeMove t (int k) = Inr (True, t1)"
    "if ks = [] then t' = t1 \<and> client2_verdict t1 \<noteq> None else client2_verdict t1 = None \<and> plays t1 ks t'"
    by (auto simp: verdict_iff)
  have inv: "ttt_inv t1"
    using Cons.prems(1) t1(2) ttt.inv_step ttt_step.move by blast
  note turn = client_turns [OF Cons.prems(1) t1(1,2) Cons.prems(2)]
  show ?case
  proof (cases "ks = []")
    case True
    then show ?thesis
      using turn(1) [of s out "map Some rs" typed] turn(2) [of s out "map Some rs" typed] t1(3) Cons.prems(4)
      by (cases mine) (auto split: option.splits)
  next
    case False
    define s1 where "s1 = s @ (if mine then [ACK, move_line k, ACK] else [ACK, ACK])"
    have rest: "\<exists>v sent' shown. client2_verdict t' = Some v \<and> client2_loop t1 s1 out1
      (map Some (inbox me (if \<not> mine then turn_messages me other_socket ks
          else turn_messages other_socket me ks) @ rs))
      (map (Some \<circ> move_line) (own_moves (\<not> mine) ks) @ typed) = Inr (v, s1 @ sent', shown @ show_result v t', t')"
      for out1
      using False t1(3) Cons.prems(4) Cons.IH [OF inv, where s = s1 and out = out1 and mine = "\<not> mine"] by (auto simp: comp_def)
    define msgs where "msgs = map Some (inbox me (if \<not> mine then turn_messages me other_socket ks
      else turn_messages other_socket me ks) @ rs)"
    define lines where "lines = map (Some \<circ> move_line) (own_moves (\<not> mine) ks) @ typed"
    obtain out1 where "client2_loop t s out
      (map Some (inbox me (if mine then turn_messages me other_socket (k # ks)
          else turn_messages other_socket me (k # ks)) @ rs))
      (map (Some \<circ> move_line) (own_moves mine (k # ks)) @ typed) = client2_loop t1 s1 out1 msgs lines"
      using turn(1) [of s out msgs lines] turn(2) [of s out msgs lines] False t1(3) Cons.prems(4)
      by (cases mine) (auto simp: s1_def msgs_def lines_def comp_def)
    moreover obtain v sent' shown where "client2_verdict t' = Some v"
      "client2_loop t1 s1 out1 msgs lines = Inr (v, s1 @ sent', shown @ show_result v t', t')"
      using rest [of out1] unfolding msgs_def lines_def by blast
    moreover have "s1 @ sent' = s @ ((if mine then [ACK, move_line k, ACK] else [ACK, ACK]) @ sent')"
      by (simp add: s1_def)
    ultimately show ?thesis
      by metis
  qed
qed simp

lemma plays_end: "ttt_inv t \<Longrightarrow> plays t ks t' \<Longrightarrow> ttt_inv t' \<and> server2_verdict t' \<noteq> None"
proof (induction t ks t' rule: plays.induct)
  case (2 t k ks t')
  then obtain t1 where "ttt_makeMove t (int k) = Inr (True, t1)"
    "if ks = [] then t' = t1 \<and> server2_verdict t1 \<noteq> None else plays t1 ks t'"
    by (auto split: if_splits)
  moreover from this(1) have "ttt_inv t1"
    using "2.prems"(1) ttt.inv_step ttt_step.move by blast
  ultimately show ?case
    using "2.IH" by (auto split: if_splits)
qed simp

lemma decided:
  assumes "ttt_inv t" "server2_verdict t \<noteq> None"
  shows "server2_verdict t = Some (if has_line t mark_X then (WIN, LOSE)
      else if has_line t mark_O then (LOSE, WIN) else (DRAW, DRAW))"
    and "client2_verdict t = Some (if has_line t mark_X then You_won
      else if has_line t mark_O then You_lost else You_drew)"
  using assms by (auto simp: server2_verdict_def client2_verdict_def ttt_inv_def checkWin_has_line split: if_splits)


definition sample_room :: GameRoom where
  "sample_room = (new_room True)\<lparr>player1Socket := 7, player2Socket := 8, numActivePlayers := 2\<rparr>"

lemma sample_plays: "plays ttt_new [1, 4, 2, 5, 3] (board_after [1, 4, 2, 5, 3])"
proof -
  have "server2_verdict (board_after [1]) = None" "server2_verdict (board_after [1, 4]) = None"
    "server2_verdict (board_after [1, 4, 2]) = None" "server2_verdict (board_after [1, 4, 2, 5]) = None"
    "server2_verdict (board_after [1, 4, 2, 5, 3]) = Some (WIN, LOSE)"
    by code_simp+
  then show ?thesis
    by (simp add: game_moves)
qed


text \<open>
  The turn counter of a room's game is never initialised: when the memory happens to hold 8 there,
  the first move, whatever it is, ends the game, and both players are told it is a draw.
\<close>

lemma uninitialised_counter_draws:
  assumes "1 \<le> k" "k \<le> 9"
  shows "\<exists>t' msgs. server2_runGame 8 room (ack # move_line k # rs)
    = Inr (Game_over t' (msgs @ [(player1Socket room, DRAW @ [0]), (player2Socket room, DRAW @ [0])]))"
proof -
  let ?t = "server2_newBoard 8"
  have "\<forall>k \<in> set [1..<10]. ttt_makeMove ?t (int k) = Inr (True, snd (projr (ttt_makeMove ?t (int k))))
      \<and> server2_verdict (snd (projr (ttt_makeMove ?t (int k)))) = Some (DRAW, DRAW)"
    by code_simp
  moreover have "k \<in> set [1..<10]" "k < 10"
    using assms by auto
  ultimately obtain t' where "ttt_makeMove ?t (int k) = Inr (True, t')" "server2_verdict t' = Some (DRAW, DRAW)"
    by blast
  with server_turn [OF \<open>k < 10\<close>] show ?thesis
    by (auto simp: server2_runGame_def Let_def)
qed

lemma uninitialised_counter_draws_witness:
  "\<exists>t' msgs. server2_runGame 8 sample_room [ACK, move_line 5]
    = Inr (Game_over t' (msgs @ [(7, DRAW @ [0]), (8, DRAW @ [0])]))"
  using uninitialised_counter_draws [of 5 sample_room ACK "[]"] by (simp add: sample_room_def)

end
