(* ===== verification/Game_Setup.thy ===== *)
theory Game_Setup
  imports Game_P2
begin

text \<open>
  The game programs from the command line to the game: arguments, allocation, sockets.  A program runs
  over the results its system calls will get, which the environment chooses, and leaves a trace of the
  calls and of what it prints.  It goes on with a value, exits with a status, or is stuck: undefined
  behaviour, or a call that has not returned (the fault \<open>Blocked\<close>).

  An allocation yields the null pointer when its result is 0.  What the system closes and frees when a
  process exits is no event of the trace.
\<close>

section \<open>System calls\<close>

datatype sys_call =
  Malloc | Socket | Bind int u16 | Listen int int | Accept int | Connect int u32 u16 | Pthread_create int

datatype event = Result sys_call int | Close int | Free | Mutex_destroy | Printed bytes | Perror bytes

record proc =
  os_results :: "int list"
  os_trace :: "event list"

datatype 'a outcome = Continue 'a | Exits int | Stuck fault

type_synonym 'a prog = "proc \<Rightarrow> 'a outcome \<times> proc"

definition return :: "'a \<Rightarrow> 'a prog" where
  "return x p = (Continue x, p)"

definition exits :: "int \<Rightarrow> 'a prog" where
  "exits status p = (Exits status, p)"

definition stuck :: "fault \<Rightarrow> 'a prog" where
  "stuck f p = (Stuck f, p)"

definition bindP :: "'a prog \<Rightarrow> ('a \<Rightarrow> 'b prog) \<Rightarrow> 'b prog" where
  "bindP m f p =
     (case m p of
        (Continue x, p') \<Rightarrow> f x p'
      | (Exits n, p') \<Rightarrow> (Exits n, p')
      | (Stuck e, p') \<Rightarrow> (Stuck e, p'))"

definition log :: "event list \<Rightarrow> unit prog" where
  "log es p = (Continue (), p\<lparr>os_trace := os_trace p @ es\<rparr>)"

definition sys :: "sys_call \<Rightarrow> int prog" where
  "sys c p =
     (case os_results p of
        [] \<Rightarrow> (Stuck Blocked, p)
      | r # rs \<Rightarrow> (Continue r, \<lparr>os_results = rs, os_trace = os_trace p @ [Result c r]\<rparr>))"

definition fail :: "event list \<Rightarrow> 'a prog" where
  "fail es = bindP (log es) (\<lambda>_. exits 1)"

definition allocate :: "int prog" where
  "allocate = sys Malloc"

text \<open>\<^verbatim>\<open>ttt_new\<close>, which writes to what \<^verbatim>\<open>malloc\<close> returns.\<close>

definition allocate_board :: "TicTacToe prog" where
  "allocate_board = bindP allocate (\<lambda>m. if m = 0 then stuck NullDeref else return ttt_new)"

definition port_word :: "int \<Rightarrow> u16" where
  "port_word port = htons (word_of_int port)"

section \<open>Addresses\<close>

text \<open>
  \<^verbatim>\<open>inet_pton\<close> of the family \<^verbatim>\<open>AF_INET\<close>: four decimal octets without leading zeros.  \<open>saw\<close>: a digit of the
  octet \<open>v\<close> has been read.
\<close>

fun pton_octets :: "bytes \<Rightarrow> bool \<Rightarrow> nat \<Rightarrow> nat list option" where
  "pton_octets [] saw v = (if saw then Some [v] else None)"
| "pton_octets (c # s) saw v =
     (if is_digit c then
        if saw \<and> v = 0 then None
        else let v' = 10 * v + (unat c - 48) in if v' > 255 then None else pton_octets s True v'
      else if c = 46 \<and> saw then map_option ((#) v) (pton_octets s False 0)
      else None)"

definition inet_pton :: "bytes \<Rightarrow> u32 option" where
  "inet_pton s =
     (case pton_octets s False 0 of
        Some [a, b, c, d] \<Rightarrow> Some (le32 (word_of_nat a) (word_of_nat b) (word_of_nat c) (word_of_nat d))
      | _ \<Rightarrow> None)"

section \<open>The first version\<close>

definition server_new :: "int prog" where
  "server_new = bindP allocate (\<lambda>server. if server = 0 then exits 1 else return server)"

text \<open>\<^verbatim>\<open>server_start\<close> with the socket it leaves in the structure.\<close>

definition server_start :: "int \<Rightarrow> int prog" where
  "server_start port =
     bindP (sys Socket) (\<lambda>serverSocket.
     if serverSocket = - 1 then fail [Perror (ascii ''error: failed to make socket'')]
     else
       bindP (sys (Bind serverSocket (port_word port))) (\<lambda>r.
       if r = - 1 then fail [Perror (ascii ''error: socket bind failed''), Close serverSocket]
       else
         bindP (sys (Listen serverSocket 1)) (\<lambda>r.
         if r = - 1 then fail [Perror (ascii ''error: socket listen failed''), Close serverSocket]
         else return serverSocket)))"

definition server_destroy :: "int \<Rightarrow> unit prog" where
  "server_destroy serverSocket = log ((if serverSocket \<noteq> - 1 then [Close serverSocket] else []) @ [Free])"

definition usage :: "bytes \<Rightarrow> bytes \<Rightarrow> bytes" where
  "usage prog arguments = ascii ''Usage: '' @ prog @ arguments @ [10]"

text \<open>\<^verbatim>\<open>main\<close> up to the game: the connection and the board.\<close>

definition server1_setup :: "bytes list \<Rightarrow> (int \<times> TicTacToe) prog" where
  "server1_setup argv =
     (if length argv \<noteq> 2 then fail [Printed (usage (argv ! 0) (ascii '' <port>''))]
      else
        bindP (log [Printed (ascii ''Game started'' @ [10])]) (\<lambda>_.
        bindP server_new (\<lambda>server.
        bindP (server_start (atoi (argv ! 1))) (\<lambda>serverSocket.
        bindP (sys (Accept serverSocket)) (\<lambda>clientSocket.
        bindP allocate_board (\<lambda>t. return (clientSocket, t)))))))"

text \<open>The exit statuses of the game; \<^verbatim>\<open>recv\<close> from the descriptor -1 of a failed \<^verbatim>\<open>accept\<close> fails.\<close>

definition verdict_status :: "verdict \<Rightarrow> int" where
  "verdict_status v = (if v = Disconnected then 1 else 0)"

definition server1_play :: "int \<Rightarrow> game_io \<Rightarrow> bytes list \<Rightarrow> (verdict \<times> game_io \<times> int) prog" where
  "server1_play clientSocket io recvs =
     (case server_runGame io (if clientSocket = - 1 then [[]] else recvs) of
        Inl f \<Rightarrow> stuck f
      | Inr (Playing io') \<Rightarrow> stuck Blocked
      | Inr (Ended v io') \<Rightarrow> return (v, io', verdict_status v))"

definition server1_program ::
    "bytes list \<Rightarrow> bytes \<Rightarrow> bytes list \<Rightarrow> (verdict \<times> game_io \<times> int) prog" where
  "server1_program argv stdin recvs =
     bindP (server1_setup argv) (\<lambda>(clientSocket, t).
     server1_play clientSocket \<lparr>io_board = t, io_stdin = stdin, io_sent = [], io_out = []\<rparr> recvs)"

definition client_new :: "bytes \<Rightarrow> int \<Rightarrow> (int \<times> u32 \<times> u16) prog" where
  "client_new serverIp port =
     bindP allocate (\<lambda>c.
     if c = 0 then fail [Perror (ascii ''Failed to allocate ClientP1'')]
     else
       bindP (sys Socket) (\<lambda>clientSocket.
       if clientSocket = - 1 then fail [Perror (ascii ''Socket creation failed''), Free]
       else
         (case inet_pton serverIp of
            None \<Rightarrow> fail [Perror (ascii ''Invalid server IP address''), Close clientSocket, Free]
          | Some addr \<Rightarrow> return (clientSocket, addr, port_word port))))"

definition client_start :: "int \<times> u32 \<times> u16 \<Rightarrow> unit prog" where
  "client_start c =
     (case c of (clientSocket, addr, port) \<Rightarrow>
       bindP (sys (Connect clientSocket addr port)) (\<lambda>r.
       if r = - 1 then fail [Perror (ascii ''Connection to server failed''), Close clientSocket, Free]
       else return ()))"

definition client_destroy :: "int \<Rightarrow> unit prog" where
  "client_destroy clientSocket = log ((if clientSocket \<noteq> - 1 then [Close clientSocket] else []) @ [Free])"

definition client1_setup :: "bytes list \<Rightarrow> (int \<times> TicTacToe) prog" where
  "client1_setup argv =
     (if length argv \<noteq> 3 then fail [Printed (usage (argv ! 0) (ascii '' <ip> <port>''))]
      else
        bindP allocate_board (\<lambda>t.
        bindP (client_new (argv ! 1) (atoi (argv ! 2))) (\<lambda>client.
        bindP (client_start client) (\<lambda>_.
        bindP (log [Printed (ascii ''You go first'' @ [10])]) (\<lambda>_. return (fst client, t))))))"

definition client1_program ::
    "bytes list \<Rightarrow> key_event list \<Rightarrow> bytes list \<Rightarrow> (verdict \<times> client_io \<times> int) prog" where
  "client1_program argv keys recvs =
     bindP (client1_setup argv) (\<lambda>(clientSocket, t).
     case client_main \<lparr>ci_board = t, ci_keys = keys, ci_sent = [], ci_out = []\<rparr> recvs of
       Inl f \<Rightarrow> stuck f
     | Inr (C_playing io) \<Rightarrow> stuck Blocked
     | Inr (C_ended v io) \<Rightarrow> return (v, io, verdict_status v))"

section \<open>The second version: the server\<close>

text \<open>\<^verbatim>\<open>server2_new\<close>: which of the five rooms were allocated, or \<open>None\<close> for the null pointer.\<close>

fun allocate_rooms :: "nat \<Rightarrow> bool list prog" where
  "allocate_rooms 0 = return []"
| "allocate_rooms (Suc k) =
     bindP allocate (\<lambda>room. bindP (allocate_rooms k) (\<lambda>rooms. return ((room \<noteq> 0) # rooms)))"

definition server2_alloc :: "bool list option prog" where
  "server2_alloc =
     bindP allocate (\<lambda>s. if s = 0 then return None else bindP (allocate_rooms 5) (\<lambda>rooms. return (Some rooms)))"

text \<open>
  The loop of \<^verbatim>\<open>server2_start\<close> over the results its calls get: \<^verbatim>\<open>accept\<close>, \<^verbatim>\<open>malloc\<close>, and \<^verbatim>\<open>pthread_create\<close>,
  whose result is not looked at.
\<close>

fun accept_loop :: "int \<Rightarrow> int list \<Rightarrow> event list \<Rightarrow> unit outcome \<times> proc" where
  "accept_loop serverSocket (clientSocket # rs) es =
     (if clientSocket < 0
      then (Exits 1, \<lparr>os_results = rs, os_trace = es @
              [Result (Accept serverSocket) clientSocket, Perror (ascii ''accepting client failed'')]\<rparr>)
      else
        (case rs of
           m # r # rs' \<Rightarrow>
             if m = 0
             then (Stuck NullDeref, \<lparr>os_results = r # rs',
                     os_trace = es @ [Result (Accept serverSocket) clientSocket, Result Malloc 0]\<rparr>)
             else accept_loop serverSocket rs' (es @ [Result (Accept serverSocket) clientSocket,
                    Result Malloc m, Result (Pthread_create clientSocket) r])
         | _ \<Rightarrow> (Stuck Blocked, \<lparr>os_results = rs, os_trace = es @ [Result (Accept serverSocket) clientSocket]\<rparr>)))"
| "accept_loop serverSocket [] es = (Stuck Blocked, \<lparr>os_results = [], os_trace = es\<rparr>)"

definition server2_start :: "bool list option \<Rightarrow> int \<Rightarrow> unit prog" where
  "server2_start s port =
     bindP (sys Socket) (\<lambda>serverSocket.
     if s = None then stuck NullDeref
     else if serverSocket = - 1 then fail [Perror (ascii ''error: failed to make socket'')]
     else
       bindP (sys (Bind serverSocket (port_word port))) (\<lambda>r.
       if r = - 1 then fail [Perror (ascii ''error: socket bind failed''), Close serverSocket]
       else
         bindP (sys (Listen serverSocket 10)) (\<lambda>r.
         if r = - 1 then fail [Perror (ascii ''Listen failed''), Close serverSocket]
         else (\<lambda>p. accept_loop serverSocket (os_results p) (os_trace p)))))"

text \<open>\<^verbatim>\<open>server2_destroy\<close>, on the rooms that exist and whether each has a board.\<close>

definition server2_destroy :: "int \<Rightarrow> bool option list \<Rightarrow> unit prog" where
  "server2_destroy serverSocket allocated =
     log ((if serverSocket \<ge> 0 then [Close serverSocket] else [])
       @ concat (map (\<lambda>room. case room of None \<Rightarrow> []
           | Some has_board \<Rightarrow> [Mutex_destroy] @ (if has_board then [Free] else []) @ [Free]) allocated)
       @ [Free])"

text \<open>The handler of \<^verbatim>\<open>SIGINT\<close>; \<open>None\<close> is a server not yet allocated.\<close>

definition handle_exit :: "(int \<times> bool option list) option \<Rightarrow> unit prog" where
  "handle_exit server =
     (case server of
        None \<Rightarrow> return ()
      | Some (serverSocket, allocated) \<Rightarrow>
          bindP (log [Printed ([10] @ ascii ''shutting down server'' @ [10])]) (\<lambda>_.
          bindP (server2_destroy serverSocket allocated) (\<lambda>_. exits 0)))"

text \<open>\<^verbatim>\<open>main\<close>; it never comes back from \<^verbatim>\<open>server2_start\<close>.\<close>

definition server2_program :: "bytes list \<Rightarrow> unit prog" where
  "server2_program argv =
     (if length argv \<noteq> 2 then fail [Printed (usage (argv ! 0) (ascii '' <port>''))]
      else
        let port = atoi (argv ! 1) in
        if port \<le> 0 then fail [Printed (ascii ''Invalid port number: '' @ argv ! 1 @ [10])]
        else bindP server2_alloc (\<lambda>server. server2_start server port))"

section \<open>The second version: the client\<close>

definition client2_new :: "bool prog" where
  "client2_new =
     bindP allocate (\<lambda>c.
     if c = 0 then bindP (log [Perror (ascii ''Failed to allocate client'')]) (\<lambda>_. return False)
     else return True)"

definition client2_destroy :: "int \<Rightarrow> unit prog" where
  "client2_destroy clientSocket = log ((if clientSocket \<ge> 0 then [Close clientSocket] else []) @ [Free])"

definition client2_connectToServer :: "int \<Rightarrow> bytes \<Rightarrow> int prog" where
  "client2_connectToServer port ip =
     bindP (sys Socket) (\<lambda>clientSocket.
     if clientSocket < 0 then fail [Perror (ascii ''Failed to create socket'')]
     else
       (case inet_pton ip of
          None \<Rightarrow> fail [Perror (ascii ''invalid ip addr'')]
        | Some addr \<Rightarrow>
            bindP (sys (Connect clientSocket addr (port_word port))) (\<lambda>r.
            if r < 0 then fail [Perror (ascii ''couldn'' @ [39] @ ascii ''t connect to server'')]
            else return clientSocket)))"

definition client2_setup :: "bytes list \<Rightarrow> (int \<times> TicTacToe) prog" where
  "client2_setup argv =
     (if length argv \<noteq> 3 then fail [Printed (usage (argv ! 0) (ascii '' <ip> <port>''))]
      else
        let port = atoi (argv ! 2) in
        if port \<le> 0 then fail [Printed (ascii ''Invalid port number: '' @ argv ! 1 @ [10])]
        else
          bindP client2_new (\<lambda>client.
          bindP allocate_board (\<lambda>t.
          if \<not> client then exits 1
          else bindP (client2_connectToServer port (argv ! 1)) (\<lambda>clientSocket. return (clientSocket, t)))))"

text \<open>The game ends in one of the calls of \<^verbatim>\<open>exit(EXIT_SUCCESS)\<close> of \<^verbatim>\<open>client2_runGame\<close>.\<close>

definition client2_program ::
    "bytes list \<Rightarrow> bytes option list \<Rightarrow> bytes option list \<Rightarrow> client2_end prog" where
  "client2_program argv typed recvs =
     bindP (client2_setup argv) (\<lambda>(clientSocket, t).
     case client2_main typed recvs of Inl f \<Rightarrow> stuck f | Inr result \<Rightarrow> return result)"

end
