(* ===== verification/Setup_Properties.thy ===== *)
theory Setup_Properties
  imports Game_Setup Game_Properties Rooms_Properties
begin

text \<open>
  What the set-up of the game programs promises: calls on sockets in the order the system demands, sockets
  closed on a failure, the two ends meeting at the same port, and the clients the second server accepts
  becoming its threads.
\<close>

section \<open>Prog rules\<close>

lemma prog_simps [simp]:
  "bindP (return x) f p = f x p"
  "bindP (exits n) g p = (Exits n, p)"
  "bindP (stuck e) h p = (Stuck e, p)"
  "return x p = (Continue x, p)" "exits n p = (Exits n, p)" "stuck e p = (Stuck e, p)"
  "log es p = (Continue (), p\<lparr>os_trace := os_trace p @ es\<rparr>)"
  "fail es p = (Exits 1, p\<lparr>os_trace := os_trace p @ es\<rparr>)"
  by (simp_all add: bindP_def return_def exits_def stuck_def log_def fail_def)

section \<open>The order of calls on sockets\<close>

datatype phase = Fresh | Bound | Listening | Connected

text \<open>
  The sockets of a process after an event, or \<open>None\<close> where the event is not allowed: to bind a socket that
  is not fresh, to listen on one that is not bound, to accept on one that does not listen, to connect one
  that is not fresh, to close one that is not open.
\<close>

definition moves :: "phase \<Rightarrow> phase \<Rightarrow> int \<Rightarrow> int \<Rightarrow> (int \<rightharpoonup> phase) \<Rightarrow> (int \<rightharpoonup> phase) option" where
  "moves a b fd r m = (if m fd = Some a then Some (if r = - 1 then m else m(fd \<mapsto> b)) else None)"

definition opened :: "int \<Rightarrow> phase \<Rightarrow> (int \<rightharpoonup> phase) \<Rightarrow> (int \<rightharpoonup> phase)" where
  "opened r a m = (if r = - 1 \<or> m r \<noteq> None then m else m(r \<mapsto> a))"

fun socket_event :: "event \<Rightarrow> (int \<rightharpoonup> phase) \<Rightarrow> (int \<rightharpoonup> phase) option" where
  "socket_event (Result Socket r) m = Some (opened r Fresh m)"
| "socket_event (Result (Bind fd port) r) m = moves Fresh Bound fd r m"
| "socket_event (Result (Listen fd n) r) m = moves Bound Listening fd r m"
| "socket_event (Result (Accept fd) r) m =
     (if m fd = Some Listening then Some (opened r Connected m) else None)"
| "socket_event (Result (Connect fd a port) r) m = moves Fresh Connected fd r m"
| "socket_event (Close fd) m = (if m fd = None then None else Some (m(fd := None)))"
| "socket_event _ m = Some m"

fun sockets_after :: "event list \<Rightarrow> (int \<rightharpoonup> phase) \<Rightarrow> (int \<rightharpoonup> phase) option" where
  "sockets_after [] m = Some m"
| "sockets_after (e # es) m = (case socket_event e m of None \<Rightarrow> None | Some m' \<Rightarrow> sockets_after es m')"

lemma sockets_after_append:
  "sockets_after (es @ fs) m = (case sockets_after es m of None \<Rightarrow> None | Some m' \<Rightarrow> sockets_after fs m')"
  by (induction es arbitrary: m) (simp_all split: option.split)

lemma sockets_after_single: "sockets_after [e] m = socket_event e m"
  by (simp split: option.split)

text \<open>
  A contract for a part of a program: from sockets \<open>m\<close> its events are allowed, when it exits its status is 1
  and the sockets satisfy \<open>Q\<close>, and when it goes on they are as \<open>P\<close> says of its value.
\<close>

definition started :: "int list \<Rightarrow> event list \<Rightarrow> proc" where
  "started rs es = \<lparr>os_results = rs, os_trace = es\<rparr>"

definition keeps :: "'a prog \<Rightarrow> (int \<rightharpoonup> phase) \<Rightarrow> ((int \<rightharpoonup> phase) \<Rightarrow> bool) \<Rightarrow> ('a \<Rightarrow> (int \<rightharpoonup> phase) \<Rightarrow> bool) \<Rightarrow> bool" where
  "keeps c m Q P \<longleftrightarrow> (\<forall>p. sockets_after (os_trace p) Map.empty = Some m \<and> (\<forall>r \<in> set (os_results p). - 1 \<le> r) \<longrightarrow>
     (case c p of (out, p') \<Rightarrow>
        (\<forall>r \<in> set (os_results p'). - 1 \<le> r) \<and>
        (\<exists>m'. sockets_after (os_trace p') Map.empty = Some m'
          \<and> (case out of Continue x \<Rightarrow> P x m' | Exits n \<Rightarrow> n = 1 \<and> Q m' | Stuck e \<Rightarrow> True))))"

named_theorems keeps

lemma keeps_return [keeps]: "P x m \<Longrightarrow> keeps (return x) m Q P"
  by (simp add: keeps_def)

lemma keeps_exits [keeps]: "Q m \<Longrightarrow> keeps (exits 1) m Q P"
  by (simp add: keeps_def)

lemma keeps_stuck [keeps]: "keeps (stuck e) m Q P"
  by (simp add: keeps_def)

lemma keeps_log: "sockets_after es m = Some m' \<Longrightarrow> P () m' \<Longrightarrow> keeps (log es) m Q P"
  by (simp add: keeps_def sockets_after_append)

lemma keeps_fail: "(case sockets_after es m of None \<Rightarrow> False | Some m' \<Rightarrow> Q m') \<Longrightarrow> keeps (fail es) m Q P"
  by (simp add: keeps_def sockets_after_append split: option.splits)

lemma keeps_sys:
  assumes "\<And>r. - 1 \<le> r \<Longrightarrow> \<exists>m'. socket_event (Result c r) m = Some m' \<and> P r m'"
  shows "keeps (sys c) m Q P"
  using assms by (auto simp: keeps_def sys_def sockets_after_append sockets_after_single simp del: sockets_after.simps split: list.split)

lemma keeps_bind:
  assumes "keeps c m Q R" "\<And>x m'. R x m' \<Longrightarrow> keeps (f x) m' Q P"
  shows "keeps (bindP c f) m Q P"
  unfolding keeps_def
proof (intro allI impI, elim conjE)
  fix p :: proc
  assume p: "sockets_after (os_trace p) Map.empty = Some m" "\<forall>r \<in> set (os_results p). - 1 \<le> r"
  obtain out p' where c: "c p = (out, p')"
    by fastforce
  from assms(1) p obtain m' where m': "sockets_after (os_trace p') Map.empty = Some m'"
      "\<forall>r \<in> set (os_results p'). - 1 \<le> r"
      "case out of Continue x \<Rightarrow> R x m' | Exits n \<Rightarrow> n = 1 \<and> Q m' | Stuck e \<Rightarrow> True"
    unfolding keeps_def using c by fastforce
  show "case bindP c f p of (out, p') \<Rightarrow> (\<forall>r \<in> set (os_results p'). - 1 \<le> r) \<and>
        (\<exists>m'. sockets_after (os_trace p') Map.empty = Some m'
          \<and> (case out of Continue x \<Rightarrow> P x m' | Exits n \<Rightarrow> n = 1 \<and> Q m' | Stuck e \<Rightarrow> True))"
  proof (cases out)
    case (Continue x)
    then have "keeps (f x) m' Q P"
      using assms(2) m'(3) by simp
    then show ?thesis
      using m' c Continue by (auto simp: keeps_def bindP_def)
  qed (use m' c in \<open>auto simp: bindP_def\<close>)
qed

lemma keeps_sys_bind:
  assumes "\<And>r. - 1 \<le> r \<Longrightarrow> \<exists>m'. socket_event (Result c r) m = Some m' \<and> keeps (f r) m' Q P"
  shows "keeps (bindP (sys c) f) m Q P"
  by (rule keeps_bind [where R = "\<lambda>r m'. keeps (f r) m' Q P"]) (use assms in \<open>auto intro: keeps_sys\<close>)

lemma sys_result: "- 1 \<le> r \<Longrightarrow> (r = - 1 \<Longrightarrow> T) \<Longrightarrow> (0 \<le> (r :: int) \<Longrightarrow> T) \<Longrightarrow> T"
  by linarith

lemma keeps_socket:
  assumes "keeps (f (- 1)) Map.empty Q P" "\<And>r. 0 \<le> r \<Longrightarrow> keeps (f r) [r \<mapsto> Fresh] Q P"
  shows "keeps (bindP (sys Socket) f) Map.empty Q P"
  by (rule keeps_sys_bind, erule sys_result) (use assms in \<open>auto simp: opened_def\<close>)

lemma keeps_moves:
  assumes "socket_event (Result c (- 1)) m = Some m" "keeps (f (- 1)) m Q P"
    and "\<And>r. 0 \<le> r \<Longrightarrow> socket_event (Result c r) m = Some m'" "\<And>r. 0 \<le> r \<Longrightarrow> keeps (f r) m' Q P"
  shows "keeps (bindP (sys c) f) m Q P"
  by (rule keeps_sys_bind, erule sys_result) (use assms in auto)

lemma keeps_bind_call:
  assumes "m fd = Some Fresh" "keeps (f (- 1)) m Q P" "\<And>r. 0 \<le> r \<Longrightarrow> keeps (f r) (m(fd \<mapsto> Bound)) Q P"
  shows "keeps (bindP (sys (Bind fd port)) f) m Q P"
  by (rule keeps_moves [where m' = "m(fd \<mapsto> Bound)"]) (use assms in \<open>auto simp: moves_def\<close>)

lemma keeps_listen:
  assumes "m fd = Some Bound" "keeps (f (- 1)) m Q P" "\<And>r. 0 \<le> r \<Longrightarrow> keeps (f r) (m(fd \<mapsto> Listening)) Q P"
  shows "keeps (bindP (sys (Listen fd n)) f) m Q P"
  by (rule keeps_moves [where m' = "m(fd \<mapsto> Listening)"]) (use assms in \<open>auto simp: moves_def\<close>)

lemma keeps_connect:
  assumes "m fd = Some Fresh" "keeps (f (- 1)) m Q P" "\<And>r. 0 \<le> r \<Longrightarrow> keeps (f r) (m(fd \<mapsto> Connected)) Q P"
  shows "keeps (bindP (sys (Connect fd a port)) f) m Q P"
  by (rule keeps_moves [where m' = "m(fd \<mapsto> Connected)"]) (use assms in \<open>auto simp: moves_def\<close>)

lemma keeps_accept:
  assumes "m fd = Some Listening" "\<And>r m'. - 1 \<le> r \<Longrightarrow> keeps (f r) m' Q P"
  shows "keeps (bindP (sys (Accept fd)) f) m Q P"
  by (rule keeps_sys_bind) (use assms in auto)

section \<open>The programs\<close>

lemma keeps_allocate: "(\<And>r. keeps (f r) m Q P) \<Longrightarrow> keeps (bindP allocate f) m Q P"
  unfolding allocate_def by (rule keeps_sys_bind) auto

lemma keeps_board_bind:
  assumes "keeps (f ttt_new) m Q P"
  shows "keeps (bindP allocate_board f) m Q P"
proof (rule keeps_bind [where R = "\<lambda>t m'. t = ttt_new \<and> m' = m"])
  show "keeps allocate_board m Q (\<lambda>t m'. t = ttt_new \<and> m' = m)"
    unfolding allocate_board_def by (rule keeps_allocate) (auto intro: keeps)
qed (use assms in auto)

lemma keeps_log_bind:
  "sockets_after es m = Some m' \<Longrightarrow> keeps (f ()) m' Q P \<Longrightarrow> keeps (bindP (log es) f) m Q P"
  by (rule keeps_bind [where R = "\<lambda>_ m''. m'' = m'"]) (auto intro: keeps_log)

abbreviation no_socket :: "(int \<rightharpoonup> phase) \<Rightarrow> bool" where
  "no_socket m \<equiv> m = Map.empty"

lemma keeps_server_start:
  "keeps (server_start port) Map.empty no_socket (\<lambda>fd m. m = [fd \<mapsto> Listening])"
proof -
  have "keeps (bindP (sys (Listen fd 1)) (\<lambda>r. if r = - 1
      then fail [Perror (ascii ''error: socket listen failed''), Close fd] else return fd))
      [fd \<mapsto> Bound] no_socket (\<lambda>fd m. m = [fd \<mapsto> Listening])" for fd
    by (rule keeps_listen) (auto intro: keeps keeps_fail)
  then have "keeps (bindP (sys (Bind fd (port_word port))) (\<lambda>r. if r = - 1
      then fail [Perror (ascii ''error: socket bind failed''), Close fd] else
      bindP (sys (Listen fd 1)) (\<lambda>r. if r = - 1
      then fail [Perror (ascii ''error: socket listen failed''), Close fd] else return fd)))
      [fd \<mapsto> Fresh] no_socket (\<lambda>fd m. m = [fd \<mapsto> Listening])" for fd
    by (intro keeps_bind_call) (auto intro: keeps_fail)
  then show ?thesis
    unfolding server_start_def by (intro keeps_socket) (auto intro: keeps_fail)
qed

lemma keeps_server1_setup: "keeps (server1_setup argv) Map.empty no_socket (\<lambda>_ _. True)"
proof -
  have "keeps (bindP (sys (Accept fd)) (\<lambda>c. bindP allocate_board (\<lambda>t. return (c, t))))
      [fd \<mapsto> Listening] no_socket (\<lambda>_ _. True)" for fd
    by (rule keeps_accept) (auto intro: keeps keeps_board_bind)
  then have start: "keeps (bindP (server_start port) (\<lambda>fd. bindP (sys (Accept fd)) (\<lambda>c.
      bindP allocate_board (\<lambda>t. return (c, t))))) Map.empty no_socket (\<lambda>_ _. True)" for port
    by (intro keeps_bind [OF keeps_server_start]) simp
  have "keeps server_new Map.empty no_socket (\<lambda>_. no_socket)"
    unfolding server_new_def by (rule keeps_allocate) (auto intro: keeps)
  then have "keeps (bindP server_new (\<lambda>server. bindP (server_start port) (\<lambda>fd.
      bindP (sys (Accept fd)) (\<lambda>c. bindP allocate_board (\<lambda>t. return (c, t))))))
      Map.empty no_socket (\<lambda>_ _. True)" for port
    by (rule keeps_bind) (use start in simp)
  then show ?thesis
    unfolding server1_setup_def by (cases "length argv = 2") (auto intro: keeps_fail keeps_log_bind)
qed

lemma keeps_client_new:
  "keeps (client_new ip port) Map.empty no_socket (\<lambda>(fd, _) m. m = [fd \<mapsto> Fresh])"
proof -
  have "keeps (case inet_pton ip of
      None \<Rightarrow> fail [Perror (ascii ''Invalid server IP address''), Close fd, Free]
    | Some addr \<Rightarrow> return (fd, addr, port_word port)) [fd \<mapsto> Fresh] no_socket (\<lambda>(fd, _) m. m = [fd \<mapsto> Fresh])"
    for fd
    by (auto intro: keeps keeps_fail split: option.split)
  then show ?thesis
    unfolding client_new_def by (intro keeps_allocate) (auto intro!: keeps_socket keeps_fail)
qed

lemma keeps_client1_setup: "keeps (client1_setup argv) Map.empty no_socket (\<lambda>_ _. True)"
proof -
  have "keeps (client_start (fd, a, w)) [fd \<mapsto> Fresh] no_socket (\<lambda>_ _. True)" for fd a w
    unfolding client_start_def by (auto intro!: keeps_connect keeps_fail intro: keeps)
  moreover have "keeps (bindP (log [Printed l]) (\<lambda>_. return x)) m no_socket (\<lambda>_ _. True)"
    for l m and x :: "int \<times> TicTacToe"
    by (rule keeps_log_bind) (auto intro: keeps)
  ultimately have "keeps (bindP (client_start c) (\<lambda>_. bindP (log [Printed l]) (\<lambda>_. return (fst c, t))))
      [fst c \<mapsto> Fresh] no_socket (\<lambda>_ _. True)" for c l and t :: TicTacToe
    by (cases c) (auto intro!: keeps_bind [where c = "client_start _"])
  then have "keeps (bindP (client_new ip port) (\<lambda>c. bindP (client_start c) (\<lambda>_.
      bindP (log [Printed l]) (\<lambda>_. return (fst c, t))))) Map.empty no_socket (\<lambda>_ _. True)"
    for ip port l and t :: TicTacToe
    by (intro keeps_bind [OF keeps_client_new]) (auto simp: case_prod_unfold)
  then show ?thesis
    unfolding client1_setup_def by (cases "length argv = 3") (auto intro: keeps_fail keeps_board_bind)
qed

text \<open>What \<open>keeps\<close> says of an outcome.\<close>

definition kept :: "'a outcome \<times> proc \<Rightarrow> bool" where
  "kept = (\<lambda>(out, p'). (\<forall>r \<in> set (os_results p'). - 1 \<le> r)
     \<and> (\<exists>m'. sockets_after (os_trace p') Map.empty = Some m')
     \<and> (case out of Exits n \<Rightarrow> n = 1 | _ \<Rightarrow> True))"

lemma accept_loop_keeps:
  "sockets_after es Map.empty = Some m \<Longrightarrow> m fd = Some Listening \<Longrightarrow> \<forall>r \<in> set rs. - 1 \<le> r \<Longrightarrow>
   kept (accept_loop fd rs es)"
proof (induction fd rs es arbitrary: m rule: accept_loop.induct)
  case (1 fd c rs es)
  have listening: "opened c Connected m fd = Some Listening"
    using 1(3) by (auto simp: opened_def)
  show ?case
  proof (cases "0 \<le> c \<and> (\<exists>n r rs'. rs = n # r # rs' \<and> n \<noteq> 0)")
    case True
    then obtain n r rs' where rs: "0 \<le> c" "rs = n # r # rs'" "n \<noteq> 0"
      by blast
    with 1 listening show ?thesis
      by (simp add: sockets_after_append)
  next
    case False
    with 1(2-4) show ?thesis
      by (auto simp: kept_def sockets_after_append split: list.split)
  qed
qed (auto simp: kept_def)

lemma keeps_accept_loop:
  "m fd = Some Listening \<Longrightarrow>
   keeps (\<lambda>p. accept_loop fd (os_results p) (os_trace p)) m (\<lambda>_. True) (\<lambda>_ _. True)"
proof -
  have keptI: "keeps c m (\<lambda>_. True) (\<lambda>_ _. True)"
    if "\<And>p. sockets_after (os_trace p) Map.empty = Some m \<Longrightarrow> \<forall>r \<in> set (os_results p). - 1 \<le> r \<Longrightarrow> kept (c p)"
    for c :: "unit prog"
    unfolding keeps_def
  proof (intro allI impI)
    fix p :: proc
    assume "sockets_after (os_trace p) Map.empty = Some m \<and> (\<forall>r \<in> set (os_results p). - 1 \<le> r)"
    then have "kept (c p)"
      using that by blast
    then show "case c p of (out, p') \<Rightarrow> (\<forall>r \<in> set (os_results p'). - 1 \<le> r) \<and>
        (\<exists>m'. sockets_after (os_trace p') Map.empty = Some m'
          \<and> (case out of Continue x \<Rightarrow> True | Exits n \<Rightarrow> n = 1 \<and> True | Stuck e \<Rightarrow> True))"
      by (auto simp: kept_def split: outcome.splits)
  qed
  assume "m fd = Some Listening"
  then show ?thesis
    by (intro keptI accept_loop_keeps)
qed

lemma keeps_server2_start: "keeps (server2_start s port) Map.empty (\<lambda>_. True) (\<lambda>_ _. True)"
proof -
  have "keeps (bindP (sys (Listen fd 10)) (\<lambda>r. if r = - 1 then fail [Perror (ascii ''Listen failed''), Close fd]
      else (\<lambda>p. accept_loop fd (os_results p) (os_trace p)))) [fd \<mapsto> Bound] (\<lambda>_. True) (\<lambda>_ _. True)" for fd
    by (rule keeps_listen) (auto intro: keeps_accept_loop intro!: keeps_fail)
  then have "keeps (bindP (sys (Bind fd (port_word port))) (\<lambda>r.
       if r = - 1 then fail [Perror (ascii ''error: socket bind failed''), Close fd]
       else
         bindP (sys (Listen fd 10)) (\<lambda>r.
         if r = - 1 then fail [Perror (ascii ''Listen failed''), Close fd]
         else (\<lambda>p. accept_loop fd (os_results p) (os_trace p))))) [fd \<mapsto> Fresh] (\<lambda>_. True) (\<lambda>_ _. True)" for fd
    by (intro keeps_bind_call) (auto intro!: keeps_fail)
  then show ?thesis
    unfolding server2_start_def by (intro keeps_socket) (auto intro!: keeps_fail intro: keeps)
qed

lemma keeps_rooms: "keeps (allocate_rooms k) m Q (\<lambda>_ m'. m' = m)"
proof (induction k)
  case (Suc k)
  then show ?case
    by (auto intro!: keeps_allocate keeps_bind [OF Suc] intro: keeps simp del: prog_simps)
qed (auto intro: keeps simp del: prog_simps)

lemma keeps_server2_program: "keeps (server2_program argv) Map.empty (\<lambda>_. True) (\<lambda>_ _. True)"
proof -
  have "keeps server2_alloc Map.empty (\<lambda>_. True) (\<lambda>_ m'. m' = Map.empty)"
    unfolding server2_alloc_def
    by (rule keeps_allocate) (auto intro!: keeps_bind [OF keeps_rooms] intro: keeps)
  then have "keeps (bindP server2_alloc (\<lambda>s. server2_start s port)) Map.empty (\<lambda>_. True) (\<lambda>_ _. True)" for port
    by (rule keeps_bind) (use keeps_server2_start in simp)
  then show ?thesis
    unfolding server2_program_def Let_def by (auto intro!: keeps_fail)
qed

lemma keeps_client2_setup: "keeps (client2_setup argv) Map.empty (\<lambda>_. True) (\<lambda>_ _. True)"
proof -
  have "keeps (case inet_pton ip of
          None \<Rightarrow> fail [Perror (ascii ''invalid ip addr'')]
        | Some addr \<Rightarrow>
            bindP (sys (Connect fd addr (port_word port))) (\<lambda>r.
            if r < 0 then fail [Perror (ascii ''couldn'' @ [39] @ ascii ''t connect to server'')]
            else return fd)) [fd \<mapsto> Fresh] (\<lambda>_. True) (\<lambda>_ _. True)" for ip port fd
    by (auto intro!: keeps_fail keeps_connect intro: keeps split: option.split)
  then have connect: "keeps (client2_connectToServer port ip) Map.empty (\<lambda>_. True) (\<lambda>_ _. True)" for port ip
    unfolding client2_connectToServer_def by (intro keeps_socket) (auto intro!: keeps_fail)
  have "keeps (bindP (client2_connectToServer port ip) (\<lambda>fd. return (fd, t))) Map.empty (\<lambda>_. True) (\<lambda>_ _. True)"
    for port ip and t :: TicTacToe
    by (rule keeps_bind [OF connect]) (auto intro: keeps)
  then have "keeps (bindP allocate_board (\<lambda>t. if \<not> client then exits 1
      else bindP (client2_connectToServer port ip) (\<lambda>fd. return (fd, t)))) Map.empty (\<lambda>_. True) (\<lambda>_ _. True)"
    for port ip client
    by (intro keeps_board_bind) (auto intro: keeps)
  note board = this
  have new: "keeps client2_new Map.empty (\<lambda>_. True) (\<lambda>_ m'. m' = Map.empty)"
    unfolding client2_new_def by (rule keeps_allocate) (auto intro!: keeps_log_bind intro: keeps)
  have "keeps (bindP client2_new (\<lambda>client. bindP allocate_board (\<lambda>t. if \<not> client then exits 1
      else bindP (client2_connectToServer port ip) (\<lambda>fd. return (fd, t))))) Map.empty (\<lambda>_. True) (\<lambda>_ _. True)"
    for port ip
    by (rule keeps_bind [OF new]) (use board in simp)
  then show ?thesis
    unfolding client2_setup_def Let_def by (auto intro!: keeps_fail)
qed

text \<open>The contract of a whole program, started without sockets.\<close>

lemma keeps_program:
  assumes "keeps c Map.empty Q P" "\<forall>r \<in> set rs. - 1 \<le> r"
  shows "\<exists>m. sockets_after (os_trace (snd (c (started rs [])))) Map.empty = Some m
    \<and> (\<forall>n. fst (c (started rs [])) = Exits n \<longrightarrow> n = 1 \<and> Q m)"
proof -
  obtain out p' where c: "c (started rs []) = (out, p')"
    by fastforce
  have "sockets_after (os_trace (started rs [])) Map.empty = Some Map.empty
      \<and> (\<forall>r \<in> set (os_results (started rs [])). - 1 \<le> r)"
    using assms(2) by (simp add: started_def)
  with assms(1) c have "\<exists>m'. sockets_after (os_trace p') Map.empty = Some m'
      \<and> (case out of Continue x \<Rightarrow> P x m' | Exits n \<Rightarrow> n = 1 \<and> Q m' | Stuck e \<Rightarrow> True)"
    unfolding keeps_def by fastforce
  with c show ?thesis
    by (cases out) auto
qed



text \<open>The second client leaves its socket open when it cannot connect.\<close>

lemma client2_leaves_socket:
  "client2_setup [[], ascii ''1.2.3.4'', dec 4000] (started [1, 1, 3, - 1] [])
    = (Exits 1, \<lparr>os_results = [], os_trace = [Result Malloc 1, Result Malloc 1, Result Socket 3,
        Result (Connect 3 (le32 1 2 3 4) (port_word 4000)) (- 1),
        Perror (ascii ''couldn'' @ [39] @ ascii ''t connect to server'')]\<rparr>)"
proof -
  have "atoi (dec 4000) = 4000" "inet_pton (ascii ''1.2.3.4'') = Some (le32 1 2 3 4)"
    by (simp add: atoi_dec) code_simp
  then show ?thesis
    by (simp add: client2_setup_def client2_new_def allocate_board_def allocate_def client2_connectToServer_def
        bindP_def sys_def started_def)
qed

section \<open>Clients and threads\<close>

text \<open>The clients that got a thread, in the order they were accepted.\<close>

fun threads_of :: "event list \<Rightarrow> int list" where
  "threads_of [] = []"
| "threads_of (Result (Pthread_create c) r # es) = (if r = 0 then c # threads_of es else threads_of es)"
| "threads_of (_ # es) = threads_of es"

lemma threads_of_append: "threads_of (es @ fs) = threads_of es @ threads_of fs"
  by (induction es rule: threads_of.induct) auto

definition accepted :: "int list \<Rightarrow> ServerP2 \<Rightarrow> ServerP2" where
  "accepted cs s = foldl (\<lambda>s c. go c Reading_command s) s cs"

lemma accepted_steps:
  assumes "exit_status s = None" "distinct cs" "\<forall>c \<in> set cs. 0 \<le> c \<and> threads s c = None"
  shows "server2_step\<^sup>*\<^sup>* s (accepted cs s)"
  using assms
proof (induction cs arbitrary: s)
  case (Cons c cs)
  have "server2_step s (go c Reading_command s)"
    using Cons.prems by (intro server2_step.accept) auto
  moreover have "server2_step\<^sup>*\<^sup>* (go c Reading_command s) (accepted cs (go c Reading_command s))"
    using Cons.prems by (intro Cons.IH) auto
  ultimately show ?case
    by (simp add: accepted_def)
qed (simp add: accepted_def)

lemma threads_of_snoc: "threads_of (es @ Result (Accept fd) c # fs) = threads_of es @ threads_of fs"
  by (simp add: threads_of_append)

lemma accept_loop_threads:
  assumes "\<forall>c \<in> set (threads_of es). 0 \<le> c"
  shows "\<forall>c \<in> set (threads_of (os_trace (snd (accept_loop fd rs es)))). 0 \<le> c"
  using assms
proof (induction fd rs es rule: accept_loop.induct)
  case (1 fd c rs es)
  show ?case
  proof (cases "c < 0")
    case True
    with 1(2) show ?thesis
      by (simp add: threads_of_snoc)
  next
    case False
    show ?thesis
    proof (cases "\<exists>n r rs'. rs = n # r # rs'")
      case True
      then obtain n r rs' where rs: "rs = n # r # rs'"
        by blast
      show ?thesis
      proof (cases "n = 0")
        case True
        with 1(2) False rs show ?thesis
          by (simp add: threads_of_snoc)
      next
        case n: False
        have "\<forall>d \<in> set (threads_of (es @ [Result (Accept fd) c, Result Malloc n, Result (Pthread_create c) r])). 0 \<le> d"
          using 1(2) False by (simp add: threads_of_snoc)
        from 1(1) [OF False rs refl n this] False n show ?thesis
          by (simp add: rs)
      qed
    next
      case short: False
      then have "accept_loop fd (c # rs) es
          = (Stuck Blocked, \<lparr>os_results = rs, os_trace = es @ [Result (Accept fd) c]\<rparr>)"
        using False by (simp split: list.split)
      with 1(2) show ?thesis
        by (simp add: threads_of_snoc)
    qed
  qed
qed simp

text \<open>
  The loop of \<^verbatim>\<open>server2_start\<close> and the threads meet: whatever its calls return, the clients for which
  \<^verbatim>\<open>pthread_create\<close> succeeded, when the system gave them distinct descriptors, are threads of a state that
  the server reaches, each about to read its command.
\<close>

lemma accepted_clients_become_threads:
  assumes "cs = threads_of (os_trace (snd (accept_loop fd rs [])))" "distinct cs"
  shows "\<exists>s. reach server2_initial server2_step s \<and> exit_status s = None
    \<and> (\<forall>c. threads s c = (if c \<in> set cs then Some Reading_command else None))"
proof -
  let ?s0 = "server2_new (replicate 5 False)"
  have "\<forall>c \<in> set cs. 0 \<le> c \<and> threads ?s0 c = None"
    using accept_loop_threads [of "[]" fd rs] assms(1) by (simp add: server2_new_def)
  then have "server2_step\<^sup>*\<^sup>* ?s0 (accepted cs ?s0)"
    by (intro accepted_steps [OF _ assms(2)]) (simp_all add: server2_new_def)
  moreover have "reach server2_initial server2_step ?s0"
    by (rule reach_init) (simp add: server2_initial_def)
  ultimately have "reach server2_initial server2_step (accepted cs ?s0)"
    using rooms.reach_steps by blast
  moreover have "exit_status (accepted cs s) = exit_status s" for s
    by (induction cs arbitrary: s) (simp_all add: accepted_def)
  moreover have "threads (accepted cs s) c = (if c \<in> set cs then Some Reading_command else threads s c)" for s c
    by (induction cs arbitrary: s) (auto simp: accepted_def)
  ultimately show ?thesis
    by (intro exI [of _ "accepted cs ?s0"]) (simp add: server2_new_def)
qed

lemma accepted_clients_become_threads_witness:
  "\<exists>s. reach server2_initial server2_step s \<and> exit_status s = None
    \<and> (\<forall>c. threads s c = (if c \<in> set [7, 9] then Some Reading_command else None))"
  by (rule accepted_clients_become_threads [where fd = 3 and rs = "[7, 1, 0, 8, 1, 11, 9, 1, 0]"]) simp_all

end
