(* ===== verification/Game_Programs.thy ===== *)
theory Game_Programs
  imports Setup_Properties
begin

text \<open>
  The two programs of the first version run from their command lines: with the same port in decimal and
  the server's address in dotted form they meet, and play the game to the same board.
\<close>

section \<open>Addresses\<close>

lemma foldl_digits_ge: "n \<le> foldl (\<lambda>n c. 10 * n + digit_of c) n ds"
proof (induction ds arbitrary: n)
  case (Cons c ds)
  from Cons [of "10 * n + digit_of c"] show ?case
    by simp
qed simp

lemma digit_value: "is_digit c \<Longrightarrow> unat c - 48 = digit_of c"
  by (simp add: is_digit_def digit_of_def)

lemma pton_digits:
  "v \<noteq> 0 \<Longrightarrow> list_all is_digit ds \<Longrightarrow> foldl (\<lambda>n c. 10 * n + digit_of c) v ds < 256 \<Longrightarrow>
   pton_octets (ds @ r) True v = pton_octets r True (foldl (\<lambda>n c. 10 * n + digit_of c) v ds)"
proof (induction ds arbitrary: v)
  case (Cons c ds)
  then have "10 * v + digit_of c < 256"
    using foldl_digits_ge [of "10 * v + digit_of c" ds] by simp
  with Cons show ?case
    by (simp add: digit_value)
qed simp

lemma pton_dec:
  assumes "n < 256"
  shows "pton_octets (dec n @ r) False 0 = pton_octets r True n"
proof -
  obtain c ds where d: "dec n = c # ds"
    using dec_head by (cases "dec n") blast+
  have c: "is_digit c" "list_all is_digit ds" "foldl (\<lambda>n c. 10 * n + digit_of c) (digit_of c) ds = n"
    using dec_digits [of n] d by (simp_all add: number_def)
  then have le: "digit_of c < 256"
    using assms foldl_digits_ge [of "digit_of c" ds] by simp
  show ?thesis
  proof (cases "digit_of c = 0")
    case True
    then have "c = 48"
      using c(1) by (auto simp: digit_of_def is_digit_def word_le_nat_alt word_unat_eq_iff)
    then have "n = 0" "ds = []"
      using dec_numeral [of n] d by (auto simp: numeral_of_def)
    with c True show ?thesis
      unfolding d by (simp add: digit_value)
  next
    case False
    with c le pton_digits [OF False c(2), of r] assms show ?thesis
      by (simp add: d digit_value)
  qed
qed

lemma inet_pton_ntoa: "inet_pton (inet_ntoa a) = Some a"
proof -
  obtain p q r s where a: "a = le32 p q r s"
    using le32_bytes32 by metis
  have "pton_octets (dotted (unat p) (unat q) (unat r) (unat s)) False 0
      = Some [unat p, unat q, unat r, unat s]"
    using pton_dec [OF unat_u8_less [of s], of "[]"]
    by (simp add: dotted_def pton_dec [OF unat_u8_less] is_digit_def)
  then show ?thesis
    by (simp add: a inet_ntoa_def byte_simps inet_pton_def)
qed

section \<open>Set-up\<close>

text \<open>The calls of a set-up that succeeds.\<close>

definition server1_trace :: "nat \<Rightarrow> int \<Rightarrow> int \<Rightarrow> int \<Rightarrow> int \<Rightarrow> event list" where
  "server1_trace port m fd c b = [Printed (ascii ''Game started'' @ [10]), Result Malloc m, Result Socket fd,
     Result (Bind fd (htons (word_of_nat port))) 0, Result (Listen fd 1) 0, Result (Accept fd) c, Result Malloc b]"

definition client1_trace :: "u32 \<Rightarrow> nat \<Rightarrow> int \<Rightarrow> int \<Rightarrow> int \<Rightarrow> event list" where
  "client1_trace addr port b m fd = [Result Malloc b, Result Malloc m, Result Socket fd,
     Result (Connect fd addr (htons (word_of_nat port))) 0, Printed (ascii ''You go first'' @ [10])]"

lemma server1_sets_up:
  assumes "port < 65536" "m \<noteq> 0" "0 \<le> fd" "b \<noteq> 0"
  shows "server1_setup [prog, dec port] (started [m, fd, 0, 0, c, b] [])
    = (Continue (c, ttt_new), started [] (server1_trace port m fd c b))"
  using assms
  by (simp add: server1_setup_def server_new_def server_start_def allocate_board_def allocate_def bindP_def
      sys_def started_def server1_trace_def port_word_def atoi_dec)

lemma client1_sets_up:
  assumes "port < 65536" "m \<noteq> 0" "0 \<le> fd" "b \<noteq> 0"
  shows "client1_setup [prog, inet_ntoa addr, dec port] (started [b, m, fd, 0] [])
    = (Continue (fd, ttt_new), started [] (client1_trace addr port b m fd))"
  using assms
  by (simp add: client1_setup_def client_new_def client_start_def allocate_board_def allocate_def bindP_def
      sys_def started_def client1_trace_def port_word_def atoi_dec inet_pton_ntoa)

section \<open>Whole programs\<close>

lemma server1_program_plays:
  assumes "server1_setup argv p = (Continue (c, t), p')" "0 \<le> c"
    and "server_runGame \<lparr>io_board = t, io_stdin = stdin, io_sent = [], io_out = []\<rparr> recvs = Inr (Ended v io)"
  shows "server1_program argv stdin recvs p = (Continue (v, io, verdict_status v), p')"
  using assms by (simp add: server1_program_def server1_play_def bindP_def)

lemma client1_program_plays:
  assumes "client1_setup argv p = (Continue (c, t), p')"
    and "client_main \<lparr>ci_board = t, ci_keys = keys, ci_sent = [], ci_out = []\<rparr> recvs = Inr (C_ended v io)"
  shows "client1_program argv keys recvs p = (Continue (v, io, verdict_status v), p')"
  using assms by (simp add: client1_program_def bindP_def)

text \<open>
  The system grants both programs what they ask for; \<open>m\<close>, \<open>b\<close>, \<open>m'\<close>, \<open>b'\<close> are the allocations, \<open>fd\<close>, \<open>c\<close> and
  \<open>fd'\<close> the sockets.
\<close>

definition granted :: "nat \<Rightarrow> int \<times> int \<times> int \<times> int \<Rightarrow> int \<times> int \<times> int \<Rightarrow> bool" where
  "granted port = (\<lambda>(m, fd, c, b) (b', m', fd'). port < 65536 \<and> m \<noteq> 0 \<and> 0 \<le> fd \<and> 0 \<le> c \<and> b \<noteq> 0
     \<and> b' \<noteq> 0 \<and> m' \<noteq> 0 \<and> 0 \<le> fd')"

text \<open>
  C31. The first version from its command lines to its exits, when the client's move ends the game: the
  server binds the port its argument names, the client connects to that port at the address it was
  given, and after any number of rounds from the empty board, each side having received exactly what the
  other sent, the client's last move makes both programs exit with status 0, the same board and opposite
  verdicts, the draw the same for both.  Each program has shown the board after every move of the other,
  and ends by printing its own verdict and the board.
\<close>

theorem client_ends_game:
  assumes "granted port (m, fd, c, b) (b', m', fd')"
    and "rounds ttt_new ms t" "k < 10" "ttt_makeMove t (int k) = Inr (True, t')" "client_verdict t' = Some v"
  shows "client1_program [name', inet_ntoa addr, dec port] (client_lines ms @ Typed (mark_text k @ [10]) # ks)
      (server_messages ms @ bs) (started [b', m', fd', 0] [])
    = (Continue (v, \<lparr>ci_board = t', ci_keys = ks, ci_sent = client_messages ms @ [mark_text k],
        ci_out = client_prints ttt_new ms @ ascii ''> '' @ show_result v t'\<rparr>, 0),
       started [] (client1_trace addr port b' m' fd'))
   \<and> server1_program [name, dec port] (server_lines ms @ inp) (client_messages ms @ mark_text k # cs)
      (started [m, fd, 0, 0, c, b] [])
    = (Continue (opposite v, \<lparr>io_board = t', io_stdin = inp, io_sent = server_messages ms @ [MARK @ [0]],
        io_out = server_prints ttt_new ms @ show_result (opposite v) t'\<rparr>, 0),
       started [] (server1_trace port m fd c b))"
proof -
  have "v \<noteq> Disconnected" "opposite v \<noteq> Disconnected"
    using assms(5) by (auto simp: client_verdict_def opposite_def split: if_splits)
  then have "verdict_status v = 0" "verdict_status (opposite v) = 0"
    by (simp_all add: verdict_status_def)
  with client_ends [OF assms(2-5)] show ?thesis
    using assms(1) server1_program_plays [OF server1_sets_up] client1_program_plays [OF client1_sets_up]
    by (simp add: granted_def)
qed

lemma client_ends_game_witness:
  "client1_program [[], inet_ntoa 7, dec 4000] (client_lines [(1, 4), (2, 5)] @ Typed (mark_text 3 @ [10]) # [])
      (server_messages [(1, 4), (2, 5)] @ []) (started [1, 1, 3, 0] [])
    = (Continue (You_won, \<lparr>ci_board = board_after [1, 4, 2, 5, 3], ci_keys = [],
        ci_sent = client_messages [(1, 4), (2, 5)] @ [mark_text 3],
        ci_out = client_prints ttt_new [(1, 4), (2, 5)] @ ascii ''> ''
          @ show_result You_won (board_after [1, 4, 2, 5, 3])\<rparr>, 0), started [] (client1_trace 7 4000 1 1 3))
   \<and> server1_program [[], dec 4000] (server_lines [(1, 4), (2, 5)] @ [])
      (client_messages [(1, 4), (2, 5)] @ mark_text 3 # []) (started [1, 3, 0, 0, 4, 1] [])
    = (Continue (opposite You_won, \<lparr>io_board = board_after [1, 4, 2, 5, 3], io_stdin = [],
        io_sent = server_messages [(1, 4), (2, 5)] @ [MARK @ [0]],
        io_out = server_prints ttt_new [(1, 4), (2, 5)]
          @ show_result (opposite You_won) (board_after [1, 4, 2, 5, 3])\<rparr>, 0), started [] (server1_trace 4000 1 3 4 1))"
  by (rule client_ends_game [OF _ game_rounds]) (simp_all add: granted_def game_moves game_verdicts)

text \<open>
  C32. The same when the server's move ends the game: the client's move before it decides nothing, the
  server answers with the move that does, exits, and the client exits on receiving it with the same board
  and the opposite verdict, which each prints with the board.
\<close>

theorem server_ends_game:
  assumes "granted port (m, fd, c, b) (b', m', fd')"
    and "rounds ttt_new ms t" "k < 10" "j < 10" "ttt_makeMove t (int k) = Inr (True, t1)"
    and "server_verdict t1 = None" "ttt_makeMove t1 (int j) = Inr (True, t')" "server_verdict t' = Some v"
  shows "server1_program [name, dec port] (server_lines ms @ mark_text j @ 10 # inp)
      (client_messages ms @ mark_text k # cs) (started [m, fd, 0, 0, c, b] [])
    = (Continue (v, \<lparr>io_board = t', io_stdin = inp, io_sent = server_messages ms @ [mark_text j @ [0]],
        io_out = server_prints ttt_new ms @ ttt_drawBoard t1 @ ascii ''> '' @ show_result v t'\<rparr>, 0),
       started [] (server1_trace port m fd c b))
   \<and> client1_program [name', inet_ntoa addr, dec port] (client_lines ms @ Typed (mark_text k @ [10]) # ks)
      (server_messages ms @ (mark_text j @ [0]) # bs) (started [b', m', fd', 0] [])
    = (Continue (opposite v, \<lparr>ci_board = t', ci_keys = ks,
        ci_sent = client_messages ms @ [mark_text k, mark_text j],
        ci_out = client_prints ttt_new ms @ ascii ''> '' @ ttt_drawBoard t' @ show_result (opposite v) t'\<rparr>, 0),
       started [] (client1_trace addr port b' m' fd'))"
proof -
  have "v \<noteq> Disconnected" "opposite v \<noteq> Disconnected"
    using assms(8) by (auto simp: server_verdict_def opposite_def split: if_splits)
  then have "verdict_status v = 0" "verdict_status (opposite v) = 0"
    by (simp_all add: verdict_status_def)
  with server_ends [OF assms(2-8)] show ?thesis
    using assms(1) server1_program_plays [OF server1_sets_up] client1_program_plays [OF client1_sets_up]
    by (simp add: granted_def)
qed

lemma server_ends_game_witness:
  "server1_program [[], dec 4000] (server_lines [(1, 4), (2, 5)] @ mark_text 6 @ 10 # [])
      (client_messages [(1, 4), (2, 5)] @ mark_text 9 # []) (started [1, 3, 0, 0, 4, 1] [])
    = (Continue (You_won, \<lparr>io_board = board_after [1, 4, 2, 5, 9, 6], io_stdin = [],
        io_sent = server_messages [(1, 4), (2, 5)] @ [mark_text 6 @ [0]],
        io_out = server_prints ttt_new [(1, 4), (2, 5)] @ ttt_drawBoard (board_after [1, 4, 2, 5, 9]) @ ascii ''> ''
          @ show_result You_won (board_after [1, 4, 2, 5, 9, 6])\<rparr>, 0), started [] (server1_trace 4000 1 3 4 1))
   \<and> client1_program [[], inet_ntoa 7, dec 4000] (client_lines [(1, 4), (2, 5)] @ Typed (mark_text 9 @ [10]) # [])
      (server_messages [(1, 4), (2, 5)] @ (mark_text 6 @ [0]) # []) (started [1, 1, 3, 0] [])
    = (Continue (opposite You_won, \<lparr>ci_board = board_after [1, 4, 2, 5, 9, 6], ci_keys = [],
        ci_sent = client_messages [(1, 4), (2, 5)] @ [mark_text 9, mark_text 6],
        ci_out = client_prints ttt_new [(1, 4), (2, 5)] @ ascii ''> '' @ ttt_drawBoard (board_after [1, 4, 2, 5, 9, 6])
          @ show_result (opposite You_won) (board_after [1, 4, 2, 5, 9, 6])\<rparr>, 0),
       started [] (client1_trace 7 4000 1 1 3))"
  by (rule server_ends_game [where ?t1.0 = "board_after [1, 4, 2, 5, 9]", OF _ game_rounds])
     (simp_all add: granted_def game_moves game_verdicts)

end
