(* ===== verification/Cpp_Game.thy ===== *)
theory Cpp_Game
  imports Tictactoe C_Text Inet_Text
begin

text \<open>
  The second version of the game, \<^verbatim>\<open>assignment-1/cpp\<close>: the class of \<^verbatim>\<open>ttt.cpp\<close>, over the same three fields
  as the C structure, and the three programs whose \<^verbatim>\<open>main\<close> reads and checks commands for ever.
  The class differs from the C code in three ways: a move does not switch the player, a board is set up
  by a method of an existing object, and a cell is asked for by row and column.

  The programs read with \<^verbatim>\<open>cin.getline(command, 16)\<close>.  A stream that has met its end, or a line that does
  not fit, stays in an error state that nothing clears: from then on \<^verbatim>\<open>getline\<close> stores an empty string.
\<close>

section \<open>The class\<close>

definition cpp_convertMove :: "int \<Rightarrow> int \<times> int" where
  "cpp_convertMove move = ((move - 1) sdiv 3, (move - 1) smod 3)"

fun cpp_lines :: "TicTacToe \<Rightarrow> u8 \<Rightarrow> nat list \<Rightarrow> bool" where
  "cpp_lines t player [] = False"
| "cpp_lines t player (i # is) =
     (if board t ! i ! 0 = player \<and> board t ! i ! 1 = player \<and> board t ! i ! 2 = player then True
      else if board t ! 0 ! i = player \<and> board t ! 1 ! i = player \<and> board t ! 2 ! i = player then True
      else cpp_lines t player is)"

definition cpp_checkWin :: "TicTacToe \<Rightarrow> u8 \<Rightarrow> bool" where
  "cpp_checkWin t player =
     (if cpp_lines t player [0..<3] then True
      else if board t ! 0 ! 0 = player \<and> board t ! 1 ! 1 = player \<and> board t ! 2 ! 2 = player then True
      else if board t ! 0 ! 2 = player \<and> board t ! 1 ! 1 = player \<and> board t ! 2 ! 0 = player then True
      else False)"

definition clear_cell :: "nat \<Rightarrow> bytes list \<Rightarrow> nat \<Rightarrow> bytes list" where
  "clear_cell i b j = b[i := (b ! i)[j := blank]]"

definition cpp_reset :: "TicTacToe \<Rightarrow> TicTacToe" where
  "cpp_reset t = t\<lparr>board := foldl (\<lambda>b i. foldl (clear_cell i) b [0..<3]) (board t) [0..<3],
     currentPlayer := mark_X, turnCount := 0\<rparr>"

text \<open>The constructor, on storage with any contents.\<close>

definition cpp_construct :: "TicTacToe \<Rightarrow> TicTacToe" where
  "cpp_construct storage = cpp_reset storage"

definition cpp_shown :: "TicTacToe \<Rightarrow> nat \<Rightarrow> nat \<Rightarrow> u8" where
  "cpp_shown t i j =
     (let displayChar = board t ! i ! j
      in if displayChar = blank then 48 + word_of_nat (i * 3 + j + 1) else displayChar)"

definition cpp_drawBoard :: "TicTacToe \<Rightarrow> bytes" where
  "cpp_drawBoard t = ascii ''-------------'' @ [10] @ concat (map (\<lambda>i.
     ascii ''| '' @ concat (map (\<lambda>j. cpp_shown t i j # ascii '' | '') [0..<3])
     @ [10] @ ascii ''-------------'' @ [10]) [0..<3])"

definition cpp_makeMove :: "TicTacToe \<Rightarrow> int \<Rightarrow> (bool \<times> TicTacToe) res" where
  "cpp_makeMove t move =
     (if move < 1 \<or> move > 9 then Inr (False, t)
      else let (row, col) = cpp_convertMove move in
        bindE (board_at t row col) (\<lambda>c.
        if c \<noteq> blank then Inr (False, t)
        else Inr (True, t\<lparr>board := (board t)[nat row := (board t ! nat row)[nat col := currentPlayer t]],
               turnCount := turnCount t + 1\<rparr>)))"

definition cpp_hasWinner :: "TicTacToe \<Rightarrow> bool" where
  "cpp_hasWinner t = cpp_checkWin t (currentPlayer t)"

definition cpp_isDraw :: "TicTacToe \<Rightarrow> bool" where
  "cpp_isDraw t \<longleftrightarrow> turnCount t = 9 \<and> \<not> cpp_hasWinner t"

definition cpp_switchPlayer :: "TicTacToe \<Rightarrow> TicTacToe" where
  "cpp_switchPlayer t = t\<lparr>currentPlayer := (if currentPlayer t = mark_X then mark_O else mark_X)\<rparr>"

definition cpp_getCurrentPlayer :: "TicTacToe \<Rightarrow> u8" where
  "cpp_getCurrentPlayer t = currentPlayer t"

definition cpp_getBoardCell :: "TicTacToe \<Rightarrow> int \<Rightarrow> int \<Rightarrow> u8 res" where
  "cpp_getBoardCell t row col = board_at t row col"

section \<open>The class and the C code\<close>

definition sized_board :: "TicTacToe \<Rightarrow> bool" where
  "sized_board t \<longleftrightarrow> length (board t) = 3 \<and> (\<forall>r \<in> set (board t). length r = 3)"

lemma length_3: "length r = 3 \<Longrightarrow> \<exists>x y z. r = [x, y, z]"
  by (auto simp: numeral_3_eq_3 length_Suc_conv)

lemma cpp_reset_new:
  assumes "sized_board t"
  shows "cpp_reset t = ttt_new"
proof -
  have "length (board t) = 3"
    using assms by (simp add: sized_board_def)
  then obtain a b c where b: "board t = [a, b, c]"
    by (blast dest: length_3)
  then have "length a = 3" "length b = 3" "length c = 3"
    using assms by (simp_all add: sized_board_def)
  then obtain a1 a2 a3 b1 b2 b3 c1 c2 c3 where "a = [a1, a2, a3]" "b = [b1, b2, b3]" "c = [c1, c2, c3]"
    using length_3 [of a] length_3 [of b] length_3 [of c] by blast
  with b show ?thesis
    by (simp add: cpp_reset_def ttt_new_def clear_cell_def upt_3 eval_nat_numeral)
qed

lemma cpp_lines_is_c: "cpp_lines t p is = lines_win t p is"
  by (induction "is") (simp_all add: row_win_def col_win_def upt_3)

lemma cpp_checkWin_is_c: "cpp_checkWin t p = ttt_checkWin t p"
proof -
  have "foldl (\<lambda>w i. w \<and> board t ! (2 - i) ! i = p) True [0..<3]
      \<longleftrightarrow> board t ! 0 ! 2 = p \<and> board t ! 1 ! 1 = p \<and> board t ! 2 ! 0 = p"
    by (simp add: upt_3) blast
  moreover have "foldl (\<lambda>w i. w \<and> board t ! i ! i = p) True [0..<3]
      \<longleftrightarrow> board t ! 0 ! 0 = p \<and> board t ! 1 ! 1 = p \<and> board t ! 2 ! 2 = p"
    by (simp add: upt_3)
  ultimately show ?thesis
    unfolding cpp_checkWin_def ttt_checkWin_def cpp_lines_is_c by presburger
qed

lemma cpp_hasWinner_is_c: "cpp_hasWinner t = ttt_hasWinner t"
  by (simp add: cpp_hasWinner_def ttt_hasWinner_def cpp_checkWin_is_c)

lemma rule_line_ascii: "ascii ''-------------'' @ [10] = rule_line"
  by code_simp

lemma bar_ascii: "ascii ''| '' = [124, 32]" "ascii '' | '' = [32, 124, 32]"
  by code_simp+

lemma cpp_drawBoard_is_c: "cpp_drawBoard t = ttt_drawBoard t"
proof -
  have "cpp_shown t = shown_cell t"
    by (intro ext) (simp add: cpp_shown_def shown_cell_def)
  then show ?thesis
    unfolding cpp_drawBoard_def ttt_drawBoard_def
    by (simp add: bar_ascii flip: rule_line_ascii)
qed

lemma cpp_makeMove_then_switch:
  "bindE (cpp_makeMove t m) (\<lambda>(ok, t'). Inr (ok, if ok then cpp_switchPlayer t' else t')) = ttt_makeMove t m"
  by (auto simp: cpp_makeMove_def ttt_makeMove_def cpp_convertMove_def convertMove_def board_at_def
      cpp_switchPlayer_def ttt_switchPlayer_def split: prod.split)

lemma cpp_makeMove_True:
  "cpp_makeMove t m = Inr (True, t') \<Longrightarrow> ttt_makeMove t m = Inr (True, cpp_switchPlayer t')"
  using cpp_makeMove_then_switch [of t m] by simp

section \<open>Reading commands\<close>

text \<open>
  \<^verbatim>\<open>cin\<close>: the characters not read yet, and whether no error or end has been met.  \<^verbatim>\<open>getline\<close> tests in
  this order: the end of the input, the newline, the last place of the array.
\<close>

record istream =
  cin_text :: bytes
  cin_good :: bool

definition cin_getline :: "nat \<Rightarrow> istream \<Rightarrow> bytes \<times> istream" where
  "cin_getline n s =
     (if \<not> cin_good s then ([], s)
      else let l = takeWhile (\<lambda>c. c \<noteq> 10) (cin_text s); r = drop (length l) (cin_text s) in
        if length l < n then (l, \<lparr>cin_text = drop 1 r, cin_good = r \<noteq> []\<rparr>)
        else (take (n - 1) l, \<lparr>cin_text = drop (n - 1) (cin_text s), cin_good = False\<rparr>))"

text \<open>
  \<^verbatim>\<open>stream >> cmd >> num\<close> and \<^verbatim>\<open>stream.eof()\<close> on the characters of the array up to its terminator: a word,
  a number that fits in an \<^verbatim>\<open>int\<close>, and nothing after it.
\<close>

definition stream_command :: "bytes \<Rightarrow> (bytes \<times> int) option" where
  "stream_command s =
     (let s1 = dropWhile is_space s; cmd = takeWhile (\<lambda>c. \<not> is_space c) s1
      in if cmd = [] then None
         else case parse_int (drop (length cmd) s1) of
           None \<Rightarrow> None
         | Some (n, r) \<Rightarrow> if r = [] \<and> - (2 ^ 31) \<le> n \<and> n < 2 ^ 31 then Some (cmd, n) else None)"

definition invalid_command :: bytes where
  "invalid_command = ascii ''Invalid command'' @ [10]"

definition prompt :: bytes where
  "prompt = ascii ''> ''"

text \<open>The answers of the parsers to what is in the array.\<close>

definition mark_answer :: "bytes \<Rightarrow> bytes" where
  "mark_answer command =
     (case stream_command (cstr command) of
        None \<Rightarrow> invalid_command
      | Some (cmd, n) \<Rightarrow>
          if cmd = MARK then ascii ''valid command: MARK '' @ print_int n @ [10] else invalid_command)"

definition join_answer :: "bytes \<Rightarrow> bytes" where
  "join_answer command =
     (case stream_command (cstr command) of
        None \<Rightarrow> invalid_command
      | Some (cmd, n) \<Rightarrow>
          if cmd = MARK then ascii ''valid command: MARK '' @ print_int n @ [10]
          else if cmd = ascii ''JOIN'' then ascii ''valid command: JOIN '' @ print_int n @ [10]
          else invalid_command)"

definition cpp_server1_parser :: "istream \<Rightarrow> bytes \<times> istream" where
  "cpp_server1_parser s = (let (command, s) = cin_getline 16 s in (mark_answer command, s))"

definition cpp_client1_parser :: "istream \<Rightarrow> bytes \<times> istream" where
  "cpp_client1_parser s = (let (command, s) = cin_getline 16 s in (mark_answer command, s))"

definition cpp_client2_parser :: "istream \<Rightarrow> bytes \<times> istream" where
  "cpp_client2_parser s = (let (command, s) = cin_getline 16 s in (prompt @ join_answer command, s))"

text \<open>What the endless loops of \<^verbatim>\<open>main\<close> have printed after \<open>k\<close> turns.\<close>

fun cpp_server1_main :: "nat \<Rightarrow> istream \<Rightarrow> bytes" where
  "cpp_server1_main 0 s = []"
| "cpp_server1_main (Suc k) s =
     (let (out, s) = cpp_server1_parser s in prompt @ out @ cpp_server1_main k s)"

fun cpp_client1_loop :: "TicTacToe \<Rightarrow> nat \<Rightarrow> istream \<Rightarrow> bytes" where
  "cpp_client1_loop game 0 s = []"
| "cpp_client1_loop game (Suc k) s =
     (let (out, s) = cpp_client1_parser s in prompt @ out @ cpp_drawBoard game @ cpp_client1_loop game k s)"

definition cpp_client1_main :: "TicTacToe \<Rightarrow> nat \<Rightarrow> istream \<Rightarrow> bytes" where
  "cpp_client1_main storage k s = cpp_client1_loop (cpp_construct storage) k s"

fun cpp_client2_loop :: "TicTacToe \<Rightarrow> nat \<Rightarrow> istream \<Rightarrow> bytes" where
  "cpp_client2_loop game 0 s = []"
| "cpp_client2_loop game (Suc k) s =
     (let (out, s) = cpp_client2_parser s in out @ cpp_drawBoard game @ cpp_client2_loop game k s)"

definition cpp_client2_main :: "TicTacToe \<Rightarrow> nat \<Rightarrow> istream \<Rightarrow> bytes" where
  "cpp_client2_main storage k s = cpp_client2_loop (cpp_construct storage) k s"

text \<open>
  The three loops share a contract: a turn reads with \<^verbatim>\<open>getline\<close> and prints what depends only on the
  array.
\<close>

locale prompt_loop =
  fixes loop :: "nat \<Rightarrow> istream \<Rightarrow> bytes" and shown :: "bytes \<Rightarrow> bytes"
  assumes loop_0: "loop 0 s = []"
    and loop_Suc: "loop (Suc k) s = (let (l, s') = cin_getline 16 s in shown l @ loop k s')"
begin

lemma loop_dead: "\<not> cin_good s \<Longrightarrow> loop k s = concat (replicate k (shown []))"
  by (induction k) (simp_all add: loop_0 loop_Suc cin_getline_def)

lemma loop_line:
  assumes "length l < 16" "10 \<notin> set l"
  shows "loop (Suc k) \<lparr>cin_text = l @ 10 # r, cin_good = True\<rparr>
    = shown l @ loop k \<lparr>cin_text = r, cin_good = True\<rparr>"
proof -
  have "takeWhile (\<lambda>c. c \<noteq> 10) (l @ 10 # r) = l"
    using assms(2) by (subst takeWhile_append2) auto
  with assms(1) show ?thesis
    by (simp add: loop_Suc cin_getline_def)
qed

lemma loop_lines:
  assumes "\<forall>l \<in> set ls. length l < 16 \<and> 10 \<notin> set l"
  shows "loop (length ls + k) \<lparr>cin_text = concat (map (\<lambda>l. l @ [10]) ls) @ r, cin_good = True\<rparr>
    = concat (map shown ls) @ loop k \<lparr>cin_text = r, cin_good = True\<rparr>"
  using assms by (induction ls) (simp_all add: loop_line)

lemma loop_last:
  assumes "10 \<notin> set (take 16 r)"
  shows "loop (Suc k) \<lparr>cin_text = r, cin_good = True\<rparr> = shown (take 15 r) @ concat (replicate k (shown []))"
proof (cases "10 \<in> set r")
  case False
  then have all: "takeWhile (\<lambda>c. c \<noteq> 10) r = r"
    by (auto simp: takeWhile_eq_all_conv)
  show ?thesis
    by (cases "length r < 16") (simp_all add: loop_Suc cin_getline_def loop_dead Let_def all)
next
  case True
  then have "16 < length r"
    using assms by (metis not_le take_all)
  let ?l = "takeWhile (\<lambda>c. c \<noteq> 10) r"
  have "?l = take 16 r @ takeWhile (\<lambda>c. c \<noteq> 10) (drop 16 r)"
    using assms takeWhile_append2 [of "take 16 r" "\<lambda>c. c \<noteq> 10" "drop 16 r"] by auto
  then have "\<not> length ?l < 16" "take 15 ?l = take 15 r"
    using \<open>16 < length r\<close> by (simp_all add: min_def)
  then show ?thesis
    by (simp add: loop_Suc cin_getline_def loop_dead Let_def)
qed

lemma loop_session:
  assumes "\<forall>l \<in> set ls. length l < 16 \<and> 10 \<notin> set l" "10 \<notin> set (take 16 r)"
  shows "loop (length ls + Suc k) \<lparr>cin_text = concat (map (\<lambda>l. l @ [10]) ls) @ r, cin_good = True\<rparr>
    = concat (map shown (ls @ [take 15 r])) @ concat (replicate k (shown []))"
  using assms loop_lines [of ls "Suc k" r] by (simp add: loop_last)

end

interpretation server1_loop: prompt_loop cpp_server1_main "\<lambda>l. prompt @ mark_answer l"
  by unfold_locales (simp_all add: cpp_server1_parser_def split: prod.split)

interpretation client1_loop: prompt_loop "cpp_client1_loop game" "\<lambda>l. prompt @ mark_answer l @ cpp_drawBoard game"
  for game
  by unfold_locales (simp_all add: cpp_client1_parser_def split: prod.split)

interpretation client2_loop: prompt_loop "cpp_client2_loop game" "\<lambda>l. prompt @ join_answer l @ cpp_drawBoard game"
  for game
  by unfold_locales (simp_all add: cpp_client2_parser_def split: prod.split)

end
