(* ===== verification/Cpp_Properties.thy ===== *)
theory Cpp_Properties
  imports Cpp_Game Game_Properties
begin

text \<open>
  The properties of the second version of the game: its class refines the C code, its test for a draw is
  exact where the C code's is not, and what the reading loops do on any input.
\<close>

text \<open>
  C34. The class of the second version implements the game of the first: constructed on storage with any
  contents it is the board of \<^verbatim>\<open>ttt_new\<close>, a reset does what \<^verbatim>\<open>ttt_reset\<close> does, a move followed, when it is accepted, by a switch of players is
  the C code's move, and the tests for a win and the drawn board are the same.
\<close>

theorem cpp_class_refines_c:
  assumes "sized_board storage"
  shows "cpp_construct storage = ttt_new \<and> cpp_reset storage = ttt_reset storage
    \<and> bindE (cpp_makeMove t m) (\<lambda>(ok, t'). Inr (ok, if ok then cpp_switchPlayer t' else t')) = ttt_makeMove t m
    \<and> cpp_checkWin t p = ttt_checkWin t p \<and> cpp_drawBoard t = ttt_drawBoard t"
  using assms
  by (simp add: ttt_reset_def cpp_construct_def cpp_reset_new cpp_makeMove_then_switch cpp_checkWin_is_c cpp_drawBoard_is_c)

lemma cpp_class_refines_c_witness:
  "cpp_construct \<lparr>board = [[1, 2, 3], [4, 5, 6], [7, 8, 9]], currentPlayer = 0, turnCount = 77\<rparr> = ttt_new
    \<and> cpp_reset \<lparr>board = [[1, 2, 3], [4, 5, 6], [7, 8, 9]], currentPlayer = 0, turnCount = 77\<rparr>
      = ttt_reset \<lparr>board = [[1, 2, 3], [4, 5, 6], [7, 8, 9]], currentPlayer = 0, turnCount = 77\<rparr>
    \<and> bindE (cpp_makeMove ttt_new 5) (\<lambda>(ok, t'). Inr (ok, if ok then cpp_switchPlayer t' else t'))
      = ttt_makeMove ttt_new 5
    \<and> cpp_checkWin ttt_new mark_X = ttt_checkWin ttt_new mark_X \<and> cpp_drawBoard ttt_new = ttt_drawBoard ttt_new"
  by (rule cpp_class_refines_c) (simp add: sized_board_def)

lemma cells_full: "wf_board (board t) \<Longrightarrow> blank \<notin> set (cells t) \<longleftrightarrow> tally t blank = 0"
  by (simp add: tally_def count_list_0_iff)

text \<open>
  C35. Asked before the players switch, the tests of the second version are exact: after an accepted move
  of a game in which the opponent had no line, \<^verbatim>\<open>hasWinner\<close> says whether anyone has a full line, and
  \<^verbatim>\<open>isDraw\<close> whether the board is full and nobody has.
\<close>

theorem cpp_draw_is_exact:
  assumes "reach ttt_start ttt_step t" "\<not> has_line t (other (currentPlayer t))"
    and "cpp_makeMove t m = Inr (True, t')"
  shows "(cpp_hasWinner t' \<longleftrightarrow> has_line t' mark_X \<or> has_line t' mark_O)
    \<and> (cpp_isDraw t' \<longleftrightarrow> blank \<notin> set (cells t') \<and> \<not> has_line t' mark_X \<and> \<not> has_line t' mark_O)"
proof -
  let ?u = "cpp_switchPlayer t'"
  have inv: "ttt_inv t"
    by (rule ttt.reach_inv [OF assms(1)])
  have "ttt_makeMove t m = Inr (True, ?u)"
    by (rule cpp_makeMove_True [OF assms(3)])
  note moved = makeMove_True [OF inv this]
  have u: "ttt_inv ?u"
    using moved moved_inv [OF inv] by blast
  have same: "board ?u = board t'" "turnCount ?u = turnCount t'" "cells ?u = cells t'" "tally ?u = tally t'"
    by (simp_all add: cpp_switchPlayer_def cells_def tally_def fun_eq_iff)
  have cur: "currentPlayer t' = currentPlayer t"
    using assms(3) by (auto simp: cpp_makeMove_def bindE_eq_Inr split: if_splits prod.splits)
  have wf: "wf_board (board t')"
    using u same by (simp add: ttt_inv_def)
  have p: "currentPlayer t \<in> {mark_X, mark_O}"
    using inv by (auto simp: ttt_inv_def)
  have cells: "cells t' = (cells t)[nat (m - 1) := currentPlayer t]" "nat (m - 1) < length (cells t)"
    using moved same inv by (simp_all add: moved_def ttt_inv_def length_cells)
  have "has_line t (other (currentPlayer t))" if "has_line t' (other (currentPlayer t))"
  proof -
    have *: "cells t ! k = q" if "cells t' ! k = q" "q \<noteq> currentPlayer t" for k q
      using that cells by (cases "k = nat (m - 1)") simp_all
    have "other (currentPlayer t) \<noteq> currentPlayer t"
      using p by (auto simp: other_def)
    with * that show ?thesis
      unfolding has_line_def by blast
  qed
  with assms(2) have "\<not> has_line t' (other (currentPlayer t))"
    by blast
  then have any: "has_line t' mark_X \<or> has_line t' mark_O \<longleftrightarrow> has_line t' (currentPlayer t')"
    using p cur by (auto simp: other_def)
  have win: "cpp_hasWinner t' \<longleftrightarrow> has_line t' (currentPlayer t')"
    by (simp add: cpp_hasWinner_def cpp_checkWin_is_c checkWin_has_line [OF wf])
  have "turnCount t' = 9 \<longleftrightarrow> blank \<notin> set (cells t')"
    using u same tally_le_9 [OF u] cells_full [OF wf] by (simp add: ttt_inv_def) linarith
  with any win show ?thesis
    by (simp add: cpp_isDraw_def) blast
qed

lemma cpp_draw_is_exact_witness:
  "(let t' = snd (projr (cpp_makeMove (board_after [1, 4, 2, 5, 6, 7, 8, 9]) 3)) in
     (cpp_hasWinner t' \<longleftrightarrow> has_line t' mark_X \<or> has_line t' mark_O)
     \<and> (cpp_isDraw t' \<longleftrightarrow> blank \<notin> set (cells t') \<and> \<not> has_line t' mark_X \<and> \<not> has_line t' mark_O))"
proof -
  let ?t = "board_after [1, 4, 2, 5, 6, 7, 8, 9]"
  have "after ttt_new [1, 4, 2, 5, 6, 7, 8, 9] = Some ?t"
    by code_simp
  then have r: "reach ttt_start ttt_step ?t"
    by (rule after_reach [OF new_reach])
  have o: "\<not> has_line ?t (other (currentPlayer ?t))"
    by code_simp
  have "cpp_makeMove ?t 3 = Inr (True, snd (projr (cpp_makeMove ?t 3)))"
    by code_simp
  from cpp_draw_is_exact [OF r o this] show ?thesis
    by (simp only: Let_def)
qed

text \<open>
  C36. The reading loops of the three programs, on any input.  Lines that fit in the array are answered one
  by one; the first line that does not, or that the end of the input cuts off, is answered as its first
  15 characters are, and after it the loops print \<^verbatim>\<open>Invalid command\<close> for ever without reading on.
\<close>

theorem prompt_loops_stop_reading:
  assumes "\<forall>l \<in> set ls. length l < 16 \<and> 10 \<notin> set l" "10 \<notin> set (take 16 r)"
    and "s = \<lparr>cin_text = concat (map (\<lambda>l. l @ [10]) ls) @ r, cin_good = True\<rparr>"
  shows "cpp_server1_main (length ls + Suc k) s
      = concat (map (\<lambda>l. prompt @ mark_answer l) (ls @ [take 15 r]))
        @ concat (replicate k (prompt @ invalid_command))
    \<and> cpp_client1_loop game (length ls + Suc k) s
      = concat (map (\<lambda>l. prompt @ mark_answer l @ cpp_drawBoard game) (ls @ [take 15 r]))
        @ concat (replicate k (prompt @ invalid_command @ cpp_drawBoard game))
    \<and> cpp_client2_loop game (length ls + Suc k) s
      = concat (map (\<lambda>l. prompt @ join_answer l @ cpp_drawBoard game) (ls @ [take 15 r]))
        @ concat (replicate k (prompt @ invalid_command @ cpp_drawBoard game))"
proof -
  have "mark_answer [] = invalid_command" "join_answer [] = invalid_command"
    by (simp_all add: mark_answer_def join_answer_def stream_command_def)
  with server1_loop.loop_session [OF assms(1,2)] client1_loop.loop_session [OF assms(1,2)]
    client2_loop.loop_session [OF assms(1,2)] show ?thesis
    unfolding assms(3) by simp
qed

lemma mark_commands_answered:
  "\<forall>k \<in> set [0..<10]. mark_answer (mark_text k) = ascii ''valid command: MARK '' @ [digit k, 10]
     \<and> join_answer (ascii ''JOIN '' @ [digit k]) = ascii ''valid command: JOIN '' @ [digit k, 10]"
  by code_simp

lemma prompt_loops_stop_reading_witness:
  "cpp_server1_main 3 \<lparr>cin_text = mark_text 5 @ [10] @ ascii ''MARK 00000000005'' @ [10] @ mark_text 7 @ [10],
       cin_good = True\<rparr>
    = prompt @ ascii ''valid command: MARK 5'' @ [10] @ prompt @ ascii ''valid command: MARK 0'' @ [10]
      @ prompt @ invalid_command"
proof -
  have "(\<forall>l \<in> set [mark_text 5]. length l < 16 \<and> 10 \<notin> set l)
      \<and> 10 \<notin> set (take 16 (ascii ''MARK 00000000005'' @ [10] @ mark_text 7 @ [10]))"
    by code_simp
  then have "cpp_server1_main (length [mark_text 5] + Suc 1)
      \<lparr>cin_text = concat (map (\<lambda>l. l @ [10]) [mark_text 5]) @ (ascii ''MARK 00000000005'' @ [10] @ mark_text 7 @ [10]),
       cin_good = True\<rparr>
    = concat (map (\<lambda>l. prompt @ mark_answer l)
        ([mark_text 5] @ [take 15 (ascii ''MARK 00000000005'' @ [10] @ mark_text 7 @ [10])]))
      @ concat (replicate 1 (prompt @ invalid_command))"
    using prompt_loops_stop_reading by blast
  moreover have "mark_answer (mark_text 5) = ascii ''valid command: MARK 5'' @ [10]
      \<and> mark_answer (take 15 (ascii ''MARK 00000000005'' @ [10] @ mark_text 7 @ [10]))
        = ascii ''valid command: MARK 0'' @ [10]"
    by code_simp
  ultimately show ?thesis
    by (simp add: numeral_3_eq_3)
qed

end
