(* ===== verification/Spec2Isabelle.thy ===== *)
theory Spec2Isabelle
  imports Forwarding_Properties Icmp_Properties Arp_Properties Router_Threads Write_Results Sha1_Properties Table_Properties
    Vns_Properties Startup_Properties Instance_Typing Diagnostics Rooms_Properties Game_Programs Cpp_Properties
begin

text \<open>
  A model of the programs of this repository, with the theorems that make them correct.

  \<^bold>\<open>The program.\<close>  \<^verbatim>\<open>src/assignment-3/router\<close> is a software router: a client of a VNS server that
  receives Ethernet frames over a TCP connection, forwards the IP datagrams they carry, answers ARP
  and ICMP, and sends frames back over the same connection.  Its state is one \<^verbatim>\<open>struct sr_instance\<close>:
  interfaces, routing table, ARP cache, log file and socket.  The main thread reads messages
  (\<^verbatim>\<open>sr_vns_comm.c\<close>) and hands frames to \<^verbatim>\<open>sr_handlepacket\<close> (\<^verbatim>\<open>sr_router.c\<close>); a second thread sweeps the
  ARP requests once a second (\<^verbatim>\<open>sr_arpcache.c\<close>).

  \<^verbatim>\<open>src/assignment-1/c\<close> is a game of tic-tac-toe over TCP in two versions: \<^verbatim>\<open>server-p1.c\<close> plays against
  \<^verbatim>\<open>client-p1.c\<close>, each with its own board (\<^verbatim>\<open>ttt.c\<close>); \<^verbatim>\<open>server-p2.c\<close> has five rooms in which two clients
  (\<^verbatim>\<open>client-p2.c\<close>) play each other.  \<^verbatim>\<open>src/assignment-1/cpp\<close> has the class of the board again in C++, and
  programs that only read and answer commands.

  \<^bold>\<open>Conventions.\<close>  Memory that is passed around is a list of bytes.  An operation that the C code can
  only perform by leaving defined behaviour yields a fault (\<open>Prelude.fault\<close>): a read or write outside
  a buffer, a null or dangling pointer, a failed assertion; the result type is a sum.  Integers keep
  their width; values in network byte order are stored as the machine reads them, which is
  little-endian, and \<^verbatim>\<open>htons\<close>/\<^verbatim>\<open>ntohl\<close> are written where the code has them.  Linked lists are lists;
  where the code follows pointers into a list that changes under it (the ARP requests), nodes carry
  an identity.  The environment (clock, contents of fresh memory, results of \<^verbatim>\<open>write\<close>, the schedule of
  \<^verbatim>\<open>recv\<close>) is part of the state and arbitrary in the theorems.

  \<^bold>\<open>Theories.\<close>
  \<^item> \<open>Prelude\<close>: faults, byte order, buffers, C strings.  \<open>Packed_Struct\<close>: the interface of a packed
    struct, interpreted for every header.  \<open>List_Walk\<close>: the interface of a walk to the first match.
  \<^item> \<open>Protocol\<close> (\<^verbatim>\<open>sr_protocol.h\<close>), \<open>Checksum\<close> (\<^verbatim>\<open>cksum\<close>, against RFC 1071), \<open>Interface\<close> (\<^verbatim>\<open>sr_if.c\<close>),
    \<open>Routing\<close> (\<^verbatim>\<open>sr_rt.c\<close>, \<^verbatim>\<open>sr_verify_routing_table\<close>, against longest prefix match), \<open>Arp_Cache\<close>
    (\<^verbatim>\<open>sr_arpcache.c\<close>, against the maps it implements), \<open>Dumper\<close> (\<^verbatim>\<open>sr_dumper.c\<close>, against a reader of the
    format), \<open>Sha1\<close> (\<^verbatim>\<open>sha1.c\<close>, against the standard).
  \<^item> \<open>Vns_Messages\<close> (\<^verbatim>\<open>vnscommand.h\<close>), \<open>Instance\<close> (\<^verbatim>\<open>struct sr_instance\<close>, \<^verbatim>\<open>sr_send_packet\<close>), \<open>Router\<close>
    (\<^verbatim>\<open>sr_router.c\<close> and the request handling of \<^verbatim>\<open>sr_arpcache.c\<close>), \<open>Vns_Comm\<close> (the receiving side of
    \<^verbatim>\<open>sr_vns_comm.c\<close> and the loop of \<^verbatim>\<open>main\<close>), \<open>Inet_Text\<close> and \<open>Routing_File\<close> (addresses as text, the
    table's file), \<open>Startup\<close> (\<^verbatim>\<open>main\<close> of \<^verbatim>\<open>sr_main.c\<close>), \<open>Diagnostics\<close> (\<^verbatim>\<open>sr_utils.c\<close>: the printed headers).
  \<^item> \<open>C_Text\<close> (\<^verbatim>\<open>fgets\<close>, \<^verbatim>\<open>sscanf\<close>, \<^verbatim>\<open>strtok\<close>, \<^verbatim>\<open>atoi\<close> as the programs use them), \<open>Tictactoe\<close> (\<^verbatim>\<open>ttt.c\<close>),
    \<open>Game_P1\<close> (the first version of the game, with all it prints), \<open>Game_P2\<close> and \<open>Rooms\<close> (the second
    version; its threads as a step relation with an invariant), \<open>Game_Setup\<close> (the set-up of the four
    programs: arguments, system calls and memory, over any results of the system), \<open>Game_Programs\<close> (a
    whole program, from its arguments to its exit status), \<open>Cpp_Game\<close> (the C++ class and the reading
    loops, which share one interface).
  \<^item> \<open>Reachability\<close>, \<open>Router_Invariant\<close>: the router as a step relation and its invariant.
    \<open>Router_Threads\<close>: its two threads, the cleanup thread running while the main thread holds a pointer
    to a request without the lock, also inside \<^verbatim>\<open>handle_arpreq\<close>.  \<open>Write_Results\<close>: two runs whose writes
    have different results.  \<open>Instance_Typing\<close>: the widths of all fields of \<^verbatim>\<open>struct sr_instance\<close>, kept by every operation.
  \<^item> \<open>Frames\<close>, \<open>Transmit\<close>, \<open>Icmp\<close>, \<open>Handlers\<close>, \<open>Ip_Handling\<close>, \<open>Arp_Handling\<close>, \<open>Sweep\<close>, \<open>Vns_Reading\<close>,
    \<open>Vns_Handlers\<close>: what each handler computes, as equations the properties rest on.
  \<^item> \<open>Sample\<close>, \<open>Sample_Facts\<close>: the topology of the assignment, on which the properties are instantiated.
  \<^item> \<open>Forwarding_Properties\<close>, \<open>Icmp_Properties\<close>, \<open>Arp_Properties\<close>, \<open>Table_Properties\<close>,
    \<open>Sha1_Properties\<close>, \<open>Vns_Properties\<close>, \<open>Startup_Properties\<close>, \<open>Game_Properties\<close>, \<open>Rooms_Properties\<close>,
    \<open>Setup_Properties\<close>, \<open>Cpp_Properties\<close>: the properties, numbered C1, C2, ... (some stand in the
    theories of the models above).

  \<^bold>\<open>Fuel.\<close>  \<^verbatim>\<open>handle_arpreq\<close> and \<^verbatim>\<open>send_icmp_msg\<close> call each other; \<open>depth\<close> bounds the nesting, and one
  level is enough as long as no request has run out of retries (\<open>handlepacket_returns\<close>).  The sweep
  visits as many nodes as the list has.  The main loop is bounded by the number of messages.  The
  loops of the games end with their input: a program that would wait for more is \<open>Blocked\<close>.

  \<^bold>\<open>Not modelled.\<close>  The text the router's handlers print (the printers they call are in \<open>Diagnostics\<close>;
  a printer that reads outside a buffer or a string faults the handler), the text \<^verbatim>\<open>perror\<close> adds for \<^verbatim>\<open>errno\<close>, and what \<^verbatim>\<open>server-p2.c\<close> prints in its threads;
  \<^verbatim>\<open>free\<close> except where memory is used after it; \<^verbatim>\<open>sr_destroy_instance\<close>, which closes the log; the lock
  of the ARP cache: every operation on it is one step (\<open>Router_Threads\<close> splits \<^verbatim>\<open>handle_arpreq\<close>, which
  the main thread calls outside the lock, where it reads and changes the request);
  \<^verbatim>\<open>SIGINT\<close> other than its handler.  In a room's game the thread is interrupted where it waits
  for a player; what it does after the move, and the exit at the end with freeing the rooms, is one
  step.  The experiments of \<^verbatim>\<open>assignment-2\<close> and the emulation scripts are in other languages.
\<close>

end
